(* ===== verification/Kernel_Prelude.thy ===== *)
theory Kernel_Prelude
  imports Main "HOL-Library.Word" "HOL-Library.Monad_Syntax"
begin

text \<open>
  What the models of all modules share: the machine types of the C code, the error numbers a
  handler returns, the interface of the two user-space copy functions, and generic lemmas on
  byte lists and words. Nothing here models a file of its own under \<open>src/\<close> except the
  length clipping \<open>clip_count\<close>, an idiom the memory drivers repeat.
\<close>

unbundle bit_operations_syntax

section \<open>Machine types\<close>

text \<open>
  The code is compiled for 64-bit Linux: \<open>unsigned char\<close> has 8 bits, \<open>int\<close> and
  \<open>unsigned int\<close> 32, \<open>size_t\<close>, \<open>loff_t\<close> and pointers 64. A signed value is kept as
  the same word and read with \<^const>\<open>sint\<close>.
\<close>

type_synonym u8 = "8 word"
type_synonym u16 = "16 word"
type_synonym u32 = "32 word"
type_synonym u64 = "64 word"

text \<open>
  Error returns. \<open>Code r\<close> is a negative value a kernel function returned and the module
  hands on unchanged. A handler's result is \<open>Inl\<close> of the error it returns negated, or
  \<open>Inr\<close> of its non-negative return value.
\<close>

datatype errno =
    EFAULT | EINVAL | ENXIO | ENOMEM | EAGAIN | ERESTARTSYS | EBUSY | ENOTTY
  | ENOTDIR | ENOTEMPTY | Code int

type_synonym 'a result = "errno + 'a"

section \<open>The user-space copy functions\<close>

text \<open>
  \<open>copy_from_user\<close> and \<open>copy_to_user\<close> belong to the kernel, not to the modules, and are
  parameters of every handler that calls them. Their user address space has an arbitrary
  type \<open>'u\<close>. A copy into the kernel gives the bytes the destination holds afterwards and the
  number of bytes that could not be copied; a copy out of the kernel gives the changed address
  space and that number. \<open>copy_in_fills\<close> is the documented behaviour that the destination of
  \<open>copy_from_user\<close> is filled in any case, with zero bytes where the copy failed.
\<close>

type_synonym 'u copy_in = "'u \<Rightarrow> u64 \<Rightarrow> nat \<Rightarrow> u8 list \<times> u64"
type_synonym 'u copy_out = "'u \<Rightarrow> u64 \<Rightarrow> u8 list \<Rightarrow> 'u \<times> u64"

definition copy_in_fills :: "'u copy_in \<Rightarrow> bool" where
  "copy_in_fills cfu \<longleftrightarrow> (\<forall>us a n. length (fst (cfu us a n)) = n)"

lemma copy_in_fillsD: "copy_in_fills cfu \<Longrightarrow> cfu us a n = (bs, k) \<Longrightarrow> length bs = n"
  unfolding copy_in_fills_def by (metis fst_conv)

text \<open>
  A concrete pair of copy functions over a flat user memory that starts at address 0, for
  evaluating the models: an access past its end fails for the bytes that are missing.
\<close>

definition flat_in :: "u8 list copy_in" where
  "flat_in um a n =
     (let got = take n (drop (unat a) um)
      in (got @ replicate (n - length got) 0, of_nat (n - length got)))"

definition flat_out :: "u8 list copy_out" where
  "flat_out um a bs =
     (let room = length um - unat a; put = take room bs
      in (take (unat a) um @ put @ drop (unat a + length put) um,
          of_nat (length bs - length put)))"

lemma copy_in_fills_flat: "copy_in_fills flat_in"
  by (auto simp: copy_in_fills_def flat_in_def Let_def)

section \<open>An open file\<close>

text \<open>
  The fields of \<open>struct file\<close> the handlers use: the position, whether \<open>O_NONBLOCK\<close> is set, and
  \<open>private_data\<close>, which the drivers set to a device structure (its index here) when the file
  is opened.
\<close>

record open_file =
  f_pos :: u64
  f_nonblock :: bool
  private_data :: "nat option"

text \<open>The calls of the VFS through a driver's \<open>struct file_operations\<close>, after \<open>open\<close>.\<close>

datatype 'u vfs_call =
    Vfs_read 'u u64 u64
  | Vfs_write 'u u64 u64
  | Vfs_llseek u64 int
  | Vfs_ioctl u32

section \<open>Byte ranges of an array\<close>

text \<open>
  \<open>put_bytes m p bs\<close> is the array \<open>m\<close> after \<open>bs\<close> has been stored from index \<open>p\<close> on, and
  \<open>get_bytes m p n\<close> the \<open>n\<close> bytes from \<open>p\<close> on.
\<close>

named_theorems byte_simps \<open>reading and measuring an array after a store\<close>

definition put_bytes :: "'a list \<Rightarrow> nat \<Rightarrow> 'a list \<Rightarrow> 'a list" where
  "put_bytes m p bs = take p m @ bs @ drop (p + length bs) m"

definition get_bytes :: "'a list \<Rightarrow> nat \<Rightarrow> nat \<Rightarrow> 'a list" where
  "get_bytes m p n = take n (drop p m)"

lemma length_put_bytes [byte_simps]:
  "p + length bs \<le> length m \<Longrightarrow> length (put_bytes m p bs) = length m"
  by (simp add: put_bytes_def)

lemma length_get_bytes [byte_simps]: "p + n \<le> length m \<Longrightarrow> length (get_bytes m p n) = n"
  by (simp add: get_bytes_def)

lemma put_bytes_all [simp]: "length m \<le> length bs \<Longrightarrow> put_bytes m 0 bs = bs"
  by (simp add: put_bytes_def)

lemma put_bytes_Nil [byte_simps]: "put_bytes m p [] = m"
  by (simp add: put_bytes_def)

lemma get_bytes_0 [byte_simps]: "get_bytes m p 0 = []"
  by (simp add: get_bytes_def)

lemma get_put_same [byte_simps]:
  "p \<le> length m \<Longrightarrow> get_bytes (put_bytes m p bs) p (length bs) = bs"
  by (simp add: put_bytes_def get_bytes_def)

lemma nth_put_bytes:
  assumes "p + length bs \<le> length m" "i < length m"
  shows "put_bytes m p bs ! i = (if p \<le> i \<and> i < p + length bs then bs ! (i - p) else m ! i)"
proof -
  have *: "min (length m) p = p" using assms by simp
  show ?thesis
    using assms by (auto simp: put_bytes_def nth_append *)
qed

lemma nth_get_bytes: "p + n \<le> length m \<Longrightarrow> i < n \<Longrightarrow> get_bytes m p n ! i = m ! (p + i)"
  by (simp add: get_bytes_def)

lemma nth_put_outside:
  "p + length bs \<le> length m \<Longrightarrow> i < length m \<Longrightarrow> i < p \<or> p + length bs \<le> i \<Longrightarrow>
     put_bytes m p bs ! i = m ! i"
  by (auto simp: nth_put_bytes)

lemma get_put_disjoint:
  assumes "p + length bs \<le> length m" "q + n \<le> length m"
    and "q + n \<le> p \<or> p + length bs \<le> q"
  shows "get_bytes (put_bytes m p bs) q n = get_bytes m q n"
proof (rule nth_equalityI)
  show "length (get_bytes (put_bytes m p bs) q n) = length (get_bytes m q n)"
    using assms by (simp add: byte_simps)
next
  fix i assume "i < length (get_bytes (put_bytes m p bs) q n)"
  then have i: "i < n" using assms by (simp add: byte_simps)
  have "put_bytes m p bs ! (q + i) = m ! (q + i)"
    using assms i by (intro nth_put_outside) auto
  then show "get_bytes (put_bytes m p bs) q n ! i = get_bytes m q n ! i"
    using assms i by (simp add: nth_get_bytes byte_simps)
qed

lemma get_append_get:
  "p + n + k \<le> length m \<Longrightarrow> get_bytes m p n @ get_bytes m (p + n) k = get_bytes m p (n + k)"
  by (simp add: get_bytes_def take_add add.commute [of n p])

lemma get_all: "length m = n \<Longrightarrow> get_bytes m 0 n = m"
  by (simp add: get_bytes_def)

section \<open>Clipping a length to the space that is left\<close>

text \<open>
  \<open>if (count > LIMIT - p) count = LIMIT - p;\<close> with \<open>count\<close> an \<open>unsigned int\<close> and \<open>p\<close>
  an \<open>unsigned long\<close>: the comparison and the subtraction are done in 64 bits, the assignment
  truncates to 32.
\<close>

definition clip_count :: "u64 \<Rightarrow> u64 \<Rightarrow> u32 \<Rightarrow> u32" where
  "clip_count lim p count =
     (if ucast count > lim - p then ucast (lim - p) else count)"

lemma unat_ucast_up32: "unat (ucast (w :: u32) :: u64) = unat w"
  by transfer (simp add: take_bit_take_bit)

lemma unat_ucast_down32: "unat (x :: u64) < 2 ^ 32 \<Longrightarrow> unat (ucast x :: u32) = unat x"
  by (simp add: unsigned_ucast_eq take_bit_nat_eq_self)

lemma unat_sub_le: "p \<le> lim \<Longrightarrow> unat (lim - p :: u64) = unat lim - unat p"
  by (simp add: unat_sub)

lemma unat_clip_count:
  assumes "p \<le> lim" "unat lim < 2 ^ 32"
  shows "unat (clip_count lim p c) = min (unat c) (unat lim - unat p)"
proof -
  have d: "unat (lim - p) = unat lim - unat p" using assms(1) by (rule unat_sub_le)
  show ?thesis
  proof (cases "ucast c > lim - p")
    case True
    then have "unat (lim - p) < unat (ucast c :: u64)" by (simp add: word_less_nat_alt)
    then show ?thesis using True d assms(2)
      by (simp add: clip_count_def unat_ucast_up32 unat_ucast_down32)
  next
    case False
    then have "unat (ucast c :: u64) \<le> unat (lim - p)" by (simp add: word_le_nat_alt not_less)
    then show ?thesis using False d by (simp add: clip_count_def unat_ucast_up32)
  qed
qed

lemma unat_add_ucast:
  assumes "unat (p :: u64) + unat (c :: u32) < 2 ^ 64"
  shows "unat (p + ucast c) = unat p + unat c"
  using assms by (simp add: unat_word_ariths unat_ucast_up32)

lemma sint_u32_small:
  assumes "unat (c :: u32) < 2 ^ 31"
  shows "sint c = int (unat c)"
proof -
  have u: "uint c = int (unat c)" by simp
  have "int (unat c) < int (2 ^ 31)" using assms by (simp only: of_nat_less_iff)
  then have "uint c < 2 ^ 31" unfolding u by (simp only: of_nat_power of_nat_numeral)
  moreover have "- (2 ^ 31) \<le> uint c" by (rule order_trans [OF _ uint_ge_0]) simp
  ultimately have "signed_take_bit 31 (uint c) = uint c"
    by (intro signed_take_bit_int_eq_self)
  then show ?thesis unfolding u [symmetric] by (simp add: sint_uint)
qed

lemma sint_u64_small:
  assumes "unat (c :: u64) < 2 ^ 63"
  shows "sint c = int (unat c)"
proof -
  have u: "uint c = int (unat c)" by simp
  have "int (unat c) < int (2 ^ 63)" using assms by (simp only: of_nat_less_iff)
  then have "uint c < 2 ^ 63" unfolding u by (simp only: of_nat_power of_nat_numeral)
  moreover have "- (2 ^ 63) \<le> uint c" by (rule order_trans [OF _ uint_ge_0]) simp
  ultimately have "signed_take_bit 63 (uint c) = uint c"
    by (intro signed_take_bit_int_eq_self)
  then show ?thesis unfolding u [symmetric] by (simp add: sint_uint)
qed

end
