(* ===== verification/Byte_Device.thy ===== *)
theory Byte_Device
  imports Kernel_Prelude
begin

text \<open>
  The contract of a seekable byte device of fixed size, which the two memory drivers
  (\<open>globalmem\<close>, \<open>globalmem_lock\<close>) promise to the VFS: an abstract specification of
  \<open>read\<close>, \<open>write\<close> and \<open>llseek\<close> over a byte list and a cursor, the locale
  \<open>seekable_device\<close> that says a driver's handlers refine it, and what a client may conclude
  from the contract alone. The drivers interpret the locale in their own theories.
\<close>

section \<open>Abstract specification\<close>

text \<open>
  \<open>spec_read lim ctu m us buf n p\<close>: at or past the end a non-empty request fails and an empty
  one gives 0; before it, as many of the \<open>n\<close> bytes as are left are offered to the user copy,
  which decides between success and \<open>EFAULT\<close>. The result is the return value, the new cursor
  and the user memory (for a write: the new contents).
\<close>

definition spec_read ::
  "nat \<Rightarrow> 'u copy_out \<Rightarrow> u8 list \<Rightarrow> 'u \<Rightarrow> u64 \<Rightarrow> nat \<Rightarrow> nat \<Rightarrow> int result \<times> nat \<times> 'u" where
  "spec_read lim ctu m us buf n p =
     (if lim \<le> p then (if n = 0 then Inr 0 else Inl ENXIO, p, us)
      else let k = min n (lim - p); (us', left) = ctu us buf (get_bytes m p k)
           in if left = 0 then (Inr (int k), p + k, us') else (Inl EFAULT, p, us'))"

definition spec_write ::
  "nat \<Rightarrow> 'u copy_in \<Rightarrow> u8 list \<Rightarrow> 'u \<Rightarrow> u64 \<Rightarrow> nat \<Rightarrow> nat \<Rightarrow> int result \<times> nat \<times> u8 list" where
  "spec_write lim cfu m us buf n p =
     (if lim \<le> p then (if n = 0 then Inr 0 else Inl ENXIO, p, m)
      else let k = min n (lim - p); (bs, left) = cfu us buf k
           in (if left = 0 then (Inr (int k), p + k, put_bytes m p bs)
               else (Inl EFAULT, p, put_bytes m p bs)))"

section \<open>The interface\<close>

type_synonym ('d, 'u) read_op =
  "'u copy_out \<Rightarrow> 'd \<Rightarrow> 'u \<Rightarrow> u64 \<Rightarrow> u64 \<Rightarrow> u64 \<Rightarrow> int result \<times> u64 \<times> 'u"

type_synonym ('d, 'u) write_op =
  "'u copy_in \<Rightarrow> 'd \<Rightarrow> 'u \<Rightarrow> u64 \<Rightarrow> u64 \<Rightarrow> u64 \<Rightarrow> int result \<times> u64 \<times> 'd"

type_synonym seek_op = "u64 \<Rightarrow> u64 \<Rightarrow> int \<Rightarrow> int result \<times> u64"

text \<open>The value of a C \<open>unsigned int\<close> that a \<open>size_t\<close> argument is assigned to.\<close>

abbreviation request :: "u64 \<Rightarrow> nat" where
  "request sz \<equiv> unat (ucast sz :: u32)"

locale seekable_device =
  fixes lim :: nat
    and bytes :: "'d \<Rightarrow> u8 list"
    and dread :: "('d, 'u) read_op"
    and dwrite :: "('d, 'u) write_op"
    and dseek :: seek_op
  assumes lim_small: "lim < 2 ^ 31"
    and read_refines: "length (bytes d) = lim \<Longrightarrow>
      map_prod id (map_prod unat id) (dread ctu d us buf sz pos) =
        spec_read lim ctu (bytes d) us buf (request sz) (unat pos)"
    and write_refines: "length (bytes d) = lim \<Longrightarrow>
      map_prod id (map_prod unat bytes) (dwrite cfu d us buf sz pos) =
        spec_write lim cfu (bytes d) us buf (request sz) (unat pos)"
    and seek_set: "sint off \<ge> 0 \<Longrightarrow> sint off < 2 ^ 32 \<Longrightarrow>
      dseek pos off 0 = (if sint off \<le> int lim then (Inr (sint off), off) else (Inl EINVAL, pos))"
    and seek_bounded: "unat pos \<le> lim \<Longrightarrow> unat (snd (dseek pos off whence)) \<le> lim"
    and seek_result: "unat pos \<le> lim \<Longrightarrow> fst (dseek pos off whence) = Inr r \<Longrightarrow>
      snd (dseek pos off whence) = word_of_int r \<and> 0 \<le> r \<and> r \<le> int lim"
    and seek_error: "fst (dseek pos off whence) = Inl e \<Longrightarrow>
      e = EINVAL \<and> snd (dseek pos off whence) = pos"

section \<open>Sessions: one open file and a sequence of calls\<close>

datatype 'u dev_call = Call_read 'u u64 u64 | Call_write 'u u64 u64 | Call_seek u64 int

fun dev_call_step ::
  "('d, 'u) read_op \<Rightarrow> ('d, 'u) write_op \<Rightarrow> seek_op \<Rightarrow> 'u copy_out \<Rightarrow> 'u copy_in \<Rightarrow>
     'd \<times> u64 \<Rightarrow> 'u dev_call \<Rightarrow> 'd \<times> u64" where
  "dev_call_step rd wr sk ctu cfu (d, pos) (Call_read us buf sz) =
     (d, fst (snd (rd ctu d us buf sz pos)))"
| "dev_call_step rd wr sk ctu cfu (d, pos) (Call_write us buf sz) =
     (let r = wr cfu d us buf sz pos in (snd (snd r), fst (snd r)))"
| "dev_call_step rd wr sk ctu cfu (d, pos) (Call_seek off whence) =
     (d, snd (sk pos off whence))"

definition dev_session ::
  "('d, 'u) read_op \<Rightarrow> ('d, 'u) write_op \<Rightarrow> seek_op \<Rightarrow> 'u copy_out \<Rightarrow> 'u copy_in \<Rightarrow>
     'd \<times> u64 \<Rightarrow> 'u dev_call list \<Rightarrow> 'd \<times> u64" where
  "dev_session rd wr sk ctu cfu = foldl (dev_call_step rd wr sk ctu cfu)"

lemma spec_read_pos: "p \<le> lim \<Longrightarrow> fst (snd (spec_read lim ctu m us buf n p)) \<le> lim"
  by (auto simp: spec_read_def Let_def split: prod.splits)

lemma spec_write_pos: "p \<le> lim \<Longrightarrow> fst (snd (spec_write lim cfu m us buf n p)) \<le> lim"
  by (auto simp: spec_write_def Let_def split: prod.splits)

lemma spec_write_length:
  assumes "copy_in_fills cfu" "length m = lim"
  shows "length (snd (snd (spec_write lim cfu m us buf n p))) = lim"
  using assms
  by (auto simp: spec_write_def Let_def byte_simps dest!: copy_in_fillsD split: prod.splits)

lemma spec_write_success:
  assumes "spec_write lim cfu m us buf n p = (Inr k, p', m')" "p < lim"
  shows "k = int (min n (lim - p)) \<and> p' = p + min n (lim - p) \<and>
    (\<exists>bs. cfu us buf (min n (lim - p)) = (bs, 0) \<and> m' = put_bytes m p bs)"
  using assms by (auto simp: spec_write_def Let_def split: prod.splits if_splits)

text \<open>What the contract gives a client, whatever driver provides it.\<close>

context seekable_device
begin

lemma read_parts:
  assumes "length (bytes d) = lim"
  shows "fst (dread ctu d us buf sz pos) =
      fst (spec_read lim ctu (bytes d) us buf (request sz) (unat pos))"
    and "unat (fst (snd (dread ctu d us buf sz pos))) =
      fst (snd (spec_read lim ctu (bytes d) us buf (request sz) (unat pos)))"
    and "snd (snd (dread ctu d us buf sz pos)) =
      snd (snd (spec_read lim ctu (bytes d) us buf (request sz) (unat pos)))"
  using read_refines [OF assms, of ctu us buf sz pos, symmetric]
  by (cases "dread ctu d us buf sz pos"; simp)+

lemma write_parts:
  assumes "length (bytes d) = lim"
  shows "fst (dwrite cfu d us buf sz pos) =
      fst (spec_write lim cfu (bytes d) us buf (request sz) (unat pos))"
    and "unat (fst (snd (dwrite cfu d us buf sz pos))) =
      fst (snd (spec_write lim cfu (bytes d) us buf (request sz) (unat pos)))"
    and "bytes (snd (snd (dwrite cfu d us buf sz pos))) =
      snd (snd (spec_write lim cfu (bytes d) us buf (request sz) (unat pos)))"
  using write_refines [OF assms, of cfu us buf sz pos, symmetric]
  by (cases "dwrite cfu d us buf sz pos"; simp)+

lemma call_keeps:
  assumes "copy_in_fills cfu" "length (bytes (fst s)) = lim" "unat (snd s) \<le> lim"
  shows "length (bytes (fst (dev_call_step dread dwrite dseek ctu cfu s c))) = lim \<and>
    unat (snd (dev_call_step dread dwrite dseek ctu cfu s c)) \<le> lim"
  using assms
  by (cases s; cases c)
     (simp_all add: Let_def read_parts write_parts spec_read_pos spec_write_pos
       spec_write_length seek_bounded)

lemma session_keeps:
  assumes "copy_in_fills cfu" "length (bytes d) = lim" "unat pos \<le> lim"
  shows "length (bytes (fst (dev_session dread dwrite dseek ctu cfu (d, pos) cs))) = lim \<and>
    unat (snd (dev_session dread dwrite dseek ctu cfu (d, pos) cs)) \<le> lim"
proof -
  have "length (bytes (fst s)) = lim \<Longrightarrow> unat (snd s) \<le> lim \<Longrightarrow>
      length (bytes (fst (foldl (dev_call_step dread dwrite dseek ctu cfu) s cs))) = lim \<and>
      unat (snd (foldl (dev_call_step dread dwrite dseek ctu cfu) s cs)) \<le> lim" for s
  proof (induction cs arbitrary: s)
    case Nil
    then show ?case by simp
  next
    case (Cons c cs)
    then show ?case using call_keeps [OF assms(1), of s ctu c] by simp
  qed
  from this [of "(d, pos)"] show ?thesis using assms by (simp add: dev_session_def)
qed

lemma write_frame:
  assumes "copy_in_fills cfu" "length (bytes d) = lim"
    and w: "dwrite cfu d us buf sz pos = (r, pos', d')"
    and i: "i < lim" "i < unat pos \<or> unat pos + request sz \<le> i"
  shows "bytes d' ! i = bytes d ! i"
proof -
  let ?k = "min (request sz) (lim - unat pos)"
  obtain bs left where c: "cfu us buf ?k = (bs, left)" by fastforce
  then have l: "length bs = ?k" using assms(1) by (rule copy_in_fillsD [rotated])
  have "bytes d' = snd (snd (spec_write lim cfu (bytes d) us buf (request sz) (unat pos)))"
    using write_parts(3) [OF assms(2), of cfu us buf sz pos] w by simp
  then have "bytes d' = (if lim \<le> unat pos then bytes d else put_bytes (bytes d) (unat pos) bs)"
    using c by (simp add: spec_write_def Let_def)
  then show ?thesis using i l assms(2) by (auto intro!: nth_put_outside)
qed

text \<open>
  Write, seek back, read the same amount: exactly the bytes the user handed in come out.
\<close>

lemma write_seek_read:
  assumes "copy_in_fills cfu" "length (bytes d) = lim" "unat pos < lim"
    and w: "dwrite cfu d us buf sz pos = (Inr k, pos', d')"
    and s: "dseek pos' pos 0 = (r, pos'')"
  obtains bs where "cfu us buf (nat k) = (bs, 0)" "length bs = nat k"
    and "r = Inr (int (unat pos))" "pos'' = pos"
    and "dread ctu d' usr bufr sz pos'' =
           (case ctu usr bufr bs of (us', left) \<Rightarrow>
              if left = 0 then (Inr k, pos', us') else (Inl EFAULT, pos, us'))"
proof -
  let ?n = "min (request sz) (lim - unat pos)"
  have "spec_write lim cfu (bytes d) us buf (request sz) (unat pos) =
      (Inr k, unat pos', bytes d')"
    using write_refines [OF assms(2), of cfu us buf sz pos] w by simp
  from spec_write_success [OF this assms(3)] obtain bs where
    k: "k = int ?n" "unat pos' = unat pos + ?n" "cfu us buf ?n = (bs, 0)"
    and d': "bytes d' = put_bytes (bytes d) (unat pos) bs" by blast
  have l: "length bs = ?n" using assms(1) k(3) by (rule copy_in_fillsD)
  have ld: "length (bytes d') = lim" using d' l assms(2,3) by (simp add: byte_simps)
  have "unat pos < 2 ^ 63" using assms(3) lim_small by simp
  then have sp: "sint pos = int (unat pos)" by (rule sint_u64_small)
  have u: "int (unat pos) < int lim" using assms(3) by (simp only: of_nat_less_iff)
  have sk: "r = Inr (int (unat pos)) \<and> pos'' = pos"
    using seek_set [of pos pos'] s u lim_small unfolding sp by simp
  have g: "get_bytes (bytes d') (unat pos) ?n = bs"
    using d' l assms(2,3) by (metis get_put_same less_imp_le)
  obtain us' left where cu: "ctu usr bufr bs = (us', left)" by fastforce
  have rd: "map_prod id (map_prod unat id) (dread ctu d' usr bufr sz pos) =
      (if left = 0 then (Inr k, unat pos', us') else (Inl EFAULT, unat pos, us'))"
    using read_refines [OF ld, of ctu usr bufr sz pos] assms(3) g k cu
    by (simp add: spec_read_def Let_def)
  have "dread ctu d' usr bufr sz pos'' =
      (case ctu usr bufr bs of (us', left) \<Rightarrow>
         if left = 0 then (Inr k, pos', us') else (Inl EFAULT, pos, us'))"
    using rd sk cu by (cases "dread ctu d' usr bufr sz pos") (auto dest!: word_unat_eq_iff [THEN iffD2] split: if_splits)
  then show thesis using that k(1,3) l sk by simp
qed

end

section \<open>The code shape of the memory drivers, for any size\<close>

text \<open>
  Both memory drivers consist of the same C code over a different size constant. The three
  functions here are that code with the size as a parameter; each driver's theory has its own
  literal translation and shows it equal to an instance, so the refinement is proved once.
\<close>

definition read_code :: "u64 \<Rightarrow> 'u copy_out \<Rightarrow> u8 list \<Rightarrow> 'u \<Rightarrow> u64 \<Rightarrow> u64 \<Rightarrow> u64 \<Rightarrow>
    int result \<times> u64 \<times> 'u" where
  "read_code lim ctu m us buf sz pos =
     (if pos \<ge> lim then (if (ucast sz :: u32) \<noteq> 0 then Inl ENXIO else Inr 0, pos, us)
      else let count = clip_count lim pos (ucast sz);
               (us', left) = ctu us buf (get_bytes m (unat pos) (unat count))
           in if left \<noteq> 0 then (Inl EFAULT, pos, us')
              else (Inr (sint count), pos + ucast count, us'))"

definition write_code :: "u64 \<Rightarrow> 'u copy_in \<Rightarrow> u8 list \<Rightarrow> 'u \<Rightarrow> u64 \<Rightarrow> u64 \<Rightarrow> u64 \<Rightarrow>
    int result \<times> u64 \<times> u8 list" where
  "write_code lim cfu m us buf sz pos =
     (if pos \<ge> lim then (if (ucast sz :: u32) \<noteq> 0 then Inl ENXIO else Inr 0, pos, m)
      else let count = clip_count lim pos (ucast sz);
               (bs, left) = cfu us buf (unat count);
               m' = put_bytes m (unat pos) bs
           in if left \<noteq> 0 then (Inl EFAULT, pos, m')
              else (Inr (sint count), pos + ucast count, m'))"

definition llseek_code :: "int \<Rightarrow> seek_op" where
  "llseek_code lim pos off orig =
     (if orig = 0 then
        (if sint off < 0 then (Inl EINVAL, pos)
         else if int (unat (ucast off :: u32)) > lim then (Inl EINVAL, pos)
         else (Inr (sint (ucast (ucast off :: u32) :: u64)), ucast (ucast off :: u32)))
      else if orig = 1 then
        (if sint (pos + off) > lim then (Inl EINVAL, pos)
         else if sint (pos + off) < 0 then (Inl EINVAL, pos)
         else (Inr (sint (pos + off)), pos + off))
      else (Inl EINVAL, pos))"

lemma clip_facts:
  assumes "pos < lim" "unat lim < 2 ^ 31"
  shows "unat (clip_count lim pos c) = min (unat c) (unat lim - unat pos)"
    and "sint (clip_count lim pos c) = int (min (unat c) (unat lim - unat pos))"
    and "unat (pos + ucast (clip_count lim pos c)) =
      unat pos + min (unat c) (unat lim - unat pos)"
proof -
  let ?n = "min (unat c) (unat lim - unat pos)"
  have p: "unat pos < unat lim" using assms(1) by (simp add: word_less_nat_alt)
  show c: "unat (clip_count lim pos c) = ?n"
    using assms by (intro unat_clip_count) auto
  have n: "?n < 2 ^ 31" "unat pos + ?n < 2 ^ 31" using p assms(2) by linarith+
  show "sint (clip_count lim pos c) = int ?n"
    using sint_u32_small [of "clip_count lim pos c"] n(1) unfolding c by simp
  show "unat (pos + ucast (clip_count lim pos c)) = unat pos + ?n"
    using unat_add_ucast [of pos "clip_count lim pos c"] n(2) unfolding c by simp
qed

lemma read_code_refines:
  assumes "unat lim < 2 ^ 31"
  shows "map_prod id (map_prod unat id) (read_code lim ctu m us buf sz pos) =
    spec_read (unat lim) ctu m us buf (request sz) (unat pos)"
proof (cases "pos < lim")
  case True
  then have "unat pos < unat lim" "\<not> lim \<le> pos" by (simp_all add: word_less_nat_alt not_le)
  then show ?thesis using clip_facts [OF True assms, of "ucast sz"]
    by (auto simp: read_code_def spec_read_def Let_def split: prod.split)
next
  case False
  then have "unat lim \<le> unat pos" "lim \<le> pos" by (simp_all add: word_le_nat_alt not_less)
  then show ?thesis using False
    by (simp add: read_code_def spec_read_def unat_eq_0)
qed

lemma write_code_refines:
  assumes "unat lim < 2 ^ 31"
  shows "map_prod id (map_prod unat id) (write_code lim cfu m us buf sz pos) =
    spec_write (unat lim) cfu m us buf (request sz) (unat pos)"
proof (cases "pos < lim")
  case True
  then have "unat pos < unat lim" "\<not> lim \<le> pos" by (simp_all add: word_less_nat_alt not_le)
  then show ?thesis using clip_facts [OF True assms, of "ucast sz"]
    by (auto simp: write_code_def spec_write_def Let_def split: prod.split)
next
  case False
  then have "unat lim \<le> unat pos" "lim \<le> pos" by (simp_all add: word_le_nat_alt not_less)
  then show ?thesis using False
    by (simp add: write_code_def spec_write_def unat_eq_0)
qed

text \<open>Facts about \<open>llseek_code\<close>, one for each law of the interface.\<close>

lemma uint_of_sint:
  assumes "0 \<le> sint (w :: u64)"
  shows "uint w = sint w"
proof -
  have "sint w < 2 ^ 63" using sint_lt [of w] by simp
  then have "take_bit 64 (sint w) = sint w" using assms by (intro take_bit_int_eq_self) auto
  then show ?thesis by (simp add: uint_sint)
qed

lemma unat_of_sint: "0 \<le> sint (w :: u64) \<Longrightarrow> int (unat w) = sint w"
  using uint_of_sint [of w] by simp

lemma unat_le_of_sint: "0 \<le> sint (w :: u64) \<Longrightarrow> sint w \<le> int n \<Longrightarrow> unat w \<le> n"
  using unat_of_sint [of w] by linarith

lemma ucast_down_up:
  assumes "unat (w :: u64) < 2 ^ 32"
  shows "ucast (ucast w :: u32) = w"
  using assms by (simp add: word_unat_eq_iff unat_ucast_up32 unat_ucast_down32)

lemma llseek_code_set:
  assumes "0 \<le> sint off" "sint off < 2 ^ 32"
  shows "llseek_code lim pos off 0 =
    (if sint off \<le> lim then (Inr (sint off), off) else (Inl EINVAL, pos))"
proof -
  have u: "int (unat off) = sint off" using assms(1) by (rule unat_of_sint)
  then have "int (unat off) < int (2 ^ 32)" using assms(2) by simp
  then have "unat off < 2 ^ 32" by (simp only: of_nat_less_iff)
  then have "ucast (ucast off :: u32) = off" "int (unat (ucast off :: u32)) = sint off"
    using u by (simp_all add: ucast_down_up unat_ucast_down32)
  then show ?thesis using assms by (simp add: llseek_code_def)
qed

text \<open>The positions \<open>llseek\<close> accepts: the new cursor lies in the device, as does the result.\<close>

lemma llseek_code_Inr:
  assumes "fst (llseek_code lim pos off orig) = Inr r" "lim < 2 ^ 31"
  shows "snd (llseek_code lim pos off orig) = word_of_int r \<and> 0 \<le> r \<and> r \<le> lim"
proof -
  have big: "sint (ucast (w :: u32) :: u64) = int (unat w)" for w
  proof -
    have "unat w < 2 ^ 32" using unsigned_less [of w, where ?'a = nat] by simp
    then have "unat (ucast w :: u64) < 2 ^ 63" by (simp add: unat_ucast_up32)
    from sint_u64_small [OF this] show ?thesis by (simp add: unat_ucast_up32)
  qed
  then have s: "sint (ucast (ucast off :: u32) :: u64) = uint (ucast off :: u32)" by simp
  have w: "word_of_int (uint (ucast off :: u32)) = (ucast (ucast off :: u32) :: u64)"
    unfolding s [symmetric] by simp
  show ?thesis using assms w by (auto simp: llseek_code_def s split: if_splits)
qed

lemma llseek_code_Inl:
  "fst (llseek_code lim pos off orig) = Inl e \<Longrightarrow>
     e = EINVAL \<and> snd (llseek_code lim pos off orig) = pos"
  by (auto simp: llseek_code_def split: if_splits)

lemma llseek_code_bounded:
  assumes "lim < 2 ^ 31" "0 \<le> lim" "unat pos \<le> nat lim"
  shows "unat (snd (llseek_code lim pos off orig)) \<le> nat lim"
proof (cases "fst (llseek_code lim pos off orig)")
  case (Inl e)
  then show ?thesis using llseek_code_Inl [OF Inl] assms(3) by simp
next
  case (Inr r)
  have "unat (word_of_int r :: u64) = nat (take_bit 64 r)" by (simp add: unsigned_of_int)
  moreover have "take_bit 64 r = r"
    using llseek_code_Inr [OF Inr assms(1)] assms(1) by (intro take_bit_int_eq_self) auto
  ultimately show ?thesis using llseek_code_Inr [OF Inr assms(1)] by auto
qed

end
