(* ===== verification/Chrdev.thy ===== *)
theory Chrdev
  imports Kernel_Prelude
begin

text \<open>
  Loading and unloading a character-device module. The drivers of the repository acquire the
  same kernel resources in the same way (a range of device numbers, one block of memory, a
  \<open>cdev\<close> per minor) and give them back in \<open>module_exit\<close>. The kernel functions are not part
  of the repository: their return values are a parameter (\<open>kenv\<close>), and what a module does to
  the kernel is the list of calls it makes (\<open>kcall\<close>). Ledgers read off such a list which
  resources are held afterwards; the locales state when a module's accounts are balanced.
\<close>

section \<open>Kernel calls\<close>

text \<open>A \<open>dev_t\<close> packs a major number of 12 bits and a minor number of 20 bits; larger majors wrap.\<close>

type_synonym dev_t = u32

definition MKDEV :: "int \<Rightarrow> nat \<Rightarrow> dev_t" where
  "MKDEV ma mi = push_bit 20 (word_of_int ma) OR of_nat mi"

definition MAJOR :: "dev_t \<Rightarrow> int" where
  "MAJOR d = uint (drop_bit 20 d)"

definition MINOR :: "dev_t \<Rightarrow> nat" where
  "MINOR d = unat (d AND mask 20)"

lemma minor_bits:
  assumes "mi < 2 ^ 20" "20 \<le> j"
  shows "\<not> bit (of_nat mi :: u32) j"
proof -
  have "(2 :: nat) ^ 20 \<le> 2 ^ j" using assms(2) by (rule power_increasing) simp
  then have "mi < 2 ^ j" using assms(1) by (rule less_le_trans [rotated])
  then have "\<not> bit mi j" by (simp add: bit_nat_def)
  then show ?thesis by (simp add: bit_simps)
qed

lemma MINOR_MKDEV [simp]:
  assumes "mi < 2 ^ 20"
  shows "MINOR (MKDEV ma mi) = mi"
proof -
  have "MKDEV ma mi AND mask 20 = (of_nat mi :: u32)"
    using minor_bits [OF assms] by (intro bit_word_eqI) (auto simp: MKDEV_def bit_push_bit_iff bit_and_iff bit_or_iff bit_mask_iff not_less [symmetric])
  moreover have "unat (of_nat mi :: u32) = mi"
    using assms by (simp add: unsigned_of_nat take_bit_nat_eq_self)
  ultimately show ?thesis by (simp add: MINOR_def)
qed

lemma MAJOR_MKDEV [simp]:
  assumes "mi < 2 ^ 20"
  shows "MAJOR (MKDEV ma mi) = ma mod 4096"
proof -
  have "drop_bit 20 (MKDEV ma mi) = (word_of_int (take_bit 12 ma) :: u32)"
    using minor_bits [OF assms]
    by (intro bit_word_eqI) (auto simp: MKDEV_def bit_simps)
  moreover have "uint (word_of_int (take_bit 12 ma) :: u32) = take_bit 12 ma"
    by (simp add: unsigned_of_int)
  ultimately show ?thesis by (simp add: MAJOR_def take_bit_eq_mod)
qed

lemma MKDEV_bits: "n < 32 \<Longrightarrow> bit (MKDEV (MAJOR d) 0) n \<longleftrightarrow> 20 \<le> n \<and> bit d n"
  by (auto simp: MKDEV_def MAJOR_def bit_simps)

lemma MKDEV_MAJOR:
  assumes "MINOR d = 0"
  shows "MKDEV (MAJOR d) 0 = d"
proof -
  have "d AND mask 20 = 0" using assms by (simp add: MINOR_def unat_eq_0)
  then have bits: "bit (d AND mask 20) j = bit (0 :: u32) j" for j by simp
  have "\<not> bit d j" if "j < 20" for j
    using bits [of j] that bit_imp_le_length [of d j] by (auto simp: bit_and_iff bit_mask_iff)
  then show ?thesis
    by (intro bit_word_eqI) (simp, metis MKDEV_bits linorder_not_less)
qed

lemma MAJOR_range [simp]: "MAJOR d mod 4096 = MAJOR d"
proof -
  have "drop_bit 20 d = take_bit 12 (drop_bit 20 d)"
    by (intro bit_word_eqI) (auto simp: bit_simps dest: bit_imp_le_length)
  then have "uint (drop_bit 20 d) = take_bit 12 (uint (drop_bit 20 d))"
    by (metis unsigned_take_bit_eq)
  then show ?thesis by (simp add: MAJOR_def take_bit_eq_mod)
qed

text \<open>
  One constructor per kernel function, with the arguments that matter and, where the code
  looks at it, the returned value. The number in the \<open>Cdev\<close> calls is the index of the
  device structure the \<open>cdev\<close> is embedded in.
\<close>

datatype kcall =
    Register_chrdev_region dev_t nat int
  | Alloc_chrdev_region nat nat int dev_t
  | Unregister_chrdev_region dev_t nat
  | Kmalloc nat bool
  | Kfree
  | Cdev_init nat
  | Cdev_add nat dev_t nat int
  | Cdev_del nat
  | Sema_init int
  | Init_MUTEX
  | Init_waitqueue_head nat

text \<open>
  What the kernel answers to the calls of one run of \<open>module_init\<close>, and how large a
  \<open>struct cdev\<close> is in it.
\<close>

record kenv =
  register_ret :: int
  alloc_ret :: int
  alloc_dev :: dev_t
  kmalloc_ok :: bool
  cdev_add_ret :: "nat \<Rightarrow> int"
  cdev_size :: nat

text \<open>
  Documented behaviour of \<open>alloc_chrdev_region (&dev, baseminor, n, name)\<close>: when it succeeds
  the range it hands out starts at \<open>baseminor\<close>, here always 0.
\<close>

definition kenv_ok :: "kenv \<Rightarrow> bool" where
  "kenv_ok k \<longleftrightarrow> (0 \<le> alloc_ret k \<longrightarrow> MINOR (alloc_dev k) = 0)"

text \<open>A kernel that grants everything, for evaluating the models.\<close>

definition kenv_fine :: kenv where
  "kenv_fine = \<lparr>register_ret = 0, alloc_ret = 0, alloc_dev = MKDEV 240 0, kmalloc_ok = True,
     cdev_add_ret = (\<lambda>i. 0), cdev_size = 104\<rparr>"

lemma kenv_ok_fine: "kenv_ok kenv_fine"
  by (simp add: kenv_ok_def kenv_fine_def)

section \<open>Ledgers\<close>

text \<open>The device numbers held: pairs of a major and a minor number.\<close>

definition numbers :: "dev_t \<Rightarrow> nat \<Rightarrow> (int \<times> nat) set" where
  "numbers d n = Pair (MAJOR d) ` {MINOR d ..< MINOR d + n}"

fun held_step :: "(int \<times> nat) set \<Rightarrow> kcall \<Rightarrow> (int \<times> nat) set" where
  "held_step S (Register_chrdev_region d n r) = (if r < 0 then S else S \<union> numbers d n)"
| "held_step S (Alloc_chrdev_region b n r d) = (if r < 0 then S else S \<union> numbers d n)"
| "held_step S (Unregister_chrdev_region d n) = S - numbers d n"
| "held_step S _ = S"

definition held :: "(int \<times> nat) set \<Rightarrow> kcall list \<Rightarrow> (int \<times> nat) set" where
  "held = foldl held_step"

text \<open>Blocks of memory allocated and not freed, and the \<open>cdev\<close>s that are live.\<close>

fun heap_step :: "int \<Rightarrow> kcall \<Rightarrow> int" where
  "heap_step n (Kmalloc c ok) = (if ok then n + 1 else n)"
| "heap_step n Kfree = n - 1"
| "heap_step n _ = n"

definition heap :: "int \<Rightarrow> kcall list \<Rightarrow> int" where
  "heap = foldl heap_step"

fun live_step :: "nat set \<Rightarrow> kcall \<Rightarrow> nat set" where
  "live_step S (Cdev_add i d n r) = (if r = 0 then insert i S else S)"
| "live_step S (Cdev_del i) = S - {i}"
| "live_step S _ = S"

definition live :: "nat set \<Rightarrow> kcall list \<Rightarrow> nat set" where
  "live = foldl live_step"

lemmas ledger_defs = held_def heap_def live_def

lemma ledger_append [simp]:
  "held S (tr @ tr') = held (held S tr) tr'"
  "heap n (tr @ tr') = heap (heap n tr) tr'"
  "live L (tr @ tr') = live (live L tr) tr'"
  by (simp_all add: ledger_defs)

lemma ledger_Nil [simp]: "held S [] = S" "heap n [] = n" "live L [] = L"
  by (simp_all add: ledger_defs)

lemma ledger_Cons [simp]:
  "held S (c # tr) = held (held_step S c) tr"
  "heap n (c # tr) = heap (heap_step n c) tr"
  "live L (c # tr) = live (live_step L c) tr"
  by (simp_all add: ledger_defs)

lemma numbers_Un_Diff: "numbers d n - numbers d n = {}"
  by simp

section \<open>Contracts of a module\<close>

text \<open>
  \<open>chrdev_module\<close>: after a successful \<open>init\<close> the module holds exactly the device numbers
  of its major from minor 0 on, one block of memory, and \<open>exit\<close> gives back everything.
  \<open>chrdev_clean\<close>: in addition an \<open>init\<close> that fails leaves nothing behind.
\<close>

locale chrdev_module =
  fixes init :: "kenv \<Rightarrow> 'm \<Rightarrow> unit result \<times> 'm \<times> kcall list"
    and exit :: "'m \<Rightarrow> kcall list"
    and major :: "'m \<Rightarrow> int"
    and minors :: nat
  assumes init_held: "kenv_ok k \<Longrightarrow> init k s = (Inr (), s', tr) \<Longrightarrow>
      held {} tr = numbers (MKDEV (major s') 0) minors \<and> heap 0 tr = 1 \<and>
      live {} tr \<subseteq> {..<minors}"
    and exit_held: "L \<subseteq> {..<minors} \<Longrightarrow>
      held (numbers (MKDEV (major s) 0) minors) (exit s) = {} \<and> heap 1 (exit s) = 0 \<and>
      live L (exit s) = {}"

locale chrdev_clean = chrdev_module +
  assumes fail_held: "kenv_ok k \<Longrightarrow> init k s = (Inl e, s', tr) \<Longrightarrow>
      held {} tr = {} \<and> heap 0 tr = 0 \<and> live {} tr = {}"

text \<open>
  Loading and unloading a module again and again, each time with another answer of the kernel;
  a failed load is not followed by \<open>exit\<close>.
\<close>

fun load_cycles ::
  "(kenv \<Rightarrow> 'm \<Rightarrow> unit result \<times> 'm \<times> kcall list) \<Rightarrow> ('m \<Rightarrow> kcall list) \<Rightarrow> 'm \<Rightarrow>
     kenv list \<Rightarrow> kcall list" where
  "load_cycles init exit s [] = []"
| "load_cycles init exit s (k # ks) =
     (case init k s of (r, s', tr) \<Rightarrow>
        tr @ (case r of Inl e \<Rightarrow> [] | Inr u \<Rightarrow> exit s') @ load_cycles init exit s' ks)"

context chrdev_module
begin

lemma load_unload:
  assumes "kenv_ok k" "init k s = (Inr (), s', tr)"
  shows "held {} (tr @ exit s') = {} \<and> heap 0 (tr @ exit s') = 0 \<and> live {} (tr @ exit s') = {}"
  using init_held [OF assms] exit_held [of "live {} tr" s'] by simp

end

context chrdev_clean
begin

lemma cycles_balanced:
  assumes "\<And>k. k \<in> set ks \<Longrightarrow> kenv_ok k"
  shows "held {} (load_cycles init exit s ks) = {} \<and> heap 0 (load_cycles init exit s ks) = 0 \<and>
    live {} (load_cycles init exit s ks) = {}"
  using assms
proof (induction ks arbitrary: s)
  case Nil
  then show ?case by simp
next
  case (Cons k ks)
  obtain r s' tr where i: "init k s = (r, s', tr)" by (cases "init k s") auto
  have k: "kenv_ok k" using Cons.prems by simp
  have IH: "held {} (load_cycles init exit s' ks) = {} \<and>
      heap 0 (load_cycles init exit s' ks) = 0 \<and> live {} (load_cycles init exit s' ks) = {}"
    using Cons.prems by (intro Cons.IH) simp
  show ?case
  proof (cases r)
    case (Inl e)
    then show ?thesis using fail_held [OF k] i IH by simp
  next
    case (Inr u)
    then show ?thesis using load_unload [OF k] i IH by simp
  qed
qed

end

end
