(* ===== verification/Globalmem.thy ===== *)
theory Globalmem
  imports Byte_Device Chrdev
begin

text \<open>
  The driver \<open>src/globalmem/globalmem.c\<close>: two character devices over a memory array each. The
  handlers are functions of the device structure \<open>filp->private_data\<close> points to;
  \<open>globalmem_fops\<close> dispatches a call on an open file to them as the table of the driver
  does. \<open>globalmem_init\<close> and \<open>globalmem_exit\<close> give the kernel calls of loading and
  unloading. The log messages are left out.
\<close>

section \<open>State\<close>

definition GLOBALMEM_SIZE :: u64 where
  "GLOBALMEM_SIZE = 0x10000"

definition MEM_CLEAR :: u32 where
  "MEM_CLEAR = 1"

record globalmem_dev =
  mem :: "u8 list"

text \<open>
  \<open>globalmem_devp\<close> points to one block of memory that holds the two device structures one after
  the other, each a \<open>struct cdev\<close>, whose size depends on the kernel, and the array \<open>mem\<close>.
\<close>

record globalmem_module =
  globalmem_major :: int
  globalmem_devp :: "u8 list option"

definition GLOBALMEM_MAJOR :: int where
  "GLOBALMEM_MAJOR = 301"

definition globalmem_module0 :: globalmem_module where
  "globalmem_module0 = \<lparr>globalmem_major = GLOBALMEM_MAJOR, globalmem_devp = None\<rparr>"

section \<open>File operations\<close>

text \<open>\<open>container_of (inode->i_cdev)\<close> is the device whose \<open>cdev\<close> has the inode's minor.\<close>

definition globalmem_open :: "nat \<Rightarrow> open_file \<Rightarrow> int result \<times> open_file" where
  "globalmem_open minor filp = (let dev = minor in (Inr 0, filp\<lparr>private_data := Some dev\<rparr>))"

definition globalmem_release :: "nat \<Rightarrow> open_file \<Rightarrow> int result" where
  "globalmem_release minor filp = Inr 0"

definition globalmem_compat_ioctl :: "globalmem_dev \<Rightarrow> u32 \<Rightarrow> int result \<times> globalmem_dev" where
  "globalmem_compat_ioctl dev cmd =
     (if cmd = MEM_CLEAR
      then (Inr 0, dev\<lparr>mem := put_bytes (mem dev) 0 (replicate (unat GLOBALMEM_SIZE) 0)\<rparr>)
      else (Inl EINVAL, dev))"

definition globalmem_read :: "(globalmem_dev, 'u) read_op" where
  "globalmem_read copy_to_user dev us buf sz ppos =
     (let p = ppos; count = ucast sz :: u32 in
      if p \<ge> GLOBALMEM_SIZE then (if count \<noteq> 0 then Inl ENXIO else Inr 0, ppos, us)
      else
        let count = (if ucast count > GLOBALMEM_SIZE - p then ucast (GLOBALMEM_SIZE - p)
                     else count);
            (us, left) = copy_to_user us buf (get_bytes (mem dev) (unat p) (unat count))
        in if left \<noteq> 0 then (Inl EFAULT, ppos, us)
           else (Inr (sint count), ppos + ucast count, us))"

definition globalmem_write :: "(globalmem_dev, 'u) write_op" where
  "globalmem_write copy_from_user dev us buf sz ppos =
     (let p = ppos; count = ucast sz :: u32 in
      if p \<ge> GLOBALMEM_SIZE then (if count \<noteq> 0 then Inl ENXIO else Inr 0, ppos, dev)
      else
        let count = (if ucast count > GLOBALMEM_SIZE - p then ucast (GLOBALMEM_SIZE - p)
                     else count);
            (bs, left) = copy_from_user us buf (unat count);
            dev = dev\<lparr>mem := put_bytes (mem dev) (unat p) bs\<rparr>
        in if left \<noteq> 0 then (Inl EFAULT, ppos, dev)
           else (Inr (sint count), ppos + ucast count, dev))"

definition globalmem_llseek :: seek_op where
  "globalmem_llseek pos offset orig =
     (if orig = 0 then
        if sint offset < 0 then (Inl EINVAL, pos)
        else if (ucast offset :: u32) > 0x10000 then (Inl EINVAL, pos)
        else let pos = ucast (ucast offset :: u32) in (Inr (sint pos), pos)
      else if orig = 1 then
        if sint (pos + offset) > 0x10000 then (Inl EINVAL, pos)
        else if sint (pos + offset) < 0 then (Inl EINVAL, pos)
        else let pos = pos + offset in (Inr (sint pos), pos)
      else (Inl EINVAL, pos))"

text \<open>
  The block of the two devices. A handler gets a pointer into it: \<open>dev_at\<close> gives the bytes from
  \<open>mem\<close> of device \<open>i\<close> on, up to the end of the block, so that an access beyond the array meets
  what lies behind it; \<open>set_dev\<close> is the block after the handler has written there. \<open>cs\<close> is the size of a
  \<open>struct cdev\<close>.
\<close>

definition sizeof_globalmem_dev :: "nat \<Rightarrow> nat" where
  "sizeof_globalmem_dev cs = cs + unat GLOBALMEM_SIZE"

definition mem_at :: "nat \<Rightarrow> nat \<Rightarrow> nat" where
  "mem_at cs i = i * sizeof_globalmem_dev cs + cs"

definition dev_at :: "nat \<Rightarrow> u8 list \<Rightarrow> nat \<Rightarrow> globalmem_dev" where
  "dev_at cs blk i = \<lparr>mem = drop (mem_at cs i) blk\<rparr>"

definition set_dev :: "nat \<Rightarrow> u8 list \<Rightarrow> nat \<Rightarrow> globalmem_dev \<Rightarrow> u8 list" where
  "set_dev cs blk i dev = take (mem_at cs i) blk @ mem dev"

text \<open>
  The operation table: \<open>None\<close> is a null-pointer access, when the file was not opened through
  the driver. The last component is the user memory after a read.
\<close>

definition globalmem_fops ::
  "'u copy_out \<Rightarrow> 'u copy_in \<Rightarrow> nat \<Rightarrow> u8 list \<Rightarrow> open_file \<Rightarrow> 'u vfs_call \<Rightarrow>
     (int result \<times> u8 list \<times> open_file \<times> 'u option) option" where
  "globalmem_fops ctu cfu cs blk filp c =
     (case private_data filp of
        None \<Rightarrow> None
      | Some i \<Rightarrow>
          if i < 2 then
            Some (case c of
              Vfs_read us buf sz \<Rightarrow>
                (let (r, pos, us) = globalmem_read ctu (dev_at cs blk i) us buf sz (f_pos filp)
                 in (r, blk, filp\<lparr>f_pos := pos\<rparr>, Some us))
            | Vfs_write us buf sz \<Rightarrow>
                (let (r, pos, dev) = globalmem_write cfu (dev_at cs blk i) us buf sz (f_pos filp)
                 in (r, set_dev cs blk i dev, filp\<lparr>f_pos := pos\<rparr>, None))
            | Vfs_llseek off orig \<Rightarrow>
                (let (r, pos) = globalmem_llseek (f_pos filp) off orig
                 in (r, blk, filp\<lparr>f_pos := pos\<rparr>, None))
            | Vfs_ioctl cmd \<Rightarrow>
                (let (r, dev) = globalmem_compat_ioctl (dev_at cs blk i) cmd
                 in (r, set_dev cs blk i dev, filp, None)))
          else None)"

section \<open>Loading and unloading\<close>

definition globalmem_setup_cdev :: "kenv \<Rightarrow> int \<Rightarrow> nat \<Rightarrow> kcall list" where
  "globalmem_setup_cdev k major index =
     [Cdev_init index, Cdev_add index (MKDEV major index) 1 (cdev_add_ret k index)]"

definition globalmem_init ::
  "kenv \<Rightarrow> globalmem_module \<Rightarrow> unit result \<times> globalmem_module \<times> kcall list" where
  "globalmem_init k m =
     (let devno = MKDEV (globalmem_major m) 0;
          (res, devno, m, tr) =
            (if globalmem_major m \<noteq> 0 then
               (register_ret k, devno, m, [Register_chrdev_region devno 2 (register_ret k)])
             else
               (alloc_ret k, alloc_dev k, m\<lparr>globalmem_major := MAJOR (alloc_dev k)\<rparr>,
                [Alloc_chrdev_region 0 2 (alloc_ret k) (alloc_dev k)]))
      in
        if res < 0 then (Inl (Code res), m, tr)
        else if \<not> kmalloc_ok k then
          (Inl ENOMEM, m\<lparr>globalmem_devp := None\<rparr>,
           tr @ [Kmalloc 2 False, Unregister_chrdev_region devno 1])
        else
          (Inr (),
           m\<lparr>globalmem_devp := Some (replicate (2 * sizeof_globalmem_dev (cdev_size k)) 0)\<rparr>,
           tr @ [Kmalloc 2 True] @ globalmem_setup_cdev k (globalmem_major m) 0
              @ globalmem_setup_cdev k (globalmem_major m) 1))"

definition globalmem_exit :: "globalmem_module \<Rightarrow> kcall list" where
  "globalmem_exit m =
     [Cdev_del 0, Cdev_del 1, Kfree, Unregister_chrdev_region (MKDEV (globalmem_major m) 0) 2]"

section \<open>The driver provides a seekable byte device\<close>

lemma unat_GLOBALMEM_SIZE: "unat GLOBALMEM_SIZE = 65536"
  by (simp add: GLOBALMEM_SIZE_def)

lemma globalmem_read_code:
  "globalmem_read ctu dev us buf sz pos =
     read_code GLOBALMEM_SIZE ctu (mem dev) us buf sz pos"
  by (simp add: globalmem_read_def read_code_def clip_count_def Let_def)

lemma globalmem_write_code:
  "globalmem_write cfu dev us buf sz pos =
     map_prod id (map_prod id (\<lambda>m. dev\<lparr>mem := m\<rparr>))
       (write_code GLOBALMEM_SIZE cfu (mem dev) us buf sz pos)"
  by (simp add: globalmem_write_def write_code_def clip_count_def Let_def split: prod.split)

lemma globalmem_llseek_code: "globalmem_llseek = llseek_code 65536"
  by (intro ext)
     (simp add: globalmem_llseek_def llseek_code_def Let_def word_less_def)

interpretation gm: seekable_device 65536 mem globalmem_read globalmem_write globalmem_llseek
proof (unfold_locales, goal_cases)
  case 1
  show ?case by simp
next
  case (2 d ctu us buf sz pos)
  show ?case
    using read_code_refines [of GLOBALMEM_SIZE ctu "mem d" us buf sz pos]
    by (simp add: globalmem_read_code unat_GLOBALMEM_SIZE)
next
  case (3 d cfu us buf sz pos)
  show ?case
    using write_code_refines [of GLOBALMEM_SIZE cfu "mem d" us buf sz pos]
    by (simp add: globalmem_write_code unat_GLOBALMEM_SIZE prod.map_comp comp_def id_def)
next
  case (4 off pos)
  then show ?case by (simp add: globalmem_llseek_code llseek_code_set)
next
  case (5 pos off whence)
  then show ?case using llseek_code_bounded [of 65536 pos off whence]
    by (simp add: globalmem_llseek_code)
next
  case (6 pos off whence r)
  then show ?case using llseek_code_Inr [of 65536 pos off whence r]
    by (simp add: globalmem_llseek_code)
next
  case (7 pos off whence e)
  then show ?case using llseek_code_Inl [of 65536 pos off whence e]
    by (simp add: globalmem_llseek_code)
qed

section \<open>The module's accounts\<close>

lemma numbers_MKDEV: "mi < 2 ^ 20 \<Longrightarrow> numbers (MKDEV ma mi) n = Pair (ma mod 4096) ` {mi..<mi + n}"
  by (simp add: numbers_def)

lemma globalmem_init_Inr:
  assumes "globalmem_init k m = (Inr (), m', tr)"
  shows "0 \<le> (if globalmem_major m \<noteq> 0 then register_ret k else alloc_ret k) \<and> kmalloc_ok k \<and>
    globalmem_major m' = (if globalmem_major m \<noteq> 0 then globalmem_major m else MAJOR (alloc_dev k)) \<and>
    tr = (if globalmem_major m \<noteq> 0
          then [Register_chrdev_region (MKDEV (globalmem_major m) 0) 2 (register_ret k)]
          else [Alloc_chrdev_region 0 2 (alloc_ret k) (alloc_dev k)]) @
      [Kmalloc 2 True] @ globalmem_setup_cdev k (globalmem_major m') 0 @
      globalmem_setup_cdev k (globalmem_major m') 1"
  using assms by (auto simp: globalmem_init_def Let_def split: if_splits)

lemma numbers_alloc:
  "MINOR d = 0 \<Longrightarrow> numbers d n = numbers (MKDEV (MAJOR d) 0) n"
  by (simp add: numbers_def)

interpretation gm_load: chrdev_module globalmem_init globalmem_exit globalmem_major 2
proof (unfold_locales, goal_cases)
  case (1 k s s' tr)
  then show ?case using globalmem_init_Inr [OF 1(2)]
    by (auto simp: globalmem_setup_cdev_def kenv_ok_def numbers_alloc [of "alloc_dev k"])
next
  case (2 L s)
  then show ?case by (auto simp: globalmem_exit_def numbers_def)
qed

section \<open>Properties\<close>

text \<open>
  C19. Write, seek back with \<open>SEEK_SET\<close> and read the same amount: the bytes the user handed in
  are what \<open>copy_to_user\<close> is given, all return values agree, and the cursor ends where the
  write left it. The length is clipped to the end of the device in both directions.
\<close>

theorem globalmem_write_seek_read:
  fixes cfu :: "'u copy_in" and ctu :: "'u copy_out"
  assumes "copy_in_fills cfu" "length (mem dev) = 65536" "unat pos < 65536"
    and "globalmem_write cfu dev us buf sz pos = (Inr k, pos', dev')"
    and "ctu usr bufr (fst (cfu us buf (nat k))) = (us3, 0)"
  shows "globalmem_llseek pos' pos 0 = (Inr (int (unat pos)), pos) \<and>
    globalmem_read ctu dev' usr bufr sz pos = (Inr k, pos', us3) \<and>
    length (fst (cfu us buf (nat k))) = nat k"
proof -
  obtain r p2 where s: "globalmem_llseek pos' pos 0 = (r, p2)" by fastforce
  show ?thesis
    by (rule gm.write_seek_read [OF assms(1-4) s, where usr = usr and bufr = bufr and ctu = ctu])
       (use assms(5) s in auto)
qed

lemma globalmem_write_seek_read_witness:
  "globalmem_write flat_in \<lparr>mem = replicate 65536 0\<rparr> [1, 2, 3] 0 3 65534 =
     (Inr 2, 65536, \<lparr>mem = replicate 65534 0 @ [1, 2]\<rparr>) \<and>
   globalmem_llseek 65536 65534 0 = (Inr 65534, 65534) \<and>
   globalmem_read flat_out \<lparr>mem = replicate 65534 0 @ [1, 2]\<rparr> [9, 9, 9] 0 3 65534 =
     (Inr 2, 65536, [1, 2, 9])"
proof -
  have w: "globalmem_write flat_in \<lparr>mem = replicate 65536 0\<rparr> [1, 2, 3] 0 3 65534 =
     (Inr 2, 65536, \<lparr>mem = replicate 65534 0 @ [1, 2]\<rparr>)"
    by (simp add: globalmem_write_def GLOBALMEM_SIZE_def flat_in_def put_bytes_def Let_def)
  have o: "flat_out [9, 9, 9] 0 (fst (flat_in [1, 2, 3] 0 (nat 2))) = ([1, 2, 9], 0)"
    by (simp add: flat_out_def flat_in_def Let_def)
  show ?thesis
    using w o globalmem_write_seek_read [of flat_in "\<lparr>mem = replicate 65536 0\<rparr>" 65534
      "[1, 2, 3]" 0 3 2 65536 "\<lparr>mem = replicate 65534 0 @ [1, 2]\<rparr>" flat_out "[9, 9, 9]" 0
      "[1, 2, 9]"]
    by (simp add: copy_in_fills_flat)
qed

text \<open>
  A write changes no byte outside the range it was asked to store to, whether the user
  copy fails or not.
\<close>

theorem globalmem_write_frame:
  assumes "copy_in_fills cfu" "length (mem dev) = 65536"
    and "globalmem_write cfu dev us buf sz pos = (r, pos', dev')"
    and "i < 65536" "i < unat pos \<or> unat pos + unat (ucast sz :: u32) \<le> i"
  shows "mem dev' ! i = mem dev ! i"
  using assms by (rule gm.write_frame)

lemma globalmem_write_frame_example:
  "mem (snd (snd (globalmem_write flat_in \<lparr>mem = replicate 65536 7\<rparr> [1, 2, 3] 0 3 16))) ! 19 = 7"
proof -
  obtain r pos' dev' where
    w: "globalmem_write flat_in \<lparr>mem = replicate 65536 7\<rparr> [1, 2, 3] 0 3 16 = (r, pos', dev')"
    by (rule prod_cases3)
  show ?thesis
    using w globalmem_write_frame [OF copy_in_fills_flat _ w, of 19] by simp
qed

text \<open>
  C18. In any sequence of reads, writes and seeks on an open file, with any user memory and
  whichever copies fail, the device keeps its size and the cursor stays within it.
\<close>

theorem globalmem_session_invariant:
  fixes cfu :: "'u copy_in" and ctu :: "'u copy_out"
  assumes "copy_in_fills cfu" "length (mem dev) = 65536" "unat pos \<le> 65536"
    and "dev_session globalmem_read globalmem_write globalmem_llseek ctu cfu (dev, pos) cs =
      (dev', pos')"
  shows "length (mem dev') = 65536 \<and> unat pos' \<le> 65536"
  using gm.session_keeps [OF assms(1-3), of ctu cs] assms(4) by simp

lemma globalmem_session_invariant_witness:
  "unat (snd (dev_session globalmem_read globalmem_write globalmem_llseek flat_out flat_in
     (\<lparr>mem = replicate 65536 0\<rparr>, 0)
     [Call_seek 65530 0, Call_write [1, 2, 3] 0 3, Call_read [] 0 100, Call_seek 8 1])) \<le> 65536"
  using globalmem_session_invariant [OF copy_in_fills_flat, of "\<lparr>mem = replicate 65536 0\<rparr>" 0]
  by (cases "dev_session globalmem_read globalmem_write globalmem_llseek flat_out flat_in
     (\<lparr>mem = replicate 65536 0\<rparr>, 0)
     [Call_seek 65530 0, Call_write [1, 2, 3] 0 3, Call_read [] 0 100, Call_seek 8 1]") simp

text \<open>
  \<open>SEEK_SET\<close>: a negative offset is refused; any other offset is first reduced modulo
  \<open>2^32\<close> (the cast to \<open>unsigned int\<close>) and only then compared with the size, so that an offset
  of 4 GiB or more is accepted whenever its low 32 bits are.
\<close>

theorem globalmem_llseek_set:
  "globalmem_llseek pos off 0 =
     (if sint off < 0 then (Inl EINVAL, pos)
      else if sint off mod 2 ^ 32 \<le> 65536
      then (Inr (sint off mod 2 ^ 32), word_of_int (sint off mod 2 ^ 32))
      else (Inl EINVAL, pos))"
proof (cases "sint off < 0")
  case True
  then show ?thesis by (simp add: globalmem_llseek_def)
next
  case False
  let ?w = "ucast off :: u32"
  have "uint off = sint off" using False by (intro uint_of_sint) simp
  then have w: "uint ?w = sint off mod 2 ^ 32"
    by (simp add: unsigned_ucast_eq take_bit_eq_mod)
  have big: "sint (ucast ?w :: u64) = uint ?w"
  proof -
    have "unat ?w < 2 ^ 32" using unsigned_less [of ?w, where ?'a = nat] by simp
    then have "unat (ucast ?w :: u64) < 2 ^ 63" by (simp add: unat_ucast_up32)
    from sint_u64_small [OF this] show ?thesis by (simp add: unat_ucast_up32)
  qed
  have "(ucast ?w :: u64) = word_of_int (uint ?w)" unfolding big [symmetric] by simp
  then show ?thesis using False w big
    by (simp add: globalmem_llseek_def Let_def word_less_def)
qed

text \<open>
  The handlers on a longer stretch of memory: what lies behind the array is neither read nor
  changed.
\<close>

lemma read_code_behind:
  assumes "length m = unat lim" "unat lim < 2 ^ 31"
  shows "read_code lim ctu (m @ rest) us buf sz pos = read_code lim ctu m us buf sz pos"
proof (cases "pos < lim")
  case True
  then have "unat pos + unat (clip_count lim pos (ucast sz)) \<le> length m"
    using clip_facts(1) [OF True assms(2), of "ucast sz"] assms(1) by (simp add: word_less_nat_alt)
  then show ?thesis by (simp add: read_code_def get_bytes_def)
qed (simp add: read_code_def not_less)

lemma write_code_behind:
  assumes "copy_in_fills cfu" "length m = unat lim" "unat lim < 2 ^ 31"
    and "write_code lim cfu m us buf sz pos = (r, pos', m')"
  shows "write_code lim cfu (m @ rest) us buf sz pos = (r, pos', m' @ rest) \<and> length m' = length m"
proof (cases "pos < lim")
  case True
  let ?n = "unat (clip_count lim pos (ucast sz))"
  obtain bs left where b: "cfu us buf ?n = (bs, left)" by fastforce
  then have "length bs = ?n" using assms(1) by (rule copy_in_fillsD [rotated])
  then have "unat pos + length bs \<le> length m"
    using clip_facts(1) [OF True assms(3), of "ucast sz"] assms(2) True by (simp add: word_less_nat_alt)
  then show ?thesis
    using assms(4) True b by (auto simp: write_code_def put_bytes_def Let_def split: if_splits)
qed (use assms(4) in \<open>simp add: write_code_def not_less\<close>)

text \<open>The array of device \<open>i\<close>, and a block as what lies before, in and behind it.\<close>

definition own_mem :: "nat \<Rightarrow> u8 list \<Rightarrow> nat \<Rightarrow> u8 list" where
  "own_mem cs blk i = get_bytes blk (mem_at cs i) (unat GLOBALMEM_SIZE)"

lemma block_split:
  assumes "length blk = 2 * sizeof_globalmem_dev cs" "i < 2"
  obtains pre post where "blk = pre @ own_mem cs blk i @ post" "length pre = mem_at cs i"
    "length (own_mem cs blk i) = 65536"
proof
  have "mem_at cs i + 65536 \<le> length blk"
    using assms by (auto simp: mem_at_def sizeof_globalmem_dev_def unat_GLOBALMEM_SIZE less_2_cases_iff)
  then show "blk = take (mem_at cs i) blk @ own_mem cs blk i @ drop (mem_at cs i + 65536) blk"
    "length (take (mem_at cs i) blk) = mem_at cs i" "length (own_mem cs blk i) = 65536"
    by (simp_all add: own_mem_def get_bytes_def unat_GLOBALMEM_SIZE)
      (metis add.commute append_take_drop_id drop_drop)
qed

text \<open>A call on a file of device \<open>i\<close> depends on and changes the array of that device only.\<close>

lemma globalmem_fops_local:
  assumes "copy_in_fills cfu" "private_data filp = Some i" "i < 2" "length m = 65536"
  shows "\<exists>r m' filp' us'. length m' = 65536 \<and> private_data filp' = Some i \<and>
    (\<forall>pre post. length pre = mem_at cs i \<longrightarrow>
       globalmem_fops ctu cfu cs (pre @ m @ post) filp c = Some (r, pre @ m' @ post, filp', us'))"
proof -
  have lim: "length m = unat GLOBALMEM_SIZE" "unat GLOBALMEM_SIZE < 2 ^ 31"
    using assms(4) by (simp_all add: unat_GLOBALMEM_SIZE)
  have d: "dev_at cs (pre @ m @ post) i = \<lparr>mem = m @ post\<rparr>"
    "set_dev cs (pre @ m @ post) i dev = pre @ mem dev" if "length pre = mem_at cs i" for pre post dev
    using that by (simp_all add: dev_at_def set_dev_def)
  show ?thesis
  proof (cases c)
    case (Vfs_read us buf sz)
    obtain r pos' us' where "read_code GLOBALMEM_SIZE ctu m us buf sz (f_pos filp) = (r, pos', us')"
      by (rule prod_cases3)
    then show ?thesis
      using assms(2-4) Vfs_read
      by (intro exI [of _ r] exI [of _ m] exI [of _ "filp\<lparr>f_pos := pos'\<rparr>"] exI [of _ "Some us'"])
        (auto simp: globalmem_fops_def d globalmem_read_code read_code_behind [OF lim])
  next
    case (Vfs_write us buf sz)
    obtain r pos' m' where w: "write_code GLOBALMEM_SIZE cfu m us buf sz (f_pos filp) = (r, pos', m')"
      by (rule prod_cases3)
    from write_code_behind [OF assms(1) lim w] show ?thesis
      using assms(2-4) Vfs_write
      by (intro exI [of _ r] exI [of _ m'] exI [of _ "filp\<lparr>f_pos := pos'\<rparr>"] exI [of _ None])
        (auto simp: globalmem_fops_def d globalmem_write_code)
  next
    case (Vfs_llseek off orig)
    obtain r pos' where "globalmem_llseek (f_pos filp) off orig = (r, pos')" by fastforce
    then show ?thesis
      using assms(2-4) Vfs_llseek
      by (intro exI [of _ r] exI [of _ m] exI [of _ "filp\<lparr>f_pos := pos'\<rparr>"] exI [of _ None])
        (auto simp: globalmem_fops_def)
  next
    case (Vfs_ioctl cmd)
    let ?m = "if cmd = MEM_CLEAR then replicate 65536 0 else m"
    show ?thesis
      using assms Vfs_ioctl
      by (intro exI [of _ "if cmd = MEM_CLEAR then Inr 0 else Inl EINVAL"] exI [of _ ?m] exI [of _ filp]
          exI [of _ None])
        (auto simp: globalmem_fops_def d globalmem_compat_ioctl_def put_bytes_def unat_GLOBALMEM_SIZE)
  qed
qed

text \<open>
  C20. The two devices do not interfere although they lie in one block of memory: a call on a file of
  one device changes no byte outside that device's array, neither of the other array nor of the
  \<open>cdev\<close>s, and its results depend on no such byte; the file stays on its device.
\<close>

theorem globalmem_isolation:
  assumes "copy_in_fills cfu" "length blk = 2 * sizeof_globalmem_dev cs"
    and "private_data filp = Some i" "i < 2"
  shows "\<exists>r blk' filp' us'. globalmem_fops ctu cfu cs blk filp c = Some (r, blk', filp', us') \<and>
    private_data filp' = Some i \<and> length blk' = length blk \<and>
    (\<forall>k<length blk. k < mem_at cs i \<or> mem_at cs i + 65536 \<le> k \<longrightarrow> blk' ! k = blk ! k) \<and>
    (\<forall>other. length other = length blk \<longrightarrow> own_mem cs other i = own_mem cs blk i \<longrightarrow>
       (\<exists>other'. globalmem_fops ctu cfu cs other filp c = Some (r, other', filp', us') \<and>
          own_mem cs other' i = own_mem cs blk' i))"
proof -
  obtain pre post where b: "blk = pre @ own_mem cs blk i @ post" "length pre = mem_at cs i"
    "length (own_mem cs blk i) = 65536"
    using assms(2,4) by (rule block_split)
  obtain r m' filp' us' where l: "length m' = 65536" "private_data filp' = Some i"
    "\<And>pre post. length pre = mem_at cs i \<Longrightarrow> globalmem_fops ctu cfu cs (pre @ own_mem cs blk i @ post) filp c =
       Some (r, pre @ m' @ post, filp', us')"
    using globalmem_fops_local [OF assms(1,3,4) b(3), of cs ctu c] by blast
  have own: "own_mem cs (p @ m' @ q) i = m'" if "length p = mem_at cs i" for p q
    using that l(1) by (simp add: own_mem_def get_bytes_def unat_GLOBALMEM_SIZE)
  have "\<exists>other'. globalmem_fops ctu cfu cs other filp c = Some (r, other', filp', us') \<and>
      own_mem cs other' i = own_mem cs (pre @ m' @ post) i"
    if o: "length other = length blk" "own_mem cs other i = own_mem cs blk i" for other
  proof -
    obtain p q where "other = p @ own_mem cs other i @ q" "length p = mem_at cs i"
      using o(1) assms(2,4) block_split [of other cs i] by metis
    then show ?thesis using l(3) [of p q] own b(2) unfolding o(2) by metis
  qed
  moreover have "(pre @ m' @ post) ! k = blk ! k"
    if "k < length blk" "k < mem_at cs i \<or> mem_at cs i + 65536 \<le> k" for k
    using that l(1) b(2,3) by (subst b(1)) (auto simp: nth_append)
  moreover have "length (pre @ m' @ post) = length blk" using l(1) b(3) by (subst b(1)) simp
  ultimately show ?thesis
    using l(2) l(3) [OF b(2), of post] b(1) by (intro exI [of _ r] exI [of _ "pre @ m' @ post"]
        exI [of _ filp'] exI [of _ us'] conjI) auto
qed

text \<open>The block that loading allocates, a file on its first device, a write of three bytes at its end.\<close>

lemma globalmem_isolation_witness:
  "\<exists>r blk' filp' us'. globalmem_fops flat_out flat_in 104 (replicate 131280 0)
     (snd (globalmem_open 0 \<lparr>f_pos = 65534, f_nonblock = False, private_data = None\<rparr>))
     (Vfs_write [1, 2, 3] 0 3) = Some (r, blk', filp', us') \<and> blk' ! 65640 = 0"
proof -
  let ?f = "snd (globalmem_open 0 \<lparr>f_pos = 65534, f_nonblock = False, private_data = None\<rparr>)"
  have "\<exists>r blk' filp' us'. globalmem_fops flat_out flat_in 104 (replicate 131280 0) ?f
      (Vfs_write [1, 2, 3] 0 3) = Some (r, blk', filp', us') \<and>
      (\<forall>k<131280. k < mem_at 104 0 \<or> mem_at 104 0 + 65536 \<le> k \<longrightarrow> blk' ! k = replicate 131280 0 ! k)"
    using globalmem_isolation [OF copy_in_fills_flat, of "replicate 131280 0" 104 ?f 0 flat_out
        "Vfs_write [1, 2, 3] 0 3"]
    by (auto simp: globalmem_open_def sizeof_globalmem_dev_def unat_GLOBALMEM_SIZE)
  then obtain r blk' filp' us' where w: "globalmem_fops flat_out flat_in 104 (replicate 131280 0) ?f
      (Vfs_write [1, 2, 3] 0 3) = Some (r, blk', filp', us')"
    "\<forall>k<131280. k < mem_at 104 0 \<or> mem_at 104 0 + 65536 \<le> k \<longrightarrow> blk' ! k = replicate 131280 0 ! k"
    by blast
  have "blk' ! 65640 = 0"
    using w(2) by (simp add: mem_at_def)
  with w(1) show ?thesis by blast
qed

text \<open>
  Loading and then unloading gives back the two device numbers, the memory and both
  \<open>cdev\<close>s, whether the major is preset or allocated and even where \<open>cdev_add\<close> failed (which
  \<open>globalmem_init\<close> ignores).
\<close>

theorem globalmem_load_unload:
  assumes "kenv_ok k" "globalmem_init k m = (Inr (), m', tr)"
  shows "held {} tr = numbers (MKDEV (globalmem_major m') 0) 2 \<and>
    held {} (tr @ globalmem_exit m') = {} \<and> heap 0 (tr @ globalmem_exit m') = 0 \<and>
    live {} (tr @ globalmem_exit m') = {}"
  using gm_load.load_unload [OF assms] gm_load.init_held [OF assms] by blast

lemma globalmem_load_unload_example:
  "held {} (snd (snd (globalmem_init kenv_fine globalmem_module0))) = {(301, 0), (301, 1)}"
proof -
  obtain r m' tr where i: "globalmem_init kenv_fine globalmem_module0 = (r, m', tr)"
    by (rule prod_cases3)
  then have "r = Inr ()" "globalmem_major m' = 301"
    by (auto simp: globalmem_init_def globalmem_module0_def GLOBALMEM_MAJOR_def kenv_fine_def)
  then show ?thesis
    using globalmem_load_unload [OF kenv_ok_fine, of globalmem_module0 m' tr] i
    by (simp add: numbers_def) (auto simp: image_iff)
qed

text \<open>
  When \<open>kmalloc\<close> fails, \<open>globalmem_init\<close> gives back one of the two device numbers it
  registered: the second one stays reserved although the module is not loaded.
\<close>

theorem globalmem_init_enomem_leak:
  assumes "\<not> kmalloc_ok k" "globalmem_major m \<noteq> 0" "0 \<le> register_ret k"
  shows "fst (globalmem_init k m) = Inl ENOMEM \<and>
    held {} (snd (snd (globalmem_init k m))) = {(globalmem_major m mod 4096, 1)}"
  using assms by (auto simp: globalmem_init_def numbers_def Let_def image_iff)

lemma globalmem_init_enomem_leak_example:
  "held {} (snd (snd (globalmem_init (kenv_fine\<lparr>kmalloc_ok := False\<rparr>) globalmem_module0))) =
     {(301, 1)}"
  using globalmem_init_enomem_leak [of "kenv_fine\<lparr>kmalloc_ok := False\<rparr>" globalmem_module0]
  by (simp add: kenv_fine_def globalmem_module0_def GLOBALMEM_MAJOR_def)

end
