(* ===== verification/Locking.thy ===== *)
theory Locking
  imports Kernel_Prelude
begin

text \<open>
  The locking discipline of the drivers. A handler that runs alone is a function; what other
  tasks see of it is the sequence of its lock operations and of its accesses to the data the
  lock protects. \<open>disciplined\<close> says when such a sequence is bracketed properly. The step
  relation runs any number of tasks, each executing handler calls one after another, on one
  lock (\<open>struct mutex\<close>, \<open>struct semaphore\<close> with count 1, or \<open>spinlock_t\<close>: at most one
  holder, and acquiring waits). The locale \<open>lock_client\<close> is the contract of a driver whose
  handlers are all disciplined; mutual exclusion and freedom from deadlock follow.
\<close>

section \<open>Lock traces\<close>

datatype lock_event = Acquire | Release | Touch

fun disciplined :: "bool \<Rightarrow> lock_event list \<Rightarrow> bool" where
  "disciplined h [] = (\<not> h)"
| "disciplined h (Acquire # t) = (\<not> h \<and> disciplined True t)"
| "disciplined h (Release # t) = (h \<and> disciplined False t)"
| "disciplined h (Touch # t) = (h \<and> disciplined h t)"

fun_cases disciplined_heldE: "disciplined True t"

lemma disciplined_append:
  "disciplined h t \<Longrightarrow> disciplined False u \<Longrightarrow> disciplined h (t @ u)"
  by (induction h t rule: disciplined.induct) auto

text \<open>Whether the lock is held after a trace.\<close>

fun holds_after :: "bool \<Rightarrow> lock_event list \<Rightarrow> bool" where
  "holds_after h [] = h"
| "holds_after h (Acquire # t) = holds_after True t"
| "holds_after h (Release # t) = holds_after False t"
| "holds_after h (Touch # t) = holds_after h t"

lemma disciplined_not_held: "disciplined h t \<Longrightarrow> \<not> holds_after h t"
  by (induction h t rule: disciplined.induct) auto

section \<open>Tasks sharing one lock\<close>

record lock_sys =
  holder :: "nat option"
  pending :: "nat \<Rightarrow> lock_event list"

definition lock_init :: lock_sys where
  "lock_init = \<lparr>holder = None, pending = (\<lambda>i. [])\<rparr>"

text \<open>
  A task with nothing pending may begin any call whose trace is in \<open>calls\<close>. \<open>Acquire\<close> waits
  until the lock is free; the other events happen at once.
\<close>

inductive lock_step :: "lock_event list set \<Rightarrow> lock_sys \<Rightarrow> lock_sys \<Rightarrow> bool" for calls where
  begin_call: "pending s i = [] \<Longrightarrow> t \<in> calls \<Longrightarrow>
    lock_step calls s (s\<lparr>pending := (pending s)(i := t)\<rparr>)"
| acquire: "pending s i = Acquire # t \<Longrightarrow> holder s = None \<Longrightarrow>
    lock_step calls s (s\<lparr>holder := Some i, pending := (pending s)(i := t)\<rparr>)"
| release: "pending s i = Release # t \<Longrightarrow>
    lock_step calls s (s\<lparr>holder := None, pending := (pending s)(i := t)\<rparr>)"
| touch: "pending s i = Touch # t \<Longrightarrow>
    lock_step calls s (s\<lparr>pending := (pending s)(i := t)\<rparr>)"

inductive_cases lock_stepE: "lock_step calls s s'"

inductive lock_reach :: "lock_event list set \<Rightarrow> lock_sys \<Rightarrow> lock_sys \<Rightarrow> bool" for calls s where
  refl: "lock_reach calls s s"
| step: "lock_reach calls s s' \<Longrightarrow> lock_step calls s' s'' \<Longrightarrow> lock_reach calls s s''"

definition lock_inv :: "lock_sys \<Rightarrow> bool" where
  "lock_inv s \<longleftrightarrow> (\<forall>i. disciplined (holder s = Some i) (pending s i))"

text \<open>Task \<open>i\<close> is about to access the protected data.\<close>

definition touching :: "lock_sys \<Rightarrow> nat \<Rightarrow> bool" where
  "touching s i \<longleftrightarrow> (\<exists>t. pending s i = Touch # t)"

definition idle :: "lock_sys \<Rightarrow> bool" where
  "idle s \<longleftrightarrow> (\<forall>i. pending s i = [])"

section \<open>Disciplined clients\<close>

locale lock_client =
  fixes calls :: "lock_event list set"
  assumes calls_disciplined: "t \<in> calls \<Longrightarrow> disciplined False t"
begin

lemma step_inv:
  assumes "lock_step calls s s'" "lock_inv s"
  shows "lock_inv s'"
  using assms(1)
proof cases
  case (begin_call i t)
  have "holder s \<noteq> Some i" using assms(2) begin_call(2) by (auto simp: lock_inv_def dest: spec [of _ i])
  then show ?thesis
    using assms(2) begin_call calls_disciplined by (auto simp: lock_inv_def)
next
  case (acquire i t)
  then show ?thesis using assms(2) by (auto simp: lock_inv_def dest: spec [of _ i])
next
  case (release i t)
  have h: "holder s = Some i" and d: "disciplined False t"
    using assms(2) release(2) by (auto simp: lock_inv_def dest: spec [of _ i])
  then have "disciplined False (pending s j)" if "j \<noteq> i" for j
    using assms(2) that by (auto simp: lock_inv_def dest: spec [of _ j])
  then show ?thesis using d release by (auto simp: lock_inv_def)
next
  case (touch i t)
  have "disciplined (holder s = Some i) (pending s i)" using assms(2) by (simp add: lock_inv_def)
  then have "disciplined (holder s = Some i) t" unfolding touch(2) disciplined.simps ..
  then show ?thesis using assms(2) touch(1) by (simp add: lock_inv_def)
qed

lemma reach_inv: "lock_reach calls lock_init s \<Longrightarrow> lock_inv s"
proof (induction rule: lock_reach.induct)
  case refl
  show ?case by (simp add: lock_inv_def lock_init_def)
next
  case (step s' s'')
  then show ?case using step_inv by blast
qed

lemma mutual_exclusion:
  assumes "lock_reach calls lock_init s" "touching s i" "touching s j"
  shows "i = j"
proof -
  have "lock_inv s" using assms(1) by (rule reach_inv)
  then have "disciplined (holder s = Some i) (pending s i)"
    "disciplined (holder s = Some j) (pending s j)" by (simp_all add: lock_inv_def)
  then show ?thesis using assms(2,3) by (auto simp: touching_def)
qed

lemma progressI:
  "lock_step calls s s' \<Longrightarrow> length (pending s' i) < length (pending s i) \<Longrightarrow>
     \<exists>s' i. lock_step calls s s' \<and> length (pending s' i) < length (pending s i)"
  by blast

lemma no_deadlock:
  assumes "lock_reach calls lock_init s" "\<not> idle s"
  shows "\<exists>s' i. lock_step calls s s' \<and> length (pending s' i) < length (pending s i)"
proof (cases "holder s")
  case None
  obtain i e t where p: "pending s i = e # t" using assms(2) by (auto simp: idle_def neq_Nil_conv)
  moreover have "disciplined False (pending s i)"
    using reach_inv [OF assms(1)] None by (auto simp: lock_inv_def dest: spec [of _ i])
  ultimately have "e = Acquire" by (cases e) auto
  then have "lock_step calls s (s\<lparr>holder := Some i, pending := (pending s)(i := t)\<rparr>)"
    using p None by (auto intro: lock_step.acquire)
  then show ?thesis by (rule progressI [where i = i]) (simp add: p)
next
  case (Some i)
  have "disciplined True (pending s i)"
    using reach_inv [OF assms(1)] Some by (auto simp: lock_inv_def dest: spec [of _ i])
  then obtain t where "pending s i = Release # t \<or> pending s i = Touch # t"
    by (rule disciplined_heldE) auto
  then show ?thesis
  proof
    assume p: "pending s i = Release # t"
    from lock_step.release [OF p, of calls] show ?thesis
      by (rule progressI [where i = i]) (simp add: p)
  next
    assume p: "pending s i = Touch # t"
    from lock_step.touch [OF p, of calls] show ?thesis
      by (rule progressI [where i = i]) (simp add: p)
  qed
qed

end

section \<open>A leaked lock\<close>

text \<open>
  If a task has ended its call with the lock still held, nobody gets it any more as long as
  every call begins with acquiring the lock: no task ever reaches its first access.
\<close>

lemma leaked_forever:
  assumes "lock_reach calls s s'"
    and "\<And>t. t \<in> calls \<Longrightarrow> t = [] \<or> hd t = Acquire"
    and "holder s = Some i" "\<And>j. pending s j = [] \<or> hd (pending s j) = Acquire"
  shows "holder s' = Some i \<and> (\<forall>j. pending s' j = [] \<or> hd (pending s' j) = Acquire)"
  using assms(1)
proof (induction rule: lock_reach.induct)
  case refl
  show ?case using assms(3,4) by simp
next
  case (step s' s'')
  from step.hyps(2) show ?case
  proof cases
    case (begin_call j t)
    then show ?thesis using step.IH assms(2) [of t] by auto
  next
    case (acquire j t)
    then show ?thesis using step.IH by simp
  next
    case (release j t)
    then show ?thesis using step.IH by (metis list.sel(1) list.distinct(1) lock_event.distinct(1))
  next
    case (touch j t)
    then show ?thesis using step.IH by (metis list.sel(1) list.distinct(1) lock_event.distinct(3))
  qed
qed

end
