(* ===== verification/Globalmem_Lock.thy ===== *)
theory Globalmem_Lock
  imports Byte_Device Chrdev Locking
begin

text \<open>
  The driver \<open>src/globalmem_lock/globalmem_lock.c\<close>: one memory device whose handlers take a
  mutex and measure their own run time. A handler here gives its result, the lock operations and
  accesses to \<open>dev->mem\<close> it makes (\<open>Touch\<close>), and the time it logs, if it gets that far. The
  clock is a parameter: the two samples \<open>getrawmonotonic\<close> returns. The file defines
  \<open>init_MUTEX\<close> as an empty macro, which selects the mutex (and not the semaphore) branches of
  the conditional code; they are the ones modelled.
\<close>

section \<open>State\<close>

definition GLOBALMEM_LOCK_SIZE :: u64 where
  "GLOBALMEM_LOCK_SIZE = 0x1000"

definition LOCK_MEM_CLEAR :: u32 where
  "LOCK_MEM_CLEAR = 1"

record globalmem_lock_dev =
  lock_mem :: "u8 list"

record globalmem_lock_module =
  lock_major :: int
  lock_devp :: "globalmem_lock_dev option"

definition GLOBALMEM_LOCK_MAJOR :: int where
  "GLOBALMEM_LOCK_MAJOR = 300"

definition globalmem_lock_module0 :: globalmem_lock_module where
  "globalmem_lock_module0 = \<lparr>lock_major = GLOBALMEM_LOCK_MAJOR, lock_devp = None\<rparr>"

section \<open>The clock\<close>

record timespec =
  tv_sec :: int
  tv_nsec :: int

definition timer_start :: "timespec \<Rightarrow> timespec" where
  "timer_start now = (let start_time = now in start_time)"

definition timer_end :: "timespec \<Rightarrow> timespec \<Rightarrow> int" where
  "timer_end now start_time = (let end_time = now in tv_nsec end_time - tv_nsec start_time)"

section \<open>File operations\<close>

definition globalmem_lock_open :: "open_file \<Rightarrow> int result \<times> open_file" where
  "globalmem_lock_open filp = (Inr 0, filp\<lparr>private_data := Some 0\<rparr>)"

definition globalmem_lock_release :: "open_file \<Rightarrow> int result" where
  "globalmem_lock_release filp = Inr 0"

definition globalmem_lock_ioctl ::
  "globalmem_lock_dev \<Rightarrow> u32 \<Rightarrow> (int result \<times> globalmem_lock_dev) \<times> lock_event list" where
  "globalmem_lock_ioctl dev cmd =
     (if cmd = LOCK_MEM_CLEAR then
        ((Inr 0, dev\<lparr>lock_mem := replicate (unat GLOBALMEM_LOCK_SIZE) 0\<rparr>),
         [Acquire, Touch, Release])
      else ((Inl EINVAL, dev), []))"

definition globalmem_lock_read ::
  "timespec \<times> timespec \<Rightarrow> 'u copy_out \<Rightarrow> globalmem_lock_dev \<Rightarrow> 'u \<Rightarrow> u64 \<Rightarrow> u64 \<Rightarrow> u64 \<Rightarrow>
     (int result \<times> u64 \<times> 'u) \<times> lock_event list \<times> int option" where
  "globalmem_lock_read clk copy_to_user dev us buf sz ppos =
     (let p = ppos; count = ucast sz :: u32; ts = timer_start (fst clk) in
      if p \<ge> GLOBALMEM_LOCK_SIZE then ((if count \<noteq> 0 then Inl ENXIO else Inr 0, ppos, us), [], None)
      else
        let count = (if ucast count > GLOBALMEM_LOCK_SIZE - p
                     then ucast (GLOBALMEM_LOCK_SIZE - p) else count);
            lock = [Acquire];
            (us, left) = copy_to_user us buf (get_bytes (lock_mem dev) (unat p) (unat count));
            (ret, ppos) = (if left \<noteq> 0 then (Inl EFAULT, ppos)
                           else (Inr (sint count), ppos + ucast count));
            unlock = [Release];
            tt = timer_end (snd clk) ts
        in ((ret, ppos, us), lock @ [Touch] @ unlock, Some tt))"

definition globalmem_lock_write ::
  "timespec \<times> timespec \<Rightarrow> 'u copy_in \<Rightarrow> globalmem_lock_dev \<Rightarrow> 'u \<Rightarrow> u64 \<Rightarrow> u64 \<Rightarrow> u64 \<Rightarrow>
     (int result \<times> u64 \<times> globalmem_lock_dev) \<times> lock_event list \<times> int option" where
  "globalmem_lock_write clk copy_from_user dev us buf sz ppos =
     (let p = ppos; count = ucast sz :: u32; ts = timer_start (fst clk) in
      if p \<ge> GLOBALMEM_LOCK_SIZE then ((if count \<noteq> 0 then Inl ENXIO else Inr 0, ppos, dev), [], None)
      else
        let count = (if ucast count > GLOBALMEM_LOCK_SIZE - p
                     then ucast (GLOBALMEM_LOCK_SIZE - p) else count);
            lock = [Acquire];
            (bs, left) = copy_from_user us buf (unat count);
            dev = dev\<lparr>lock_mem := put_bytes (lock_mem dev) (unat p) bs\<rparr>;
            (ret, ppos) = (if left \<noteq> 0 then (Inl EFAULT, ppos)
                           else (Inr (sint count), ppos + ucast count));
            unlock = [Release];
            tt = timer_end (snd clk) ts
        in ((ret, ppos, dev), lock @ [Touch] @ unlock, Some tt))"

definition globalmem_lock_llseek :: seek_op where
  "globalmem_lock_llseek pos offset orig =
     (if orig = 0 then
        if sint offset < 0 then (Inl EINVAL, pos)
        else if (ucast offset :: u32) > 0x1000 then (Inl EINVAL, pos)
        else let pos = ucast (ucast offset :: u32) in (Inr (sint pos), pos)
      else if orig = 1 then
        if sint (pos + offset) > 0x1000 then (Inl EINVAL, pos)
        else if sint (pos + offset) < 0 then (Inl EINVAL, pos)
        else let pos = pos + offset in (Inr (sint pos), pos)
      else (Inl EINVAL, pos))"

section \<open>Loading and unloading\<close>

definition globalmem_lock_setup_cdev :: "kenv \<Rightarrow> int \<Rightarrow> nat \<Rightarrow> kcall list" where
  "globalmem_lock_setup_cdev k major index =
     [Cdev_init index, Cdev_add index (MKDEV major index) 1 (cdev_add_ret k index)]"

text \<open>\<open>init_MUTEX (&(globalmem_devp->mutex))\<close> expands to nothing, so no call is made for it.\<close>

definition globalmem_lock_init ::
  "kenv \<Rightarrow> globalmem_lock_module \<Rightarrow> unit result \<times> globalmem_lock_module \<times> kcall list" where
  "globalmem_lock_init k m =
     (let devno = MKDEV (lock_major m) 0;
          (res, devno, m, tr) =
            (if lock_major m \<noteq> 0 then
               (register_ret k, devno, m, [Register_chrdev_region devno 1 (register_ret k)])
             else
               (alloc_ret k, alloc_dev k, m\<lparr>lock_major := MAJOR (alloc_dev k)\<rparr>,
                [Alloc_chrdev_region 0 1 (alloc_ret k) (alloc_dev k)]))
      in
        if res < 0 then (Inl (Code res), m, tr)
        else if \<not> kmalloc_ok k then
          (Inl ENOMEM, m\<lparr>lock_devp := None\<rparr>,
           tr @ [Kmalloc 1 False, Unregister_chrdev_region devno 1])
        else
          (Inr (), m\<lparr>lock_devp := Some \<lparr>lock_mem = replicate (unat GLOBALMEM_LOCK_SIZE) 0\<rparr>\<rparr>,
           tr @ [Kmalloc 1 True] @ globalmem_lock_setup_cdev k (lock_major m) 0))"

definition globalmem_lock_exit :: "globalmem_lock_module \<Rightarrow> kcall list" where
  "globalmem_lock_exit m =
     [Cdev_del 0, Kfree, Unregister_chrdev_region (MKDEV (lock_major m) 0) 1]"

section \<open>The driver provides a seekable byte device\<close>

lemma unat_GLOBALMEM_LOCK_SIZE: "unat GLOBALMEM_LOCK_SIZE = 4096"
  by (simp add: GLOBALMEM_LOCK_SIZE_def)

lemma globalmem_lock_read_code:
  "fst (globalmem_lock_read clk ctu dev us buf sz pos) =
     read_code GLOBALMEM_LOCK_SIZE ctu (lock_mem dev) us buf sz pos"
  by (auto simp: globalmem_lock_read_def read_code_def clip_count_def Let_def split: prod.split)

lemma globalmem_lock_write_code:
  "fst (globalmem_lock_write clk cfu dev us buf sz pos) =
     map_prod id (map_prod id (\<lambda>m. dev\<lparr>lock_mem := m\<rparr>))
       (write_code GLOBALMEM_LOCK_SIZE cfu (lock_mem dev) us buf sz pos)"
  by (auto simp: globalmem_lock_write_def write_code_def clip_count_def Let_def split: prod.split)

lemma globalmem_lock_llseek_code: "globalmem_lock_llseek = llseek_code 4096"
  by (intro ext)
     (simp add: globalmem_lock_llseek_def llseek_code_def Let_def word_less_def)

interpretation gl: seekable_device 4096 lock_mem
  "\<lambda>ctu d us buf sz pos. fst (globalmem_lock_read clk ctu d us buf sz pos)"
  "\<lambda>cfu d us buf sz pos. fst (globalmem_lock_write clk cfu d us buf sz pos)"
  globalmem_lock_llseek for clk
proof (unfold_locales, goal_cases)
  case 1
  show ?case by simp
next
  case (2 d ctu us buf sz pos)
  show ?case
    using read_code_refines [of GLOBALMEM_LOCK_SIZE ctu "lock_mem d" us buf sz pos]
    by (simp add: globalmem_lock_read_code unat_GLOBALMEM_LOCK_SIZE)
next
  case (3 d cfu us buf sz pos)
  show ?case
    using write_code_refines [of GLOBALMEM_LOCK_SIZE cfu "lock_mem d" us buf sz pos]
    by (simp add: globalmem_lock_write_code unat_GLOBALMEM_LOCK_SIZE prod.map_comp comp_def id_def)
next
  case (4 off pos)
  then show ?case by (simp add: globalmem_lock_llseek_code llseek_code_set)
next
  case (5 pos off whence)
  then show ?case using llseek_code_bounded [of 4096 pos off whence]
    by (simp add: globalmem_lock_llseek_code)
next
  case (6 pos off whence r)
  then show ?case using llseek_code_Inr [of 4096 pos off whence r]
    by (simp add: globalmem_lock_llseek_code)
next
  case (7 pos off whence e)
  then show ?case using llseek_code_Inl [of 4096 pos off whence e]
    by (simp add: globalmem_lock_llseek_code)
qed

section \<open>The driver's use of its mutex\<close>

text \<open>The lock traces of all calls of the driver.\<close>

definition globalmem_lock_traces :: "lock_event list set" where
  "globalmem_lock_traces =
     {t. \<exists>clk (ctu :: u8 list copy_out) dev us buf sz pos.
           t = fst (snd (globalmem_lock_read clk ctu dev us buf sz pos))} \<union>
     {t. \<exists>clk (cfu :: u8 list copy_in) dev us buf sz pos.
           t = fst (snd (globalmem_lock_write clk cfu dev us buf sz pos))} \<union>
     {t. \<exists>dev cmd. t = snd (globalmem_lock_ioctl dev cmd)}"

lemma globalmem_lock_traces_shape:
  "t \<in> globalmem_lock_traces \<Longrightarrow> t = [] \<or> t = [Acquire, Touch, Release]"
  by (auto simp: globalmem_lock_traces_def globalmem_lock_read_def globalmem_lock_write_def
      globalmem_lock_ioctl_def Let_def split: if_splits prod.splits)

interpretation gl_mutex: lock_client globalmem_lock_traces
  by unfold_locales (auto dest: globalmem_lock_traces_shape)

interpretation gl_load: chrdev_clean globalmem_lock_init globalmem_lock_exit lock_major 1
  by unfold_locales
     (auto simp: globalmem_lock_init_def globalmem_lock_exit_def globalmem_lock_setup_cdev_def
       Let_def kenv_ok_def numbers_def split: if_splits)

section \<open>Properties\<close>

text \<open>A run in which task 0 has called \<open>ioctl (MEM_CLEAR)\<close> and holds the mutex.\<close>

definition lock_busy :: lock_sys where
  "lock_busy = \<lparr>holder = Some 0, pending = (\<lambda>i. [])(0 := [Touch, Release])\<rparr>"

lemma clear_trace: "[Acquire, Touch, Release] \<in> globalmem_lock_traces"
proof -
  have "snd (globalmem_lock_ioctl \<lparr>lock_mem = []\<rparr> 1) = [Acquire, Touch, Release]"
    by (simp add: globalmem_lock_ioctl_def LOCK_MEM_CLEAR_def)
  then have "\<exists>dev cmd. [Acquire, Touch, Release] = snd (globalmem_lock_ioctl dev cmd)" by metis
  then show ?thesis unfolding globalmem_lock_traces_def by (intro UnI2 CollectI)
qed

lemma lock_busy_reach: "lock_reach globalmem_lock_traces lock_init lock_busy"
proof -
  let ?s = "lock_init\<lparr>pending := (pending lock_init)(0 := [Acquire, Touch, Release])\<rparr>"
  have 1: "lock_step globalmem_lock_traces lock_init ?s"
    by (rule lock_step.begin_call) (simp_all add: lock_init_def clear_trace)
  have "lock_step globalmem_lock_traces ?s
      (?s\<lparr>holder := Some 0, pending := (pending ?s)(0 := [Touch, Release])\<rparr>)"
    by (rule lock_step.acquire) (simp_all add: lock_init_def)
  then have 2: "lock_step globalmem_lock_traces ?s lock_busy"
    by (simp add: lock_busy_def lock_init_def)
  show ?thesis by (rule lock_reach.step [OF lock_reach.step [OF lock_reach.refl 1] 2])
qed

text \<open>
  A mutex that works (the module does not initialise it, see \<open>Globalmem_Conc\<close>) protects the
  memory: however calls of any number of tasks interleave, two tasks
  are never both about to access \<open>dev->mem\<close>.
\<close>

theorem globalmem_lock_mutual_exclusion:
  assumes "lock_reach globalmem_lock_traces lock_init s" "touching s i" "touching s j"
  shows "i = j"
  using assms by (rule gl_mutex.mutual_exclusion)

lemma globalmem_lock_mutual_exclusion_example:
  "{j. touching lock_busy j} = {0}"
proof -
  have t: "touching lock_busy 0" by (simp add: touching_def lock_busy_def)
  then show ?thesis using globalmem_lock_mutual_exclusion [OF lock_busy_reach t] by blast
qed

text \<open>
  The driver never deadlocks on a mutex that works: as long as some call is unfinished, some task can
  move a call of its own forward.
\<close>

theorem globalmem_lock_no_deadlock:
  assumes "lock_reach globalmem_lock_traces lock_init s" "\<not> idle s"
  shows "\<exists>s' i. lock_step globalmem_lock_traces s s' \<and>
    length (pending s' i) < length (pending s i)"
  using assms by (rule gl_mutex.no_deadlock)

lemma globalmem_lock_no_deadlock_example:
  "\<exists>s'. lock_step globalmem_lock_traces lock_busy s'"
proof -
  have "\<not> idle lock_busy" by (auto simp: idle_def lock_busy_def)
  then show ?thesis using globalmem_lock_no_deadlock [OF lock_busy_reach] by blast
qed

text \<open>
  The locked driver keeps what it is given: write, \<open>SEEK_SET\<close> back, read the same amount.
\<close>

theorem globalmem_lock_write_seek_read:
  fixes cfu :: "'u copy_in" and ctu :: "'u copy_out"
  assumes "copy_in_fills cfu" "length (lock_mem dev) = 4096" "unat pos < 4096"
    and "fst (globalmem_lock_write clk cfu dev us buf sz pos) = (Inr k, pos', dev')"
    and "ctu usr bufr (fst (cfu us buf (nat k))) = (us3, 0)"
  shows "globalmem_lock_llseek pos' pos 0 = (Inr (int (unat pos)), pos) \<and>
    fst (globalmem_lock_read clk' ctu dev' usr bufr sz pos) = (Inr k, pos', us3)"
proof -
  obtain r p2 where s: "globalmem_lock_llseek pos' pos 0 = (r, p2)" by fastforce
  have w: "fst (globalmem_lock_write clk' cfu dev us buf sz pos) = (Inr k, pos', dev')"
    using assms(4) by (simp add: globalmem_lock_write_code)
  show ?thesis
    by (rule gl.write_seek_read [OF assms(1-3) w s, where usr = usr and bufr = bufr and ctu = ctu])
       (use assms(5) s in auto)
qed

lemma globalmem_lock_write_seek_read_example:
  "fst (globalmem_lock_read (\<lparr>tv_sec = 0, tv_nsec = 0\<rparr>, \<lparr>tv_sec = 0, tv_nsec = 9\<rparr>) flat_out
     \<lparr>lock_mem = [1, 2, 3] @ replicate 4093 0\<rparr> [9, 9, 9] 0 3 0) = (Inr 3, 3, [1, 2, 3])"
proof -
  let ?clk = "(\<lparr>tv_sec = 0, tv_nsec = 0\<rparr>, \<lparr>tv_sec = 0, tv_nsec = 9\<rparr>)"
  have w: "fst (globalmem_lock_write ?clk flat_in \<lparr>lock_mem = replicate 4096 0\<rparr> [1, 2, 3] 0 3 0) =
     (Inr 3, 3, \<lparr>lock_mem = [1, 2, 3] @ replicate 4093 0\<rparr>)"
    by (simp add: globalmem_lock_write_def GLOBALMEM_LOCK_SIZE_def flat_in_def put_bytes_def
        Let_def)
  have o: "flat_out [9, 9, 9] 0 (fst (flat_in [1, 2, 3] 0 (nat 3))) = ([1, 2, 3], 0)"
    by (simp add: flat_out_def flat_in_def Let_def)
  show ?thesis
    using w o globalmem_lock_write_seek_read [of flat_in "\<lparr>lock_mem = replicate 4096 0\<rparr>" 0 ?clk
      "[1, 2, 3]" 0 3 3 3 "\<lparr>lock_mem = [1, 2, 3] @ replicate 4093 0\<rparr>" flat_out "[9, 9, 9]" 0
      "[1, 2, 3]" ?clk]
    by (simp add: copy_in_fills_flat)
qed

text \<open>
  Loading and unloading the module any number of times, with failures of the kernel at any
  point, leaves no device number, memory or \<open>cdev\<close> behind.
\<close>

theorem globalmem_lock_cycles_balanced:
  assumes "\<And>k. k \<in> set ks \<Longrightarrow> kenv_ok k"
  shows "held {} (load_cycles globalmem_lock_init globalmem_lock_exit m ks) = {} \<and>
    heap 0 (load_cycles globalmem_lock_init globalmem_lock_exit m ks) = 0 \<and>
    live {} (load_cycles globalmem_lock_init globalmem_lock_exit m ks) = {}"
  using assms by (rule gl_load.cycles_balanced)

lemma globalmem_lock_cycles_balanced_example:
  "held {} (load_cycles globalmem_lock_init globalmem_lock_exit globalmem_lock_module0
     [kenv_fine, kenv_fine\<lparr>kmalloc_ok := False\<rparr>, kenv_fine\<lparr>register_ret := -16\<rparr>]) = {}"
  by (intro globalmem_lock_cycles_balanced [THEN conjunct1])
     (auto simp: kenv_ok_def kenv_fine_def)

text \<open>
  The time \<open>timer_end\<close> logs is the elapsed time exactly when both samples fall into the same
  second: the seconds of the samples are ignored.
\<close>

theorem timer_end_correct_iff:
  "timer_end now (timer_start start) =
     (tv_sec now * 1000000000 + tv_nsec now) - (tv_sec start * 1000000000 + tv_nsec start) \<longleftrightarrow>
   tv_sec now = tv_sec start"
  by (auto simp: timer_end_def timer_start_def Let_def)

end
