(* ===== verification/Byte_Fifo.thy ===== *)
theory Byte_Fifo
  imports Kernel_Prelude
begin

text \<open>
  The contract of a bounded byte queue behind \<open>read\<close> and \<open>write\<close>: reads take bytes from the
  front, writes append them, a failed user copy leaves the queue as it was. From the contract
  alone: along any sequence of calls the bytes delivered, followed by what is still queued, are
  the bytes that were queued at first followed by those accepted since.
\<close>

type_synonym ('d, 'u) fifo_read =
  "'u copy_out \<Rightarrow> 'd \<Rightarrow> 'u \<Rightarrow> u64 \<Rightarrow> u64 \<Rightarrow> int result \<times> 'd \<times> 'u"

type_synonym ('d, 'u) fifo_write =
  "'u copy_in \<Rightarrow> 'd \<Rightarrow> 'u \<Rightarrow> u64 \<Rightarrow> u64 \<Rightarrow> int result \<times> 'd"

datatype 'u fifo_call = Fifo_read 'u u64 u64 | Fifo_write 'u u64 u64

text \<open>A step of a session: the device, the bytes delivered so far, the bytes accepted so far.\<close>

fun fifo_call_step ::
  "('d \<Rightarrow> u8 list) \<Rightarrow> ('d, 'u) fifo_read \<Rightarrow> ('d, 'u) fifo_write \<Rightarrow> 'u copy_out \<Rightarrow> 'u copy_in \<Rightarrow>
     'd \<times> u8 list \<times> u8 list \<Rightarrow> 'u fifo_call \<Rightarrow> 'd \<times> u8 list \<times> u8 list" where
  "fifo_call_step contents rd wr ctu cfu (d, out, acc) (Fifo_read us buf n) =
     (case rd ctu d us buf n of
        (Inr k, d', us') \<Rightarrow> (d', out @ take (nat k) (contents d), acc)
      | (Inl e, d', us') \<Rightarrow> (d', out, acc))"
| "fifo_call_step contents rd wr ctu cfu (d, out, acc) (Fifo_write us buf n) =
     (case wr cfu d us buf n of
        (Inr k, d') \<Rightarrow> (d', out, acc @ fst (cfu us buf (nat k)))
      | (Inl e, d') \<Rightarrow> (d', out, acc))"

definition fifo_session ::
  "('d \<Rightarrow> u8 list) \<Rightarrow> ('d, 'u) fifo_read \<Rightarrow> ('d, 'u) fifo_write \<Rightarrow> 'u copy_out \<Rightarrow> 'u copy_in \<Rightarrow>
     'd \<Rightarrow> 'u fifo_call list \<Rightarrow> 'd \<times> u8 list \<times> u8 list" where
  "fifo_session contents rd wr ctu cfu d =
     foldl (fifo_call_step contents rd wr ctu cfu) (d, [], [])"

locale byte_fifo =
  fixes cap :: nat
    and contents :: "'d \<Rightarrow> u8 list"
    and invar :: "'d \<Rightarrow> bool"
    and rd :: "('d, 'u) fifo_read"
    and wr :: "('d, 'u) fifo_write"
  assumes cap: "invar d \<Longrightarrow> length (contents d) \<le> cap"
    and rd_ok: "invar d \<Longrightarrow> rd ctu d us buf n = (Inr k, d', us') \<Longrightarrow>
      invar d' \<and> k = int (min (unat n) (length (contents d))) \<and>
      contents d' = drop (nat k) (contents d) \<and>
      ctu us buf (take (nat k) (contents d)) = (us', 0)"
    and rd_fail: "invar d \<Longrightarrow> rd ctu d us buf n = (Inl e, d', us') \<Longrightarrow> e = EFAULT \<and> d' = d"
    and wr_ok: "invar d \<Longrightarrow> copy_in_fills cfu \<Longrightarrow> wr cfu d us buf n = (Inr k, d') \<Longrightarrow>
      invar d' \<and> k = int (min (unat n) (cap - length (contents d))) \<and>
      contents d' = contents d @ fst (cfu us buf (nat k))"
    and wr_fail: "invar d \<Longrightarrow> copy_in_fills cfu \<Longrightarrow> wr cfu d us buf n = (Inl e, d') \<Longrightarrow>
      e = EFAULT \<and> invar d' \<and> contents d' = contents d"
begin

lemma call_step:
  assumes "invar d" "copy_in_fills cfu" "q @ acc = out @ contents d"
    and "fifo_call_step contents rd wr ctu cfu (d, out, acc) c = (d', out', acc')"
  shows "invar d' \<and> q @ acc' = out' @ contents d'"
proof (cases c)
  case (Fifo_read us buf n)
  obtain r d2 us' where r: "rd ctu d us buf n = (r, d2, us')" by (rule prod_cases3)
  show ?thesis
  proof (cases r)
    case (Inl e)
    then show ?thesis using assms Fifo_read r rd_fail [OF assms(1), of ctu us buf n e d2 us'] by auto
  next
    case (Inr k)
    then show ?thesis using assms Fifo_read r rd_ok [OF assms(1), of ctu us buf n k d2 us'] by auto
  qed
next
  case (Fifo_write us buf n)
  obtain r d2 where w: "wr cfu d us buf n = (r, d2)" by fastforce
  show ?thesis
  proof (cases r)
    case (Inl e)
    then show ?thesis using assms Fifo_write w wr_fail [OF assms(1,2), of us buf n e d2] by auto
  next
    case (Inr k)
    then show ?thesis
      using assms Fifo_write w wr_ok [OF assms(1,2), of us buf n k d2]
      by (auto simp flip: append_assoc)
  qed
qed

lemma session_fifo:
  assumes "invar d" "copy_in_fills cfu"
    and "fifo_session contents rd wr ctu cfu d cs = (d', out, acc)"
  shows "invar d' \<and> length (contents d') \<le> cap \<and> contents d @ acc = out @ contents d'"
proof -
  have gen: "invar d' \<and> q @ acc' = out' @ contents d'"
    if "invar d" "q @ acc = out @ contents d"
      "foldl (fifo_call_step contents rd wr ctu cfu) (d, out, acc) cs = (d', out', acc')"
    for d out acc d' out' acc' q
    using that
  proof (induction cs arbitrary: d out acc)
    case Nil
    then show ?case by simp
  next
    case (Cons c cs)
    obtain d2 out2 acc2 where
      s: "fifo_call_step contents rd wr ctu cfu (d, out, acc) c = (d2, out2, acc2)"
      by (rule prod_cases3)
    have "invar d2" "q @ acc2 = out2 @ contents d2"
      using call_step [OF Cons.prems(1) assms(2) Cons.prems(2) s] by simp_all
    then show ?case using Cons.prems(3) s by (intro Cons.IH) simp_all
  qed
  have "invar d' \<and> contents d @ acc = out @ contents d'"
    by (rule gen [OF assms(1), of "contents d" "[]" "[]" d' out acc])
       (use assms(3) in \<open>simp_all add: fifo_session_def\<close>)
  then show ?thesis using cap by simp
qed

end

end
