(* ===== verification/Globalfifo.thy ===== *)
theory Globalfifo
  imports Byte_Fifo Chrdev Locking
begin

text \<open>
  The driver \<open>src/globalfifo/globalfifo.c\<close>: a blocking byte queue in an array of 4 KiB, whose
  data always starts at index 0. \<open>globalfifo_read\<close> and \<open>globalfifo_write\<close> are the whole
  handlers as one task runs them; what the rest of the system does while the task sleeps in
  \<open>schedule ()\<close> is a parameter. They are built from the parts before and after the sleep, which
  the theory \<open>Globalfifo_Sched\<close> interleaves between tasks. The locale \<open>byte_fifo\<close> is the
  queue contract the driver implements.
\<close>

section \<open>Copying inside the array\<close>

text \<open>
  \<open>memcpy (dev->mem, dev->mem + count, n)\<close> copies between ranges of one array that overlap in
  general, which the C standard leaves undefined. The handlers take \<open>memcpy\<close> as a parameter;
  \<open>memcpy_contract\<close> is what the standard promises, and only about ranges that do not overlap;
  \<open>memcpy_ascending\<close> is what it promises of \<open>memmove\<close> for a destination below the source, which
  the driver does not call. \<open>copy_up\<close> and \<open>copy_down\<close> are the two byte-by-byte loops.
\<close>

type_synonym memcpy = "u8 list \<Rightarrow> nat \<Rightarrow> nat \<Rightarrow> nat \<Rightarrow> u8 list"

definition memcpy_contract :: "memcpy \<Rightarrow> bool" where
  "memcpy_contract mc \<longleftrightarrow> (\<forall>m d s n. d + n \<le> length m \<longrightarrow> s + n \<le> length m \<longrightarrow>
     d + n \<le> s \<or> s + n \<le> d \<longrightarrow> mc m d s n = put_bytes m d (get_bytes m s n))"

definition memcpy_ascending :: "memcpy \<Rightarrow> bool" where
  "memcpy_ascending mc \<longleftrightarrow> (\<forall>m d s n. d \<le> s \<longrightarrow> s + n \<le> length m \<longrightarrow>
     mc m d s n = put_bytes m d (get_bytes m s n))"

fun copy_up :: memcpy where
  "copy_up m d s 0 = m"
| "copy_up m d s (Suc n) = copy_up (m[d := m ! s]) (Suc d) (Suc s) n"

fun copy_down :: memcpy where
  "copy_down m d s 0 = m"
| "copy_down m d s (Suc n) = copy_down (m[d + n := m ! (s + n)]) d s n"

lemma length_copy_up [simp]: "length (copy_up m d s n) = length m"
  by (induction m d s n rule: copy_up.induct) simp_all

lemma length_copy_down [simp]: "length (copy_down m d s n) = length m"
  by (induction m d s n rule: copy_down.induct) simp_all

lemma nth_copy_up:
  "d \<le> s \<Longrightarrow> s + n \<le> length m \<Longrightarrow> i < length m \<Longrightarrow>
     copy_up m d s n ! i = (if d \<le> i \<and> i < d + n then m ! (s + (i - d)) else m ! i)"
proof (induction m d s n rule: copy_up.induct)
  case (1 m d s)
  then show ?case by auto
next
  case (2 m d s n)
  have "copy_up m d s (Suc n) ! i =
      (if Suc d \<le> i \<and> i < Suc d + n then (m[d := m ! s]) ! (Suc s + (i - Suc d))
       else (m[d := m ! s]) ! i)"
    using 2 by simp
  also have "\<dots> = (if d \<le> i \<and> i < d + Suc n then m ! (s + (i - d)) else m ! i)"
    using 2(2-4) by (auto simp: nth_list_update Suc_diff_Suc)
  finally show ?case .
qed

lemma nth_copy_down:
  "s + n \<le> length m \<Longrightarrow> d + n \<le> length m \<Longrightarrow> d + n \<le> s \<or> s + n \<le> d \<Longrightarrow> i < length m \<Longrightarrow>
     copy_down m d s n ! i = (if d \<le> i \<and> i < d + n then m ! (s + (i - d)) else m ! i)"
proof (induction m d s n rule: copy_down.induct)
  case (1 m d s)
  then show ?case by auto
next
  case (2 m d s n)
  let ?m = "m[d + n := m ! (s + n)]"
  have "copy_down m d s (Suc n) ! i =
      (if d \<le> i \<and> i < d + n then ?m ! (s + (i - d)) else ?m ! i)"
    using 2 by auto
  also have "\<dots> = (if d \<le> i \<and> i < d + Suc n then m ! (s + (i - d)) else m ! i)"
    using 2(2-5) by (auto simp: nth_list_update less_Suc_eq)
  finally show ?case .
qed

lemma nth_put_get:
  assumes "d + n \<le> length m" "s + n \<le> length m" "i < length m"
  shows "put_bytes m d (get_bytes m s n) ! i =
    (if d \<le> i \<and> i < d + n then m ! (s + (i - d)) else m ! i)"
  using assms by (auto simp: nth_put_bytes byte_simps nth_get_bytes)

lemma copy_up_ascending: "memcpy_ascending copy_up"
  unfolding memcpy_ascending_def
  by (intro allI impI nth_equalityI) (simp_all add: byte_simps nth_copy_up nth_put_get)

lemma copy_down_contract: "memcpy_contract copy_down"
  unfolding memcpy_contract_def
  by (intro allI impI nth_equalityI) (simp_all add: byte_simps nth_copy_down nth_put_get)

section \<open>State\<close>

definition GLOBALFIFO_SIZE :: u32 where
  "GLOBALFIFO_SIZE = 0x1000"

definition FIFO_CLEAR :: u32 where
  "FIFO_CLEAR = 1"

text \<open>
  The wait queues and the semaphore belong to the scheduling of tasks and are modelled in
  \<open>Globalfifo_Sched\<close>; \<open>async_queue\<close> lists the files registered for \<open>SIGIO\<close>.
\<close>

record globalfifo_dev =
  current_len :: u32
  fifo_mem :: "u8 list"
  async_queue :: "nat list"

definition globalfifo_dev0 :: globalfifo_dev where
  "globalfifo_dev0 =
     \<lparr>current_len = 0, fifo_mem = replicate (unat GLOBALFIFO_SIZE) 0, async_queue = []\<rparr>"

text \<open>What the copying parts of the handlers do besides: wake a queue, send \<open>SIGIO\<close>.\<close>

datatype fifo_event = Wake_readers | Wake_writers | Kill_fasync

section \<open>Small operations\<close>

definition globalfifo_open :: "open_file \<Rightarrow> int result \<times> open_file" where
  "globalfifo_open filp = (Inr 0, filp\<lparr>private_data := Some 0\<rparr>)"

text \<open>\<open>fasync_helper\<close> is the kernel's: from descriptor, file and mode to a value and a queue.\<close>

type_synonym fasync_helper = "int \<Rightarrow> nat \<Rightarrow> int \<Rightarrow> nat list \<Rightarrow> int \<times> nat list"

definition globalfifo_fasync ::
  "fasync_helper \<Rightarrow> int \<Rightarrow> nat \<Rightarrow> int \<Rightarrow> globalfifo_dev \<Rightarrow> int \<times> globalfifo_dev" where
  "globalfifo_fasync helper fd filp mode dev =
     (let (r, q) = helper fd filp mode (async_queue dev) in (r, dev\<lparr>async_queue := q\<rparr>))"

definition globalfifo_release ::
  "fasync_helper \<Rightarrow> nat \<Rightarrow> globalfifo_dev \<Rightarrow> int result \<times> globalfifo_dev" where
  "globalfifo_release helper filp dev =
     (let (_, dev) = globalfifo_fasync helper (-1) filp 0 dev in (Inr 0, dev))"

definition globalfifo_unlocked_ioctl ::
  "globalfifo_dev \<Rightarrow> u32 \<Rightarrow> (int result \<times> globalfifo_dev) \<times> lock_event list" where
  "globalfifo_unlocked_ioctl dev cmd =
     (if cmd = FIFO_CLEAR then
        ((Inr 0, dev\<lparr>current_len := 0, fifo_mem := replicate (unat GLOBALFIFO_SIZE) 0\<rparr>),
         [Acquire, Touch, Release])
      else ((Inl EINVAL, dev), []))"

text \<open>The poll bits of the kernel's user interface.\<close>

definition POLLIN :: u32 where "POLLIN = 0x1"
definition POLLOUT :: u32 where "POLLOUT = 0x4"
definition POLLRDNORM :: u32 where "POLLRDNORM = 0x40"
definition POLLWRNORM :: u32 where "POLLWRNORM = 0x100"

definition globalfifo_poll :: "globalfifo_dev \<Rightarrow> u32 \<times> lock_event list" where
  "globalfifo_poll dev =
     (let mask = 0;
          mask = (if current_len dev \<noteq> 0 then mask OR (POLLIN OR POLLRDNORM) else mask);
          mask = (if current_len dev \<noteq> GLOBALFIFO_SIZE then mask OR (POLLOUT OR POLLWRNORM)
                  else mask)
      in (mask, [Acquire, Touch, Release]))"

section \<open>Reading and writing\<close>

text \<open>
  The part of \<open>globalfifo_read\<close> from the clipping of \<open>count\<close> to the end of the copy, run with
  the semaphore held. \<open>count\<close> is a \<open>size_t\<close>, \<open>current_len\<close> an \<open>unsigned int\<close>, the return
  value goes through an \<open>int\<close>.
\<close>

definition globalfifo_read_copy ::
  "memcpy \<Rightarrow> 'u copy_out \<Rightarrow> globalfifo_dev \<Rightarrow> 'u \<Rightarrow> u64 \<Rightarrow> u64 \<Rightarrow>
     (int result \<times> globalfifo_dev \<times> 'u) \<times> fifo_event list" where
  "globalfifo_read_copy memcpy copy_to_user dev us buf count =
     (let count = (if count > ucast (current_len dev) then ucast (current_len dev) else count);
          (us, left) = copy_to_user us buf (get_bytes (fifo_mem dev) 0 (unat count))
      in if left \<noteq> 0 then ((Inl EFAULT, dev, us), [])
         else
           let rest = (ucast (current_len dev) - count :: u64);
               dev = dev\<lparr>fifo_mem := memcpy (fifo_mem dev) 0 (unat count) (unat rest)\<rparr>;
               dev = dev\<lparr>current_len := ucast (ucast (current_len dev) - count)\<rparr>
           in ((Inr (sint (ucast count :: u32)), dev, us), [Wake_writers]))"

text \<open>
  Whether the ranges that \<open>memcpy\<close> gets are disjoint: what stays in the queue is not longer than
  what is taken.
\<close>

definition disjoint_read :: "globalfifo_dev \<Rightarrow> u64 \<Rightarrow> bool" where
  "disjoint_read dev count \<longleftrightarrow> unat (current_len dev) \<le> 2 * unat count"

text \<open>The corresponding part of \<open>globalfifo_write\<close>.\<close>

definition globalfifo_write_copy ::
  "'u copy_in \<Rightarrow> globalfifo_dev \<Rightarrow> 'u \<Rightarrow> u64 \<Rightarrow> u64 \<Rightarrow>
     (int result \<times> globalfifo_dev) \<times> fifo_event list" where
  "globalfifo_write_copy copy_from_user dev us buf count =
     (let space = (GLOBALFIFO_SIZE - current_len dev :: u32);
          count = (if count > ucast space then ucast space else count);
          (bs, left) = copy_from_user us buf (unat count);
          dev = dev\<lparr>fifo_mem := put_bytes (fifo_mem dev) (unat (current_len dev)) bs\<rparr>
      in if left \<noteq> 0 then ((Inl EFAULT, dev), [])
         else
           let dev = dev\<lparr>current_len := current_len dev + ucast count\<rparr>
           in ((Inr (sint (ucast count :: u32)), dev),
               [Wake_readers] @ (if async_queue dev \<noteq> [] then [Kill_fasync] else [])))"

text \<open>
  The whole handlers. \<open>sleep\<close> stands for \<open>schedule ()\<close> after the task has set itself to
  \<open>TASK_INTERRUPTIBLE\<close> and released the semaphore: from the device then to the device when the
  task runs again, and whether a signal is pending. After the sleep the condition is not tested
  again. The last component is the semaphore trace.
\<close>

definition globalfifo_read ::
  "memcpy \<Rightarrow> 'u copy_out \<Rightarrow> (globalfifo_dev \<Rightarrow> globalfifo_dev \<times> bool) \<Rightarrow> open_file \<Rightarrow>
     globalfifo_dev \<Rightarrow> 'u \<Rightarrow> u64 \<Rightarrow> u64 \<Rightarrow>
     (int result \<times> globalfifo_dev \<times> 'u) \<times> fifo_event list \<times> lock_event list" where
  "globalfifo_read memcpy copy_to_user sleep filp dev us buf count =
     (if current_len dev = 0 then
        if f_nonblock filp then ((Inl EAGAIN, dev, us), [], [Acquire, Touch, Release])
        else
          let (dev, signal_pending) = sleep dev in
          if signal_pending then ((Inl ERESTARTSYS, dev, us), [], [Acquire, Touch, Release])
          else
            let (r, evs) = globalfifo_read_copy memcpy copy_to_user dev us buf count
            in (r, evs, [Acquire, Touch, Release, Acquire, Touch, Release])
      else
        let (r, evs) = globalfifo_read_copy memcpy copy_to_user dev us buf count
        in (r, evs, [Acquire, Touch, Release]))"

definition globalfifo_write ::
  "'u copy_in \<Rightarrow> (globalfifo_dev \<Rightarrow> globalfifo_dev \<times> bool) \<Rightarrow> open_file \<Rightarrow>
     globalfifo_dev \<Rightarrow> 'u \<Rightarrow> u64 \<Rightarrow> u64 \<Rightarrow>
     (int result \<times> globalfifo_dev) \<times> fifo_event list \<times> lock_event list" where
  "globalfifo_write copy_from_user sleep filp dev us buf count =
     (if current_len dev = GLOBALFIFO_SIZE then
        if f_nonblock filp then ((Inl EAGAIN, dev), [], [Acquire, Touch, Release])
        else
          let (dev, signal_pending) = sleep dev in
          if signal_pending then ((Inl ERESTARTSYS, dev), [], [Acquire, Touch, Release])
          else
            let (r, evs) = globalfifo_write_copy copy_from_user dev us buf count
            in (r, evs, [Acquire, Touch, Release, Acquire, Touch, Release])
      else
        let (r, evs) = globalfifo_write_copy copy_from_user dev us buf count
        in (r, evs, [Acquire, Touch, Release]))"

section \<open>Loading and unloading\<close>

record globalfifo_module =
  globalfifo_major :: int
  globalfifo_devp :: "globalfifo_dev option"

definition GLOBALFIFO_MAJOR :: int where
  "GLOBALFIFO_MAJOR = 300"

definition globalfifo_module0 :: globalfifo_module where
  "globalfifo_module0 = \<lparr>globalfifo_major = GLOBALFIFO_MAJOR, globalfifo_devp = None\<rparr>"

definition globalfifo_setup_cdev :: "kenv \<Rightarrow> int \<Rightarrow> nat \<Rightarrow> kcall list" where
  "globalfifo_setup_cdev k major index =
     [Cdev_init index, Cdev_add index (MKDEV major index) 1 (cdev_add_ret k index)]"

definition globalfifo_init ::
  "kenv \<Rightarrow> globalfifo_module \<Rightarrow> unit result \<times> globalfifo_module \<times> kcall list" where
  "globalfifo_init k m =
     (let devno = MKDEV (globalfifo_major m) 0;
          (ret, devno, m, tr) =
            (if globalfifo_major m \<noteq> 0 then
               (register_ret k, devno, m, [Register_chrdev_region devno 1 (register_ret k)])
             else
               (alloc_ret k, alloc_dev k, m\<lparr>globalfifo_major := MAJOR (alloc_dev k)\<rparr>,
                [Alloc_chrdev_region 0 1 (alloc_ret k) (alloc_dev k)]))
      in
        if ret < 0 then (Inl (Code ret), m, tr)
        else if \<not> kmalloc_ok k then
          (Inl ENOMEM, m\<lparr>globalfifo_devp := None\<rparr>,
           tr @ [Kmalloc 1 False, Unregister_chrdev_region devno 1])
        else
          (Inr (), m\<lparr>globalfifo_devp := Some globalfifo_dev0\<rparr>,
           tr @ [Kmalloc 1 True] @ globalfifo_setup_cdev k (globalfifo_major m) 0 @
             [Sema_init 1, Init_waitqueue_head 0, Init_waitqueue_head 1]))"

definition globalfifo_exit :: "globalfifo_module \<Rightarrow> kcall list" where
  "globalfifo_exit m =
     [Cdev_del 0, Kfree, Unregister_chrdev_region (MKDEV (globalfifo_major m) 0) 1]"

section \<open>The driver implements a byte queue\<close>

definition fifo_contents :: "globalfifo_dev \<Rightarrow> u8 list" where
  "fifo_contents dev = take (unat (current_len dev)) (fifo_mem dev)"

definition fifo_inv :: "globalfifo_dev \<Rightarrow> bool" where
  "fifo_inv dev \<longleftrightarrow> length (fifo_mem dev) = 4096 \<and> unat (current_len dev) \<le> 4096"

lemma fifo_inv_dev0: "fifo_inv globalfifo_dev0"
  by (simp add: fifo_inv_def globalfifo_dev0_def GLOBALFIFO_SIZE_def)

lemma length_fifo_contents: "fifo_inv dev \<Longrightarrow> length (fifo_contents dev) = unat (current_len dev)"
  by (simp add: fifo_inv_def fifo_contents_def)

text \<open>The arithmetic of the two copying parts, on values that fit the array.\<close>

lemma min_count:
  "unat (if count > ucast (l :: u32) then ucast l else count :: u64) = min (unat count) (unat l)"
  by (auto simp: word_less_nat_alt unat_ucast_up32)

lemma small_facts:
  assumes "unat (n :: u64) \<le> 4096"
  shows "unat (ucast n :: u32) = unat n" "sint (ucast n :: u32) = int (unat n)"
proof -
  show u: "unat (ucast n :: u32) = unat n" using assms by (simp add: unat_ucast_down32)
  show "sint (ucast n :: u32) = int (unat n)"
    using sint_u32_small [of "ucast n"] assms unfolding u by simp
qed

lemma sub_facts:
  assumes "unat (n :: u64) \<le> unat (l :: u32)"
  shows "unat (ucast l - n) = unat l - unat n" "unat (ucast (ucast l - n) :: u32) = unat l - unat n"
proof -
  have "n \<le> ucast l" using assms by (simp add: word_le_nat_alt unat_ucast_up32)
  then show a: "unat (ucast l - n) = unat l - unat n" by (simp add: unat_sub unat_ucast_up32)
  have "unat l < 2 ^ 32" using unsigned_less [of l, where ?'a = nat] by simp
  then have "unat (ucast l - n) < 2 ^ 32" unfolding a by simp
  then show "unat (ucast (ucast l - n) :: u32) = unat l - unat n"
    using a by (simp add: unat_ucast_down32)
qed

text \<open>When the copy inside the array is as it should be.\<close>

definition moves_rest :: "memcpy \<Rightarrow> globalfifo_dev \<Rightarrow> u64 \<Rightarrow> bool" where
  "moves_rest mc dev count \<longleftrightarrow>
     memcpy_ascending mc \<or> memcpy_contract mc \<and> disjoint_read dev count"

lemma moves_restD:
  assumes "moves_rest mc dev count" "fifo_inv dev" "n = min (unat count) (unat (current_len dev))"
  shows "mc (fifo_mem dev) 0 n (unat (current_len dev) - n) =
    put_bytes (fifo_mem dev) 0 (get_bytes (fifo_mem dev) n (unat (current_len dev) - n))"
  using assms
  by (auto simp: moves_rest_def memcpy_ascending_def memcpy_contract_def disjoint_read_def fifo_inv_def)

lemma read_copy_ok:
  assumes mc: "moves_rest mc dev count" and inv: "fifo_inv dev"
    and r: "globalfifo_read_copy mc ctu dev us buf count = ((Inr k, dev', us'), evs)"
  shows "fifo_inv dev' \<and> k = int (min (unat count) (length (fifo_contents dev))) \<and>
    fifo_contents dev' = drop (nat k) (fifo_contents dev) \<and>
    ctu us buf (take (nat k) (fifo_contents dev)) = (us', 0) \<and> evs = [Wake_writers] \<and>
    async_queue dev' = async_queue dev"
proof -
  let ?l = "unat (current_len dev)"
  define n where "n = (if count > ucast (current_len dev) then ucast (current_len dev) else count)"
  have un: "unat n = min (unat count) ?l" unfolding n_def by (rule min_count)
  have l: "?l \<le> 4096" "length (fifo_mem dev) = 4096" using inv by (simp_all add: fifo_inv_def)
  have nl: "unat n \<le> ?l" "unat n \<le> 4096" using un l by simp_all
  note small = small_facts [OF nl(2)] and sub = sub_facts [OF nl(1)]
  have m: "mc (fifo_mem dev) 0 (unat n) (?l - unat n) =
      put_bytes (fifo_mem dev) 0 (get_bytes (fifo_mem dev) (unat n) (?l - unat n))"
    by (rule moves_restD [OF mc inv un])
  let ?dev = "dev\<lparr>fifo_mem := mc (fifo_mem dev) 0 (unat n) (?l - unat n),
    current_len := ucast (ucast (current_len dev) - n)\<rparr>"
  have c: "fifo_contents ?dev = drop (unat n) (fifo_contents dev)"
    using nl l sub by (simp add: fifo_contents_def m put_bytes_def get_bytes_def drop_take)
  have i: "fifo_inv ?dev"
    using nl l sub by (simp add: fifo_inv_def m byte_simps)
  have g: "get_bytes (fifo_mem dev) 0 (unat n) = take (unat n) (fifo_contents dev)"
    using nl by (simp add: fifo_contents_def get_bytes_def min_absorb1)
  have "k = int (unat n) \<and> dev' = ?dev \<and> ctu us buf (take (unat n) (fifo_contents dev)) = (us', 0) \<and>
      evs = [Wake_writers]"
    using r sub small
    by (auto simp: globalfifo_read_copy_def Let_def g simp flip: n_def split: prod.splits if_splits)
  then show ?thesis using c i un length_fifo_contents [OF inv] by simp
qed

lemma read_copy_fail:
  "globalfifo_read_copy mc ctu dev us buf count = ((Inl e, dev', us'), evs) \<Longrightarrow>
     e = EFAULT \<and> dev' = dev \<and> evs = []"
  by (auto simp: globalfifo_read_copy_def Let_def split: prod.splits if_splits)

text \<open>What the copying parts do to the length, whatever the copy functions and \<open>memcpy\<close> do.\<close>

lemma read_copy_len:
  assumes "globalfifo_read_copy mc ctu dev us buf count = ((r, dev', us'), evs)"
  shows "unat (current_len dev') \<le> unat (current_len dev)"
proof -
  define n where "n = (if count > ucast (current_len dev) then ucast (current_len dev) else count)"
  have "unat n \<le> unat (current_len dev)" unfolding n_def min_count by simp
  from sub_facts(2) [OF this] have "unat (ucast (ucast (current_len dev) - n) :: u32) \<le> unat (current_len dev)"
    by simp
  then show ?thesis
    using assms by (auto simp: globalfifo_read_copy_def Let_def simp flip: n_def split: prod.splits if_splits)
qed

lemma write_copy_len:
  assumes "globalfifo_write_copy cfu dev us buf count = ((r, dev'), evs)"
    and "unat (current_len dev) \<le> 4096"
  shows "unat (current_len dev') \<le> 4096 \<and>
    (case r of Inl e \<Rightarrow> current_len dev' = current_len dev \<and> evs = [] | Inr k \<Rightarrow> Wake_readers \<in> set evs)"
proof -
  let ?l = "unat (current_len dev)"
  define n where "n = (if count > ucast (GLOBALFIFO_SIZE - current_len dev)
    then ucast (GLOBALFIFO_SIZE - current_len dev) else count)"
  have G: "unat GLOBALFIFO_SIZE = 4096" by (simp add: GLOBALFIFO_SIZE_def)
  then have "unat (GLOBALFIFO_SIZE - current_len dev) = 4096 - ?l"
    using assms(2) by (simp add: unat_sub word_le_nat_alt)
  then have n: "unat n \<le> 4096 - ?l" unfolding n_def min_count by simp
  then have "unat (ucast n :: u32) = unat n" by (intro small_facts) simp
  then have "unat (current_len dev + ucast n) = ?l + unat n"
    using n assms(2) by (simp add: unat_word_ariths)
  then show ?thesis
    using assms n
    by (auto simp: globalfifo_write_copy_def Let_def simp flip: n_def split: prod.splits if_splits)
qed

lemma write_copy_spec:
  assumes inv: "fifo_inv dev" and cf: "copy_in_fills cfu"
    and r: "globalfifo_write_copy cfu dev us buf count = ((r, dev'), evs)"
  defines "n \<equiv> min (unat count) (4096 - length (fifo_contents dev))"
  shows "fifo_inv dev' \<and> async_queue dev' = async_queue dev \<and>
    (if snd (cfu us buf n) = 0
     then r = Inr (int n) \<and> fifo_contents dev' = fifo_contents dev @ fst (cfu us buf n) \<and>
       Wake_readers \<in> set evs \<and> (Kill_fasync \<in> set evs \<longleftrightarrow> async_queue dev \<noteq> [])
     else r = Inl EFAULT \<and> fifo_contents dev' = fifo_contents dev \<and> evs = [])"
proof -
  let ?l = "unat (current_len dev)"
  define c where "c = (if count > ucast (GLOBALFIFO_SIZE - current_len dev)
    then ucast (GLOBALFIFO_SIZE - current_len dev) else count)"
  have l: "?l \<le> 4096" "length (fifo_mem dev) = 4096" using inv by (simp_all add: fifo_inv_def)
  have G: "unat GLOBALFIFO_SIZE = 4096" by (simp add: GLOBALFIFO_SIZE_def)
  then have "current_len dev \<le> GLOBALFIFO_SIZE" using l by (simp add: word_le_nat_alt)
  then have sp: "unat (GLOBALFIFO_SIZE - current_len dev) = 4096 - ?l"
    using G by (simp add: unat_sub)
  have un: "unat c = n"
    unfolding c_def n_def min_count sp length_fifo_contents [OF inv] by simp
  have nl: "?l + n \<le> 4096" "unat c \<le> 4096"
    using un l unfolding n_def length_fifo_contents [OF inv] by simp_all
  note small = small_facts [OF nl(2)]
  obtain bs left where b: "cfu us buf n = (bs, left)" by fastforce
  have lb: "length bs = n" using cf b by (rule copy_in_fillsD)
  have add: "unat (current_len dev + ucast c) = ?l + n"
    using nl small un by (simp add: unat_word_ariths)
  have m: "length (put_bytes (fifo_mem dev) ?l bs) = 4096"
    using nl l lb by (simp add: byte_simps)
  show ?thesis
  proof (cases "left = 0")
    case True
    then have "r = Inr (int n) \<and>
        dev' = dev\<lparr>fifo_mem := put_bytes (fifo_mem dev) ?l bs,
          current_len := current_len dev + ucast c\<rparr> \<and>
        evs = [Wake_readers] @ (if async_queue dev \<noteq> [] then [Kill_fasync] else [])"
      using r b small un
      by (auto simp: globalfifo_write_copy_def Let_def simp flip: c_def split: if_splits)
    then show ?thesis
      using True b add m nl l lb
      by (auto simp: fifo_inv_def fifo_contents_def put_bytes_def min_absorb1)
  next
    case False
    then have "r = Inl EFAULT \<and> dev' = dev\<lparr>fifo_mem := put_bytes (fifo_mem dev) ?l bs\<rparr> \<and> evs = []"
      using r b small un
      by (auto simp: globalfifo_write_copy_def Let_def simp flip: c_def split: if_splits)
    then show ?thesis
      using False b m nl l lb
      by (auto simp: fifo_inv_def fifo_contents_def put_bytes_def min_absorb1)
  qed
qed

interpretation gf: byte_fifo 4096 fifo_contents fifo_inv
  "\<lambda>ctu d us buf n. fst (globalfifo_read_copy copy_up ctu d us buf n)"
  "\<lambda>cfu d us buf n. fst (globalfifo_write_copy cfu d us buf n)"
proof (unfold_locales, goal_cases)
  case (1 d)
  then show ?case by (simp add: length_fifo_contents) (simp add: fifo_inv_def)
next
  case (2 d ctu us buf n k d' us')
  then obtain evs where "globalfifo_read_copy copy_up ctu d us buf n = ((Inr k, d', us'), evs)"
    by (cases "globalfifo_read_copy copy_up ctu d us buf n") simp
  moreover have "moves_rest copy_up d n" by (simp add: moves_rest_def copy_up_ascending)
  ultimately show ?case using read_copy_ok [of copy_up d n ctu us buf k d' us' evs] 2(1) by blast
next
  case (3 d ctu us buf n e d' us')
  then show ?case
    using read_copy_fail [of copy_up ctu d us buf n e d' us']
    by (cases "globalfifo_read_copy copy_up ctu d us buf n") simp
next
  case (4 d cfu us buf n k d')
  then show ?case
    using write_copy_spec [of d cfu us buf n "Inr k" d']
    by (cases "globalfifo_write_copy cfu d us buf n") (auto split: if_splits)
next
  case (5 d cfu us buf n e d')
  then show ?case
    using write_copy_spec [of d cfu us buf n "Inl e" d']
    by (cases "globalfifo_write_copy cfu d us buf n") (auto split: if_splits)
qed

section \<open>The semaphore and the module's accounts\<close>

definition globalfifo_traces :: "lock_event list set" where
  "globalfifo_traces =
     {t. \<exists>mc (ctu :: u8 list copy_out) sleep filp dev us buf n.
           t = snd (snd (globalfifo_read mc ctu sleep filp dev us buf n))} \<union>
     {t. \<exists>(cfu :: u8 list copy_in) sleep filp dev us buf n.
           t = snd (snd (globalfifo_write cfu sleep filp dev us buf n))} \<union>
     {t. \<exists>dev cmd. t = snd (globalfifo_unlocked_ioctl dev cmd)} \<union>
     {t. \<exists>dev. t = snd (globalfifo_poll dev)}"

lemma globalfifo_read_trace:
  "snd (snd (globalfifo_read mc ctu sleep filp dev us buf n)) =
     (if current_len dev = 0 \<and> \<not> f_nonblock filp \<and> \<not> snd (sleep dev)
      then [Acquire, Touch, Release, Acquire, Touch, Release] else [Acquire, Touch, Release])"
  by (auto simp: globalfifo_read_def split: prod.split)

lemma globalfifo_write_trace:
  "snd (snd (globalfifo_write cfu sleep filp dev us buf n)) =
     (if current_len dev = GLOBALFIFO_SIZE \<and> \<not> f_nonblock filp \<and> \<not> snd (sleep dev)
      then [Acquire, Touch, Release, Acquire, Touch, Release] else [Acquire, Touch, Release])"
  by (auto simp: globalfifo_write_def split: prod.split)

lemma globalfifo_traces_disciplined: "t \<in> globalfifo_traces \<Longrightarrow> disciplined False t"
  unfolding globalfifo_traces_def
  by (auto simp: globalfifo_read_trace globalfifo_write_trace globalfifo_unlocked_ioctl_def
      globalfifo_poll_def Let_def)

interpretation gf_sem: lock_client globalfifo_traces
  by unfold_locales (rule globalfifo_traces_disciplined)

interpretation gf_load: chrdev_clean globalfifo_init globalfifo_exit globalfifo_major 1
  by unfold_locales
     (auto simp: globalfifo_init_def globalfifo_exit_def globalfifo_setup_cdev_def
       Let_def kenv_ok_def numbers_def split: if_splits)

section \<open>Properties\<close>

text \<open>
  The driver is a bounded FIFO: along any sequence of reads and writes, with any user
  copies failing, the bytes delivered followed by the bytes still queued are the bytes queued at
  first followed by the bytes accepted, in order; nothing is lost, duplicated or reordered, and
  the array is never overrun. (This takes \<open>memcpy\<close> to
  copy upwards, which is not what it promises.)
\<close>

theorem globalfifo_session_fifo:
  fixes cfu :: "'u copy_in" and ctu :: "'u copy_out"
  assumes "fifo_inv dev" "copy_in_fills cfu"
    and "fifo_session fifo_contents
      (\<lambda>ctu d us buf n. fst (globalfifo_read_copy copy_up ctu d us buf n))
      (\<lambda>cfu d us buf n. fst (globalfifo_write_copy cfu d us buf n)) ctu cfu dev cs =
      (dev', delivered, accepted)"
  shows "fifo_inv dev' \<and> length (fifo_contents dev') \<le> 4096 \<and>
    fifo_contents dev @ accepted = delivered @ fifo_contents dev'"
  using assms by (rule gf.session_fifo)

lemma globalfifo_session_fifo_example:
  "\<exists>dev' accepted. fifo_session fifo_contents
      (\<lambda>ctu d us buf n. fst (globalfifo_read_copy copy_up ctu d us buf n))
      (\<lambda>cfu d us buf n. fst (globalfifo_write_copy cfu d us buf n)) flat_out flat_in
      globalfifo_dev0 [Fifo_write [1, 2, 3] 0 3, Fifo_read [0, 0] 0 2] = (dev', [1, 2], accepted) \<and>
    accepted = [1, 2] @ fifo_contents dev'"
proof -
  have w: "globalfifo_write_copy flat_in globalfifo_dev0 [1, 2, 3] 0 3 =
      ((Inr 3, \<lparr>current_len = 3, fifo_mem = [1, 2, 3] @ replicate 4093 0, async_queue = []\<rparr>),
       [Wake_readers])"
    by (simp add: globalfifo_write_copy_def globalfifo_dev0_def GLOBALFIFO_SIZE_def flat_in_def
        put_bytes_def Let_def)
  let ?s = "fifo_session fifo_contents
      (\<lambda>ctu d us buf n. fst (globalfifo_read_copy copy_up ctu d us buf n))
      (\<lambda>cfu d us buf n. fst (globalfifo_write_copy cfu d us buf n)) flat_out flat_in
      globalfifo_dev0 [Fifo_write [1, 2, 3] 0 3, Fifo_read [0, 0] 0 2]"
  have out: "fst (snd ?s) = [1, 2]"
    by (simp add: fifo_session_def w)
       (simp add: globalfifo_read_copy_def flat_out_def get_bytes_def fifo_contents_def Let_def)
  obtain dev' delivered accepted where s: "?s = (dev', delivered, accepted)" by (rule prod_cases3)
  moreover have "fifo_contents globalfifo_dev0 = []"
    by (simp add: fifo_contents_def globalfifo_dev0_def)
  ultimately show ?thesis
    using globalfifo_session_fifo [OF fifo_inv_dev0 copy_in_fills_flat s] out by auto
qed

text \<open>
  C36. The C standard's promise about \<open>memcpy\<close> is not enough for \<open>globalfifo_read\<close>: there is
  a \<open>memcpy\<close> that keeps it (one that copies downwards) with which reading one byte out of the
  queue 1, 2, 3 leaves 3, 3 instead of 2, 3.
\<close>

theorem globalfifo_read_needs_memmove:
  "\<exists>mc dev dev' us'. memcpy_contract mc \<and> fifo_inv dev \<and> fifo_contents dev = [1, 2, 3] \<and>
     globalfifo_read_copy mc flat_out dev [0] 0 1 = ((Inr 1, dev', us'), [Wake_writers]) \<and>
     fifo_contents dev' = [3, 3]"
proof -
  let ?dev = "\<lparr>current_len = 3, fifo_mem = [1, 2, 3] @ replicate 4093 0, async_queue = []\<rparr>"
  let ?dev' = "\<lparr>current_len = 2, fifo_mem = [3, 3, 3] @ replicate 4093 0, async_queue = []\<rparr>"
  have "copy_down ([1, 2, 3] @ replicate 4093 0) 0 (Suc 0) 2 = [3, 3, 3] @ replicate 4093 0"
    by (simp add: numeral_2_eq_2)
  then have r: "globalfifo_read_copy copy_down flat_out ?dev [0] 0 1 =
      ((Inr 1, ?dev', [1]), [Wake_writers])"
    by (simp add: globalfifo_read_copy_def flat_out_def get_bytes_def Let_def)
  have c: "fifo_inv ?dev" "fifo_contents ?dev = [1, 2, 3]" "fifo_contents ?dev' = [3, 3]"
    by (simp_all add: fifo_inv_def fifo_contents_def)
  show ?thesis using copy_down_contract r c by blast
qed

text \<open>
  C25. \<open>poll\<close> reports the queue readable exactly when a non-blocking \<open>read\<close> would not return
  \<open>EAGAIN\<close>, and writable exactly when a non-blocking \<open>write\<close> would not.
\<close>

theorem globalfifo_poll_matches_nonblock:
  assumes "f_nonblock filp"
  shows "(fst (globalfifo_poll dev) AND POLLIN \<noteq> 0 \<longleftrightarrow>
      fst (fst (globalfifo_read mc ctu sleep filp dev us buf n)) \<noteq> Inl EAGAIN) \<and>
    (fst (globalfifo_poll dev) AND POLLOUT \<noteq> 0 \<longleftrightarrow>
      fst (fst (globalfifo_write cfu sleep filp dev us buf n)) \<noteq> Inl EAGAIN)"
proof -
  have r: "fst (fst (globalfifo_read_copy mc ctu dev us buf n)) \<noteq> Inl EAGAIN"
    by (auto simp: globalfifo_read_copy_def Let_def split: prod.split)
  have w: "fst (fst (globalfifo_write_copy cfu dev us buf n)) \<noteq> Inl EAGAIN"
    by (auto simp: globalfifo_write_copy_def Let_def split: prod.split)
  show ?thesis
    using assms r w
    by (auto simp: globalfifo_poll_def globalfifo_read_def globalfifo_write_def POLLIN_def
        POLLOUT_def POLLRDNORM_def POLLWRNORM_def GLOBALFIFO_SIZE_def Let_def split: prod.split)
qed

lemma globalfifo_poll_matches_nonblock_witness:
  "fst (fst (globalfifo_read copy_up flat_out (\<lambda>d. (d, False))
     \<lparr>f_pos = 0, f_nonblock = True, private_data = Some 0\<rparr> globalfifo_dev0 [] 0 5)) = Inl EAGAIN"
  using globalfifo_poll_matches_nonblock
    [of "\<lparr>f_pos = 0, f_nonblock = True, private_data = Some 0\<rparr>" globalfifo_dev0 copy_up flat_out
      "\<lambda>d. (d, False)" "[]" 0 5]
  by (simp add: globalfifo_poll_def globalfifo_dev0_def POLLIN_def POLLOUT_def POLLWRNORM_def
      GLOBALFIFO_SIZE_def Let_def)

text \<open>
  The semaphore protects the device: no two tasks are ever both inside the handlers'
  critical sections, sleeping readers and writers included.
\<close>

theorem globalfifo_mutual_exclusion:
  assumes "lock_reach globalfifo_traces lock_init s" "touching s i" "touching s j"
  shows "i = j"
  using assms by (rule gf_sem.mutual_exclusion)

lemma globalfifo_mutual_exclusion_example:
  "\<exists>s. lock_reach globalfifo_traces lock_init s \<and> {j. touching s j} = {3}"
proof -
  let ?s = "lock_init\<lparr>pending := (pending lock_init)(3 := [Acquire, Touch, Release])\<rparr>"
  let ?t = "?s\<lparr>holder := Some 3, pending := (pending ?s)(3 := [Touch, Release])\<rparr>"
  have "snd (globalfifo_poll globalfifo_dev0) = [Acquire, Touch, Release]"
    by (simp add: globalfifo_poll_def Let_def)
  then have "\<exists>dev. [Acquire, Touch, Release] = snd (globalfifo_poll dev)" by metis
  then have "[Acquire, Touch, Release] \<in> globalfifo_traces"
    unfolding globalfifo_traces_def by (intro UnI2 CollectI)
  then have 1: "lock_step globalfifo_traces lock_init ?s"
    by (intro lock_step.begin_call) (simp_all add: lock_init_def)
  have 2: "lock_step globalfifo_traces ?s ?t"
    by (rule lock_step.acquire) (simp_all add: lock_init_def)
  have r: "lock_reach globalfifo_traces lock_init ?t"
    by (rule lock_reach.step [OF lock_reach.step [OF lock_reach.refl 1] 2])
  have t: "touching ?t 3" by (simp add: touching_def)
  show ?thesis using globalfifo_mutual_exclusion [OF r t] r t by blast
qed

text \<open>
  \<open>globalfifo_init\<close> makes the device live before it initialises the semaphore: in every
  successful load there is a moment at which the \<open>cdev\<close> has been added (if \<open>cdev_add\<close>
  succeeded) and \<open>sema_init\<close> is still to come.
\<close>

theorem globalfifo_live_before_sema_init:
  assumes "globalfifo_init k m = (Inr (), m', tr)" "cdev_add_ret k 0 = 0"
  shows "\<exists>before after. tr = before @ after \<and> live {} before = {0} \<and>
    Sema_init 1 \<notin> set before \<and> Sema_init 1 \<in> set after"
proof -
  let ?first = "if globalfifo_major m \<noteq> 0
    then Register_chrdev_region (MKDEV (globalfifo_major m) 0) 1 (register_ret k)
    else Alloc_chrdev_region 0 1 (alloc_ret k) (alloc_dev k)"
  have "tr = ([?first, Kmalloc 1 True, Cdev_init 0,
        Cdev_add 0 (MKDEV (globalfifo_major m') 0) 1 0]) @
      [Sema_init 1, Init_waitqueue_head 0, Init_waitqueue_head 1]"
    using assms
    by (auto simp: globalfifo_init_def globalfifo_setup_cdev_def Let_def split: if_splits)
  then show ?thesis by (intro exI conjI) (assumption, simp_all)
qed

lemma globalfifo_live_before_sema_init_example:
  "\<exists>before after m' tr. globalfifo_init kenv_fine globalfifo_module0 = (Inr (), m', tr) \<and>
     tr = before @ after \<and> live {} before = {0} \<and> Sema_init 1 \<in> set after"
proof -
  obtain r m' tr where i: "globalfifo_init kenv_fine globalfifo_module0 = (r, m', tr)"
    by (rule prod_cases3)
  then have "r = Inr ()"
    by (auto simp: globalfifo_init_def globalfifo_module0_def GLOBALFIFO_MAJOR_def kenv_fine_def)
  then show ?thesis
    using globalfifo_live_before_sema_init [of kenv_fine globalfifo_module0 m' tr] i
    by (auto simp: kenv_fine_def)
qed

end
