(* ===== verification/Globalfifo_Sched.thy ===== *)
theory Globalfifo_Sched
  imports Globalfifo
begin

text \<open>
  Any number of tasks using one \<open>globalfifo\<close> device. A step is one critical section of a
  handler (between \<open>down\<close> and \<open>up\<close>, which exclude each other by
  \<open>globalfifo_mutual_exclusion\<close>) or the return of a task that a signal woke. The state adds to
  the device what the handlers do with the scheduler: which call a task sleeps in, which tasks
  are in \<open>TASK_INTERRUPTIBLE\<close>, and the two wait queues. \<open>wake_up_interruptible\<close> makes every
  sleeping task on the queue runnable. \<open>remove_wait_queue\<close> unlinks the task's one wait entry from
  whichever queue it is on, although \<open>globalfifo_read\<close> names the writers' queue for an entry
  it put on the readers' queue. Three history fields record the bytes accepted and delivered since
  the last \<open>FIFO_CLEAR\<close>, and whether a read has ever called \<open>memcpy\<close> on ranges that overlap.
\<close>

datatype 'u task_phase = Outside | Reading 'u u64 u64 | Writing 'u u64 u64

record 'u fifo_sys =
  dev :: globalfifo_dev
  phase :: "nat \<Rightarrow> 'u task_phase"
  asleep :: "nat set"
  r_wait :: "nat set"
  w_wait :: "nat set"
  accepted :: "u8 list"
  delivered :: "u8 list"
  overlapped :: bool

definition fifo_sys0 :: "'u fifo_sys" where
  "fifo_sys0 = \<lparr>dev = globalfifo_dev0, phase = (\<lambda>i. Outside), asleep = {}, r_wait = {},
     w_wait = {}, accepted = [], delivered = [], overlapped = False\<rparr>"

section \<open>Steps\<close>

text \<open>Waking the queues the copying part asks for.\<close>

definition wake :: "fifo_event list \<Rightarrow> 'u fifo_sys \<Rightarrow> 'u fifo_sys" where
  "wake evs s = s\<lparr>asleep := asleep s -
     ((if Wake_readers \<in> set evs then r_wait s else {}) \<union>
      (if Wake_writers \<in> set evs then w_wait s else {}))\<rparr>"

text \<open>Going to sleep on a queue with the semaphore released, and leaving the handler.\<close>

definition sleep_reading :: "nat \<Rightarrow> 'u \<Rightarrow> u64 \<Rightarrow> u64 \<Rightarrow> 'u fifo_sys \<Rightarrow> 'u fifo_sys" where
  "sleep_reading i us buf n s =
     s\<lparr>phase := (phase s)(i := Reading us buf n), asleep := insert i (asleep s),
       r_wait := insert i (r_wait s)\<rparr>"

definition sleep_writing :: "nat \<Rightarrow> 'u \<Rightarrow> u64 \<Rightarrow> u64 \<Rightarrow> 'u fifo_sys \<Rightarrow> 'u fifo_sys" where
  "sleep_writing i us buf n s =
     s\<lparr>phase := (phase s)(i := Writing us buf n), asleep := insert i (asleep s),
       w_wait := insert i (w_wait s)\<rparr>"

definition leave :: "nat \<Rightarrow> 'u fifo_sys \<Rightarrow> 'u fifo_sys" where
  "leave i s = s\<lparr>phase := (phase s)(i := Outside), asleep := asleep s - {i},
     r_wait := r_wait s - {i}, w_wait := w_wait s - {i}\<rparr>"

text \<open>The copying parts on the whole system, with the result of the call.\<close>

definition read_section ::
  "memcpy \<Rightarrow> 'u copy_out \<Rightarrow> 'u \<Rightarrow> u64 \<Rightarrow> u64 \<Rightarrow> 'u fifo_sys \<Rightarrow> int result \<times> 'u fifo_sys" where
  "read_section mc ctu us buf n s =
     (let ((r, d, us'), evs) = globalfifo_read_copy mc ctu (dev s) us buf n;
          got = (case r of Inl e \<Rightarrow> [] | Inr k \<Rightarrow> take (nat k) (fifo_contents (dev s)));
          ov = (case r of Inl e \<Rightarrow> False | Inr k \<Rightarrow> \<not> disjoint_read (dev s) n)
      in (r, wake evs (s\<lparr>dev := d, delivered := delivered s @ got,
            overlapped := (overlapped s \<or> ov)\<rparr>)))"

definition write_section ::
  "'u copy_in \<Rightarrow> 'u \<Rightarrow> u64 \<Rightarrow> u64 \<Rightarrow> 'u fifo_sys \<Rightarrow> int result \<times> 'u fifo_sys" where
  "write_section cfu us buf n s =
     (let ((r, d), evs) = globalfifo_write_copy cfu (dev s) us buf n;
          new = (case r of Inl e \<Rightarrow> [] | Inr k \<Rightarrow> fst (cfu us buf (nat k)))
      in (r, wake evs (s\<lparr>dev := d, accepted := accepted s @ new\<rparr>)))"

text \<open>
  \<open>fifo_step mc ctu cfu s i r s'\<close>: task \<open>i\<close> moves; \<open>r\<close> is the return value if its call ends
  with the step.
\<close>

inductive fifo_step ::
  "memcpy \<Rightarrow> 'u copy_out \<Rightarrow> 'u copy_in \<Rightarrow> 'u fifo_sys \<Rightarrow> nat \<Rightarrow> int result option \<Rightarrow>
     'u fifo_sys \<Rightarrow> bool" for mc ctu cfu where
  read_now: "phase s i = Outside \<Longrightarrow> current_len (dev s) \<noteq> 0 \<Longrightarrow>
    read_section mc ctu us buf n s = (r, s') \<Longrightarrow> fifo_step mc ctu cfu s i (Some r) (leave i s')"
| read_again: "phase s i = Outside \<Longrightarrow> current_len (dev s) = 0 \<Longrightarrow>
    fifo_step mc ctu cfu s i (Some (Inl EAGAIN)) (leave i s)"
| read_sleep: "phase s i = Outside \<Longrightarrow> current_len (dev s) = 0 \<Longrightarrow>
    fifo_step mc ctu cfu s i None (sleep_reading i us buf n s)"
| read_resume: "phase s i = Reading us buf n \<Longrightarrow> i \<notin> asleep s \<Longrightarrow>
    read_section mc ctu us buf n s = (r, s') \<Longrightarrow> fifo_step mc ctu cfu s i (Some r) (leave i s')"
| read_signal: "phase s i = Reading us buf n \<Longrightarrow>
    fifo_step mc ctu cfu s i (Some (Inl ERESTARTSYS)) (leave i s)"
| write_now: "phase s i = Outside \<Longrightarrow> current_len (dev s) \<noteq> GLOBALFIFO_SIZE \<Longrightarrow>
    write_section cfu us buf n s = (r, s') \<Longrightarrow> fifo_step mc ctu cfu s i (Some r) (leave i s')"
| write_again: "phase s i = Outside \<Longrightarrow> current_len (dev s) = GLOBALFIFO_SIZE \<Longrightarrow>
    fifo_step mc ctu cfu s i (Some (Inl EAGAIN)) (leave i s)"
| write_sleep: "phase s i = Outside \<Longrightarrow> current_len (dev s) = GLOBALFIFO_SIZE \<Longrightarrow>
    fifo_step mc ctu cfu s i None (sleep_writing i us buf n s)"
| write_resume: "phase s i = Writing us buf n \<Longrightarrow> i \<notin> asleep s \<Longrightarrow>
    write_section cfu us buf n s = (r, s') \<Longrightarrow> fifo_step mc ctu cfu s i (Some r) (leave i s')"
| write_signal: "phase s i = Writing us buf n \<Longrightarrow>
    fifo_step mc ctu cfu s i (Some (Inl ERESTARTSYS)) (leave i s)"
| clear: "phase s i = Outside \<Longrightarrow>
    fifo_step mc ctu cfu s i (Some (Inr 0))
      (s\<lparr>dev := snd (fst (globalfifo_unlocked_ioctl (dev s) FIFO_CLEAR)),
         accepted := [], delivered := []\<rparr>)"

inductive fifo_reach :: "memcpy \<Rightarrow> 'u copy_out \<Rightarrow> 'u copy_in \<Rightarrow> 'u fifo_sys \<Rightarrow> bool"
  for mc ctu cfu where
  start: "fifo_reach mc ctu cfu fifo_sys0"
| move: "fifo_reach mc ctu cfu s \<Longrightarrow> fifo_step mc ctu cfu s i r s' \<Longrightarrow> fifo_reach mc ctu cfu s'"

section \<open>Who sleeps\<close>

text \<open>
  A sleeping reader is on the readers' queue and the queue is empty; a sleeping writer is on the
  writers' queue. (That the queue is full while a writer sleeps is not invariant.) This concerns
  the length only and holds whatever bytes \<open>memcpy\<close> leaves in the array.
\<close>

definition sleeper_ok :: "'u fifo_sys \<Rightarrow> nat \<Rightarrow> bool" where
  "sleeper_ok s i \<longleftrightarrow>
     (case phase s i of Outside \<Rightarrow> False
      | Reading us buf n \<Rightarrow> i \<in> r_wait s \<and> current_len (dev s) = 0
      | Writing us buf n \<Rightarrow> i \<in> w_wait s)"

definition len_inv :: "'u fifo_sys \<Rightarrow> bool" where
  "len_inv s \<longleftrightarrow> unat (current_len (dev s)) \<le> 4096 \<and> (\<forall>i\<in>asleep s. sleeper_ok s i)"

lemma leave_len:
  assumes "len_inv s"
  shows "len_inv (leave i s)"
proof -
  have "sleeper_ok (leave i s) j" if "sleeper_ok s j" "j \<noteq> i" for j
    using that by (auto simp: sleeper_ok_def leave_def split: task_phase.splits)
  then show ?thesis using assms by (auto simp: len_inv_def leave_def)
qed

lemma sleep_len:
  assumes "len_inv s" "phase s i = Outside"
  shows "current_len (dev s) = 0 \<Longrightarrow> len_inv (sleep_reading i us buf n s)"
    and "len_inv (sleep_writing i us buf n s)"
  using assms
  by (auto simp: len_inv_def sleep_reading_def sleep_writing_def sleeper_ok_def split: task_phase.splits)

lemma wake_sleepers:
  assumes "\<forall>j\<in>asleep s. sleeper_ok s j" "phase s' = phase s" "r_wait s' = r_wait s" "w_wait s' = w_wait s"
    and "asleep s' \<subseteq> asleep s" "current_len (dev s) = 0 \<Longrightarrow> current_len (dev s') = 0 \<or> asleep s' \<inter> r_wait s = {}"
  shows "\<forall>j\<in>asleep s'. sleeper_ok s' j"
  using assms by (fastforce simp: sleeper_ok_def split: task_phase.splits)

lemma read_section_len:
  assumes "len_inv s" "read_section mc ctu us buf n s = (r, s')"
  shows "len_inv s'"
proof -
  obtain r2 d us' evs where c: "globalfifo_read_copy mc ctu (dev s) us buf n = ((r2, d, us'), evs)"
    by (metis prod.exhaust)
  note l = read_copy_len [OF c]
  have s': "dev s' = d" "phase s' = phase s" "r_wait s' = r_wait s" "w_wait s' = w_wait s"
    "asleep s' \<subseteq> asleep s"
    using assms(2) c by (auto simp: read_section_def wake_def Let_def)
  have "current_len (dev s) = 0 \<Longrightarrow> current_len (dev s') = 0"
    using l s'(1) by (simp add: unat_eq_0)
  then show ?thesis
    using assms(1) wake_sleepers [of s s'] s' l by (auto simp: len_inv_def)
qed

lemma write_section_len:
  assumes "len_inv s" "write_section cfu us buf n s = (r, s')"
  shows "len_inv s'"
proof -
  obtain r2 d evs where c: "globalfifo_write_copy cfu (dev s) us buf n = ((r2, d), evs)"
    by (metis prod.exhaust)
  have l: "unat (current_len d) \<le> 4096"
    "case r2 of Inl e \<Rightarrow> current_len d = current_len (dev s) \<and> evs = [] | Inr k \<Rightarrow> Wake_readers \<in> set evs"
    using write_copy_len [OF c] assms(1) by (simp_all add: len_inv_def)
  have s': "dev s' = d" "phase s' = phase s" "r_wait s' = r_wait s" "w_wait s' = w_wait s"
    "asleep s' \<subseteq> asleep s" "Wake_readers \<in> set evs \<Longrightarrow> asleep s' \<inter> r_wait s = {}"
    using assms(2) c by (auto simp: write_section_def wake_def Let_def)
  have "current_len (dev s) = 0 \<Longrightarrow> current_len (dev s') = 0 \<or> asleep s' \<inter> r_wait s = {}"
    using l(2) s'(1,6) by (auto split: sum.splits)
  then show ?thesis
    using assms(1) wake_sleepers [of s s'] s' l(1) by (auto simp: len_inv_def)
qed

lemma fifo_step_len:
  assumes "fifo_step mc ctu cfu s i r s'" "len_inv s"
  shows "len_inv s'"
  using assms
proof (induction rule: fifo_step.induct)
  case (clear s i)
  have "sleeper_ok (s\<lparr>dev := snd (fst (globalfifo_unlocked_ioctl (dev s) FIFO_CLEAR)),
      accepted := [], delivered := []\<rparr>) j" if "sleeper_ok s j" for j
    using that
    by (auto simp: sleeper_ok_def globalfifo_unlocked_ioctl_def split: task_phase.splits)
  then show ?case using clear by (auto simp: len_inv_def globalfifo_unlocked_ioctl_def)
qed (auto intro!: leave_len sleep_len intro: read_section_len write_section_len)

lemma len_inv_start: "len_inv fifo_sys0"
  by (simp add: len_inv_def fifo_sys0_def globalfifo_dev0_def)

lemma fifo_reach_len: "fifo_reach mc ctu cfu s \<Longrightarrow> len_inv s"
  by (induction rule: fifo_reach.induct) (use len_inv_start fifo_step_len in blast)+

section \<open>What is queued\<close>

text \<open>The contents, as long as every \<open>memcpy\<close> so far did what it should.\<close>

definition fifo_sys_inv :: "'u fifo_sys \<Rightarrow> bool" where
  "fifo_sys_inv s \<longleftrightarrow> fifo_inv (dev s) \<and> accepted s = delivered s @ fifo_contents (dev s)"

definition memcpy_fits :: "memcpy \<Rightarrow> 'u fifo_sys \<Rightarrow> bool" where
  "memcpy_fits mc s \<longleftrightarrow> memcpy_ascending mc \<or> memcpy_contract mc \<and> \<not> overlapped s"

lemma fifo_sys_inv_start: "fifo_sys_inv fifo_sys0"
  by (simp add: fifo_sys_inv_def fifo_sys0_def fifo_inv_dev0)
     (simp add: fifo_contents_def globalfifo_dev0_def)

lemma fifo_sys_inv_frame [simp]:
  "fifo_sys_inv (leave i s) = fifo_sys_inv s" "fifo_sys_inv (sleep_reading i us buf n s) = fifo_sys_inv s"
  "fifo_sys_inv (sleep_writing i us buf n s) = fifo_sys_inv s" "fifo_sys_inv (wake evs s) = fifo_sys_inv s"
  "overlapped (leave i s) = overlapped s" "overlapped (sleep_reading i us buf n s) = overlapped s"
  "overlapped (sleep_writing i us buf n s) = overlapped s" "overlapped (wake evs s) = overlapped s"
  by (simp_all add: fifo_sys_inv_def leave_def sleep_reading_def sleep_writing_def wake_def)

lemma read_section_inv:
  assumes "memcpy_fits mc s'" "fifo_sys_inv s" "read_section mc ctu us buf n s = (r, s')"
  shows "fifo_sys_inv s'"
proof -
  obtain r2 d us' evs where c: "globalfifo_read_copy mc ctu (dev s) us buf n = ((r2, d, us'), evs)"
    by (metis prod.exhaust)
  have inv: "fifo_inv (dev s)" using assms(2) by (simp add: fifo_sys_inv_def)
  show ?thesis
  proof (cases r2)
    case (Inl e)
    then have "d = dev s \<and> evs = []" using read_copy_fail [of mc ctu "dev s" us buf n e d us' evs] c
      by simp
    then show ?thesis using assms(2,3) c Inl by (auto simp: read_section_def fifo_sys_inv_def wake_def Let_def)
  next
    case (Inr k)
    have s': "s' = wake evs (s\<lparr>dev := d, delivered := delivered s @ take (nat k) (fifo_contents (dev s)),
        overlapped := (overlapped s \<or> \<not> disjoint_read (dev s) n)\<rparr>)"
      using assms(3) c Inr by (simp add: read_section_def Let_def)
    have "moves_rest mc (dev s) n"
      using assms(1) unfolding s' by (auto simp: memcpy_fits_def moves_rest_def)
    then have "fifo_inv d" "fifo_contents d = drop (nat k) (fifo_contents (dev s))"
      using read_copy_ok [of mc "dev s" n ctu us buf k d us' evs] inv c Inr by simp_all
    then show ?thesis using assms(2) unfolding s' by (simp add: fifo_sys_inv_def wake_def)
  qed
qed

lemma write_section_inv:
  assumes "copy_in_fills cfu" "fifo_sys_inv s" "write_section cfu us buf n s = (r, s')"
  shows "fifo_sys_inv s'"
proof -
  obtain r2 d evs where c: "globalfifo_write_copy cfu (dev s) us buf n = ((r2, d), evs)"
    by (metis prod.exhaust)
  have inv: "fifo_inv (dev s)" using assms(2) by (simp add: fifo_sys_inv_def)
  note w = write_copy_spec [OF inv assms(1) c]
  show ?thesis
    using assms(2,3) c w by (auto simp: write_section_def fifo_sys_inv_def wake_def Let_def split: if_splits)
qed

lemma overlapped_mono: "fifo_step mc ctu cfu s i r s' \<Longrightarrow> overlapped s \<Longrightarrow> overlapped s'"
  by (induction rule: fifo_step.induct)
    (auto simp: read_section_def write_section_def Let_def split: prod.splits)

lemma fifo_step_inv:
  assumes "copy_in_fills cfu" "fifo_step mc ctu cfu s i r s'" "memcpy_fits mc s'" "fifo_sys_inv s"
  shows "fifo_sys_inv s'"
  using assms(2-4)
proof (induction rule: fifo_step.induct)
  case (clear s i)
  then show ?case
    by (auto simp: fifo_sys_inv_def globalfifo_unlocked_ioctl_def fifo_inv_def fifo_contents_def
        GLOBALFIFO_SIZE_def)
qed (auto simp: memcpy_fits_def intro: read_section_inv [unfolded memcpy_fits_def] write_section_inv [OF assms(1)])

lemma fifo_reach_inv:
  assumes "copy_in_fills cfu" "fifo_reach mc ctu cfu s" "memcpy_fits mc s"
  shows "fifo_sys_inv s"
  using assms(2,3)
proof (induction rule: fifo_reach.induct)
  case start
  show ?case by (rule fifo_sys_inv_start)
next
  case (move s i r s')
  have "memcpy_fits mc s" using move.prems overlapped_mono [OF move.hyps(2)] by (auto simp: memcpy_fits_def)
  then show ?case using fifo_step_inv [OF assms(1) move.hyps(2) move.prems] move.IH by blast
qed

section \<open>Two runs\<close>

text \<open>Task 1 fills the queue, task 2 goes to sleep writing, task 3 clears the queue.\<close>

definition dev_full :: globalfifo_dev where
  "dev_full = \<lparr>current_len = 4096, fifo_mem = replicate 4096 7, async_queue = []\<rparr>"

lemma write_full:
  "globalfifo_write_copy flat_in globalfifo_dev0 (replicate 4096 7) 0 4096 =
     ((Inr 4096, dev_full), [Wake_readers])"
  by (simp add: globalfifo_write_copy_def globalfifo_dev0_def GLOBALFIFO_SIZE_def flat_in_def
      put_bytes_def dev_full_def Let_def)

lemma full_reach:
  "\<exists>s. fifo_reach mc ctu flat_in s \<and> dev s = dev_full \<and> phase s = (\<lambda>i. Outside) \<and> asleep s = {} \<and>
     \<not> overlapped s"
proof -
  obtain r s1 where w: "write_section flat_in (replicate 4096 7) 0 4096 fifo_sys0 = (r, s1)"
    by fastforce
  have "fifo_step mc ctu flat_in fifo_sys0 1 (Some r) (leave 1 s1)"
    using w by (intro fifo_step.write_now)
      (simp_all add: fifo_sys0_def globalfifo_dev0_def GLOBALFIFO_SIZE_def)
  then have "fifo_reach mc ctu flat_in (leave 1 s1)" by (rule fifo_reach.move [OF fifo_reach.start])
  moreover have "dev s1 = dev_full \<and> phase s1 = (\<lambda>i. Outside) \<and> asleep s1 = {} \<and> \<not> overlapped s1"
    using w by (auto simp: write_section_def fifo_sys0_def write_full wake_def)
  ultimately show ?thesis by (intro exI [of _ "leave 1 s1"]) (auto simp: leave_def)
qed

text \<open>Tasks 1 and 2 go to sleep reading, task 3 writes one byte, task 1 takes it.\<close>

lemma two_readers_reach:
  "\<exists>s. fifo_reach mc ctu flat_in s \<and> dev s = globalfifo_dev0 \<and> asleep s = {1, 2} \<and>
     r_wait s = {1, 2} \<and> phase s = (\<lambda>i. Outside)(1 := Reading us 0 5, 2 := Reading us 0 5)"
proof -
  let ?s1 = "sleep_reading 1 us 0 5 fifo_sys0"
  let ?s2 = "sleep_reading 2 us 0 5 ?s1"
  have 1: "fifo_step mc ctu flat_in fifo_sys0 1 None ?s1"
    by (rule fifo_step.read_sleep) (simp_all add: fifo_sys0_def globalfifo_dev0_def)
  have 2: "fifo_step mc ctu flat_in ?s1 2 None ?s2"
    by (rule fifo_step.read_sleep)
       (simp_all add: fifo_sys0_def globalfifo_dev0_def sleep_reading_def)
  have "fifo_reach mc ctu flat_in ?s2"
    by (rule fifo_reach.move [OF fifo_reach.move [OF fifo_reach.start 1] 2])
  then show ?thesis
    by (intro exI [of _ ?s2]) (auto simp: sleep_reading_def fifo_sys0_def)
qed

definition dev_one :: globalfifo_dev where
  "dev_one = \<lparr>current_len = 1, fifo_mem = 7 # replicate 4095 0, async_queue = []\<rparr>"

lemma write_one:
  "globalfifo_write_copy flat_in globalfifo_dev0 [7] 0 1 = ((Inr 1, dev_one), [Wake_readers])"
  by (simp add: globalfifo_write_copy_def globalfifo_dev0_def GLOBALFIFO_SIZE_def flat_in_def
      put_bytes_def dev_one_def Let_def)

lemma woken_reader_reach:
  "\<exists>s. fifo_reach copy_up flat_out flat_in s \<and> current_len (dev s) = 0 \<and> 2 \<notin> asleep s \<and>
     phase s 2 = Reading [7] 0 5"
proof -
  obtain s where s: "fifo_reach copy_up flat_out flat_in s" "dev s = globalfifo_dev0"
    "asleep s = {1, 2}" "r_wait s = {1, 2}"
    "phase s = (\<lambda>i. Outside)(1 := Reading [7] 0 5, 2 := Reading [7] 0 5)"
    using two_readers_reach [of copy_up flat_out "[7]"] by blast
  obtain r s1 where w: "write_section flat_in [7] 0 1 s = (r, s1)" by fastforce
  have "fifo_step copy_up flat_out flat_in s 3 (Some r) (leave 3 s1)"
    using w s by (intro fifo_step.write_now)
      (simp_all add: globalfifo_dev0_def GLOBALFIFO_SIZE_def)
  then have r1: "fifo_reach copy_up flat_out flat_in (leave 3 s1)"
    by (rule fifo_reach.move [OF s(1)])
  have s1: "dev (leave 3 s1) = dev_one \<and> asleep (leave 3 s1) = {} \<and>
      phase (leave 3 s1) = (\<lambda>i. Outside)(1 := Reading [7] 0 5, 2 := Reading [7] 0 5)"
    using w s by (auto simp: write_section_def write_one wake_def leave_def)
  obtain q s2 where g: "read_section copy_up flat_out [7] 0 5 (leave 3 s1) = (q, s2)" by fastforce
  have "fifo_step copy_up flat_out flat_in (leave 3 s1) 1 (Some q) (leave 1 s2)"
    using g s1 by (intro fifo_step.read_resume) simp_all
  then have r2: "fifo_reach copy_up flat_out flat_in (leave 1 s2)"
    by (rule fifo_reach.move [OF r1])
  have "globalfifo_read_copy copy_up flat_out dev_one [7] 0 5 =
      ((Inr 1, \<lparr>current_len = 0, fifo_mem = 7 # replicate 4095 0, async_queue = []\<rparr>, [7]),
       [Wake_writers])"
    by (simp add: globalfifo_read_copy_def dev_one_def flat_out_def get_bytes_def Let_def)
  then have "current_len (dev (leave 1 s2)) = 0 \<and> 2 \<notin> asleep (leave 1 s2) \<and>
      phase (leave 1 s2) 2 = Reading [7] 0 5"
    using g s1 by (auto simp: read_section_def wake_def leave_def)
  then show ?thesis using r2 by blast
qed

section \<open>Properties\<close>



text \<open>With \<open>memmove\<close> in place of \<open>memcpy\<close> it would be a FIFO in all runs.\<close>

theorem globalfifo_fifo_with_memmove:
  assumes "memcpy_ascending mc" "copy_in_fills cfu" "fifo_reach mc ctu cfu s"
  shows "accepted s = delivered s @ fifo_contents (dev s)"
  using fifo_reach_inv [OF assms(2,3)] assms(1) by (simp add: memcpy_fits_def fifo_sys_inv_def)

lemma globalfifo_fifo_with_memmove_example:
  "\<exists>s. fifo_reach copy_up flat_out flat_in s \<and> accepted s = delivered s @ replicate 4096 7"
proof -
  obtain s where s: "fifo_reach copy_up flat_out flat_in s" "dev s = dev_full"
    using full_reach [of copy_up flat_out] by blast
  then show ?thesis
    using globalfifo_fifo_with_memmove [OF copy_up_ascending copy_in_fills_flat s(1)]
    by (auto simp: fifo_contents_def dev_full_def)
qed

text \<open>
  C15. No wakeup of a reader is lost: while a reader sleeps there is nothing to read, since
  every write wakes all readers inside the critical section that makes the queue non-empty. This
  holds for whatever \<open>memcpy\<close> and the copy functions do to the bytes.
\<close>

theorem globalfifo_no_lost_reader:
  assumes "fifo_reach mc ctu cfu s" "i \<in> asleep s" "phase s i = Reading us buf n"
  shows "current_len (dev s) = 0 \<and> fifo_contents (dev s) = []"
  using fifo_reach_len [OF assms(1)] assms(2,3)
  by (auto simp: len_inv_def sleeper_ok_def fifo_contents_def)

lemma globalfifo_no_lost_reader_witness:
  "\<exists>s. fifo_reach copy_down flat_out flat_in s \<and> 2 \<in> asleep s \<and> fifo_contents (dev s) = []"
proof -
  obtain s where s: "fifo_reach copy_down flat_out flat_in s" "asleep s = {1, 2}"
    "phase s = (\<lambda>i. Outside)(1 := Reading [7] 0 5, 2 := Reading [7] 0 5)"
    using two_readers_reach [of copy_down flat_out "[7]"] by blast
  then show ?thesis
    using globalfifo_no_lost_reader [OF s(1), of 2 "[7]" 0 5]
    by auto
qed

text \<open>
  C37. Wakeups of writers are lost: \<open>FIFO_CLEAR\<close> empties a full queue without waking the
  writers that wait for room, so a state is reachable in which a writer sleeps on an empty queue.
\<close>

theorem globalfifo_clear_strands_writer:
  "\<exists>s :: u8 list fifo_sys. fifo_reach copy_up flat_out flat_in s \<and> 2 \<in> asleep s \<and>
     phase s 2 = Writing [9] 0 1 \<and> fifo_contents (dev s) = []"
proof -
  obtain s where s: "fifo_reach copy_up flat_out flat_in s" "dev s = dev_full"
    "phase s = (\<lambda>i. Outside)"
    using full_reach [of copy_up flat_out] by blast
  let ?s1 = "sleep_writing 2 [9] 0 1 s"
  let ?s2 = "?s1\<lparr>dev := snd (fst (globalfifo_unlocked_ioctl (dev ?s1) FIFO_CLEAR)),
    accepted := [], delivered := []\<rparr>"
  have 1: "fifo_step copy_up flat_out flat_in s 2 None ?s1"
    using s by (intro fifo_step.write_sleep) (simp_all add: dev_full_def GLOBALFIFO_SIZE_def)
  have 2: "fifo_step copy_up flat_out flat_in ?s1 3 (Some (Inr 0)) ?s2"
    using s by (intro fifo_step.clear) (simp add: sleep_writing_def)
  have "fifo_reach copy_up flat_out flat_in ?s2"
    by (rule fifo_reach.move [OF fifo_reach.move [OF s(1) 1] 2])
  then show ?thesis
    by (intro exI [of _ ?s2])
       (simp add: sleep_writing_def fifo_contents_def globalfifo_unlocked_ioctl_def)
qed

text \<open>
  A blocking \<open>read\<close> of five bytes can return 0, which callers take for the end of the
  file: all sleeping readers are woken by one write, and the condition is not tested again after
  the sleep.
\<close>

theorem globalfifo_blocking_read_returns_zero:
  "\<exists>(s :: u8 list fifo_sys) s'. fifo_reach copy_up flat_out flat_in s \<and>
     phase s 2 = Reading [7] 0 5 \<and> fifo_step copy_up flat_out flat_in s 2 (Some (Inr 0)) s'"
proof -
  obtain s where s: "fifo_reach copy_up flat_out flat_in s" "current_len (dev s) = 0"
    "2 \<notin> asleep s" "phase s 2 = Reading [7] 0 5"
    using woken_reader_reach by blast
  obtain r s1 where g: "read_section copy_up flat_out [7] 0 5 s = (r, s1)" by fastforce
  have "fst (fst (globalfifo_read_copy copy_up flat_out (dev s) [7] 0 5)) = Inr 0"
    using s(2) by (simp add: globalfifo_read_copy_def flat_out_def get_bytes_def Let_def)
  then have "r = Inr 0"
    using g by (auto simp: read_section_def Let_def split: prod.splits)
  then have "fifo_step copy_up flat_out flat_in s 2 (Some (Inr 0)) (leave 2 s1)"
    using fifo_step.read_resume [OF s(4,3) g] by simp
  then show ?thesis using s by blast
qed

end
