(* ===== verification/Expfs_Store.thy ===== *)
theory Expfs_Store
  imports Kernel_Prelude
begin

text \<open>
  The memory of \<open>src/expfs/expfs.c\<close>: the array \<open>blks\<close> of 50 file blocks as one flat
  array of bytes, addressed from its start. The file system computes addresses of its own in
  this array (a directory keeps its entries in the block's data buffer) and copies names with
  \<open>strcpy\<close>, so what happens when an entry or a name runs over the end of its buffer depends on
  what lies behind it; with the flat array the model has that behaviour too. An access outside
  the array is \<open>None\<close>. The layout is the one of the x86-64 ABI.
\<close>

section \<open>Bytes\<close>

type_synonym store = "int \<Rightarrow> u8"

named_theorems peek_simps \<open>reading after writing\<close>

definition peek :: "store \<Rightarrow> int \<Rightarrow> nat \<Rightarrow> u8 list" where
  "peek m a n = map (\<lambda>i. m (a + int i)) [0..<n]"

definition poke :: "store \<Rightarrow> int \<Rightarrow> u8 list \<Rightarrow> store" where
  "poke m a bs = (\<lambda>x. if a \<le> x \<and> x < a + int (length bs) then bs ! nat (x - a) else m x)"

lemma length_peek [simp]: "length (peek m a n) = n"
  by (simp add: peek_def)

lemma nth_peek: "i < n \<Longrightarrow> peek m a n ! i = m (a + int i)"
  by (simp add: peek_def)

lemma peek_cong:
  "(\<And>x. a \<le> x \<Longrightarrow> x < a + int n \<Longrightarrow> m x = m' x) \<Longrightarrow> peek m a n = peek m' a n"
  by (simp add: peek_def)

lemma peek_poke_same: "length bs = n \<Longrightarrow> peek (poke m a bs) a n = bs"
  by (rule nth_equalityI) (simp_all add: nth_peek poke_def)

lemma peek_poke_other:
  "a + int n \<le> b \<or> b + int (length bs) \<le> a \<Longrightarrow> peek (poke m b bs) a n = peek m a n"
  by (rule peek_cong) (auto simp: poke_def)

lemma peek_poke_sub:
  "a \<le> b \<Longrightarrow> b + int n \<le> a + int (length bs) \<Longrightarrow>
     peek (poke m a bs) b n = take n (drop (nat (b - a)) bs)"
  by (rule nth_equalityI) (auto simp: nth_peek poke_def nat_diff_distrib' nat_add_distrib algebra_simps
      intro!: arg_cong2 [where f = nth])

lemma peek_append: "peek m a (n + k) = peek m a n @ peek m (a + int n) k"
  by (rule nth_equalityI) (auto simp: nth_peek nth_append algebra_simps)

lemma poke_outside: "x < a \<or> a + int (length bs) \<le> x \<Longrightarrow> poke m a bs x = m x"
  by (auto simp: poke_def)

section \<open>The array\<close>

definition MAX_FILE :: int where "MAX_FILE = 50"
definition BUFFER_SIZE :: int where "BUFFER_SIZE = 256"

text \<open>
  \<open>struct expfs_fileblock\<close>: \<open>used\<close>, \<open>mode\<close>, \<open>index\<close>, the union of \<open>filesize\<close> and
  \<open>dir_children\<close> (4 bytes each), then the buffer. \<open>struct expfs_direntry\<close>: 50 bytes of name, 2
  of padding, \<open>index\<close>.
\<close>

definition sizeof_fileblock :: int where "sizeof_fileblock = 272"
definition sizeof_direntry :: int where "sizeof_direntry = 56"

definition a_used :: "int \<Rightarrow> int" where "a_used i = sizeof_fileblock * i"
definition a_mode :: "int \<Rightarrow> int" where "a_mode i = sizeof_fileblock * i + 4"
definition a_index :: "int \<Rightarrow> int" where "a_index i = sizeof_fileblock * i + 8"
definition a_size :: "int \<Rightarrow> int" where "a_size i = sizeof_fileblock * i + 12"
definition a_buffer :: "int \<Rightarrow> int" where "a_buffer i = sizeof_fileblock * i + 16"

definition a_entry :: "int \<Rightarrow> int \<Rightarrow> int" where
  "a_entry i k = a_buffer i + sizeof_direntry * k"

definition a_entry_index :: "int \<Rightarrow> int \<Rightarrow> int" where
  "a_entry_index i k = a_entry i k + 52"

lemmas layout =
  a_used_def a_mode_def a_index_def a_size_def a_buffer_def a_entry_def a_entry_index_def
  sizeof_fileblock_def sizeof_direntry_def

definition in_blks :: "int \<Rightarrow> nat \<Rightarrow> bool" where
  "in_blks a n \<longleftrightarrow> 0 \<le> a \<and> a + int n \<le> sizeof_fileblock * MAX_FILE"

definition load :: "store \<Rightarrow> int \<Rightarrow> nat \<Rightarrow> u8 list option" where
  "load m a n = (if in_blks a n then Some (peek m a n) else None)"

definition store :: "store \<Rightarrow> int \<Rightarrow> u8 list \<Rightarrow> store option" where
  "store m a bs = (if in_blks a (length bs) then Some (poke m a bs) else None)"

section \<open>Integers in memory\<close>

text \<open>Little-endian, as the processor stores an \<open>int\<close>.\<close>

definition le32 :: "u32 \<Rightarrow> u8 list" where
  "le32 w = [ucast w, ucast (drop_bit 8 w), ucast (drop_bit 16 w), ucast (drop_bit 24 w)]"

definition of_le32 :: "u8 list \<Rightarrow> u32" where
  "of_le32 bs = (case bs of
     [b0, b1, b2, b3] \<Rightarrow>
       ucast b0 OR push_bit 8 (ucast b1) OR push_bit 16 (ucast b2) OR push_bit 24 (ucast b3)
   | _ \<Rightarrow> 0)"

lemma length_le32 [simp]: "length (le32 w) = 4"
  by (simp add: le32_def)

lemma of_le32_le32 [simp]: "of_le32 (le32 w) = w"
proof (rule bit_word_eqI)
  fix n
  assume "n < LENGTH(32)"
  then have "n < 32" by simp
  then consider "n < 8" | "8 \<le> n" "n < 16" | "16 \<le> n" "n < 24" | "24 \<le> n" "n < 32" by linarith
  then show "bit (of_le32 (le32 w)) n = bit w n"
    by cases (auto simp: of_le32_def le32_def bit_simps)
qed

definition load32 :: "store \<Rightarrow> int \<Rightarrow> u32 option" where
  "load32 m a = map_option of_le32 (load m a 4)"

definition store32 :: "store \<Rightarrow> int \<Rightarrow> u32 \<Rightarrow> store option" where
  "store32 m a w = store m a (le32 w)"

text \<open>The values themselves, for statements about a store.\<close>

definition get32 :: "store \<Rightarrow> int \<Rightarrow> u32" where
  "get32 m a = of_le32 (peek m a 4)"

definition put32 :: "store \<Rightarrow> int \<Rightarrow> u32 \<Rightarrow> store" where
  "put32 m a w = poke m a (le32 w)"

lemma load32_get: "in_blks a 4 \<Longrightarrow> load32 m a = Some (get32 m a)"
  by (simp add: load32_def load_def get32_def)

lemma store32_put: "in_blks a 4 \<Longrightarrow> store32 m a w = Some (put32 m a w)"
  by (simp add: store32_def store_def put32_def)

lemma get32_put32_same [peek_simps]: "get32 (put32 m a w) a = w"
  by (simp add: get32_def put32_def peek_poke_same)

lemma get32_put32_other:
  "a + 4 \<le> b \<or> b + 4 \<le> a \<Longrightarrow> get32 (put32 m b w) a = get32 m a"
  by (simp add: get32_def put32_def peek_poke_other)

lemma get32_poke_other:
  "a + 4 \<le> b \<or> b + int (length bs) \<le> a \<Longrightarrow> get32 (poke m b bs) a = get32 m a"
  by (simp add: get32_def peek_poke_other)

lemma peek_put32_other:
  "a + int n \<le> b \<or> b + 4 \<le> a \<Longrightarrow> peek (put32 m b w) a n = peek m a n"
  by (simp add: put32_def peek_poke_other)

section \<open>C strings\<close>

text \<open>
  A C string argument is its bytes without the terminating zero. \<open>strcmp_eq m a s\<close> is
  \<open>!strcmp (m + a, s)\<close>: it reads up to the first difference or the zero byte.
\<close>

definition c_string :: "u8 list \<Rightarrow> bool" where
  "c_string s \<longleftrightarrow> 0 \<notin> set s"

fun strcmp_eq :: "store \<Rightarrow> int \<Rightarrow> u8 list \<Rightarrow> bool option" where
  "strcmp_eq m a [] = (if in_blks a 1 then Some (m a = 0) else None)"
| "strcmp_eq m a (c # s) =
     (if in_blks a 1 then if m a = c then strcmp_eq m (a + 1) s else Some False else None)"

definition strcpy :: "store \<Rightarrow> int \<Rightarrow> u8 list \<Rightarrow> store option" where
  "strcpy m a s = store m a (s @ [0])"

text \<open>The name an entry holds, if it is terminated within its 50 bytes.\<close>

definition cname :: "store \<Rightarrow> int \<Rightarrow> u8 list" where
  "cname m a = takeWhile (\<lambda>c. c \<noteq> 0) (peek m a 50)"

definition terminated :: "store \<Rightarrow> int \<Rightarrow> bool" where
  "terminated m a \<longleftrightarrow> 0 \<in> set (peek m a 50)"

lemma peek_Suc: "peek m a (Suc n) = m a # peek m (a + 1) n"
  using peek_append [of m a 1 n] by (simp add: peek_def)

lemma strcmp_eq_peek:
  assumes "in_blks a n" "0 \<in> set (peek m a n)" "c_string s"
  shows "strcmp_eq m a s = Some (takeWhile (\<lambda>c. c \<noteq> 0) (peek m a n) = s)"
  using assms
proof (induction n arbitrary: a s)
  case 0
  then show ?case by (simp add: peek_def)
next
  case (Suc n)
  have b: "in_blks a 1" using Suc.prems(1) by (auto simp: in_blks_def)
  show ?case
  proof (cases s)
    case Nil
    then show ?thesis using b by (simp add: peek_Suc)
  next
    case (Cons c t)
    show ?thesis
    proof (cases "m a = c")
      case True
      then have "m a \<noteq> 0" "c_string t" using Suc.prems(3) Cons by (auto simp: c_string_def)
      moreover have "in_blks (a + 1) n" using Suc.prems(1) by (auto simp: in_blks_def)
      ultimately show ?thesis
        using Suc.IH [of "a + 1" t] Suc.prems(2) b Cons True by (simp add: peek_Suc)
    next
      case False
      then show ?thesis using b Cons by (auto simp: peek_Suc)
    qed
  qed
qed

lemma strcmp_eq_cname:
  "in_blks a 50 \<Longrightarrow> terminated m a \<Longrightarrow> c_string s \<Longrightarrow> strcmp_eq m a s = Some (cname m a = s)"
  unfolding terminated_def cname_def by (rule strcmp_eq_peek)

lemma cname_strcpy:
  assumes "c_string s" "length s < 50"
  shows "cname (poke m a (s @ [0])) a = s" "terminated (poke m a (s @ [0])) a"
proof -
  let ?m = "poke m a (s @ [0])"
  have "peek ?m a (length (s @ [0])) = s @ [0]" by (rule peek_poke_same) simp
  moreover have "50 = length (s @ [0]) + (49 - length s)" using assms(2) by simp
  ultimately have p: "peek ?m a 50 = (s @ [0]) @ peek ?m (a + int (length (s @ [0]))) (49 - length s)"
    by (metis peek_append)
  show "cname ?m a = s"
    unfolding cname_def p append_assoc using assms(1)
    by (subst takeWhile_append2) (auto simp: c_string_def)
  show "terminated ?m a" by (simp add: terminated_def p)
qed

lemma cname_cong: "peek m a 50 = peek m' b 50 \<Longrightarrow> cname m a = cname m' b"
  by (simp add: cname_def)

lemma terminated_cong: "peek m a 50 = peek m' b 50 \<Longrightarrow> terminated m a = terminated m' b"
  by (simp add: terminated_def)

end
