(* ===== verification/Expfs.thy ===== *)
theory Expfs
  imports Expfs_Store Locking
begin

text \<open>
  The in-memory file system \<open>src/expfs/expfs.c\<close>: block allocation, the directory and file
  operations, the inode operations, mounting. A handler gives \<open>None\<close> when the C code would
  access memory outside the block array, dereference a null pointer or use an uninitialised
  variable; otherwise its results, the new state and what it does with \<open>expfs_lock\<close>
  (\<open>Touch\<close> where it accesses the blocks). Kernel functions are parameters: whether
  \<open>new_inode\<close> delivers an inode, and what \<open>simple_rmdir\<close>, \<open>simple_unlink\<close> and
  \<open>simple_rename\<close> return. Log messages, time stamps and owners are left out.
\<close>

section \<open>State\<close>

record expfs =
  blks :: store
  usedBlks :: int

text \<open>The operation tables an inode's \<open>i_fop\<close> may point to.\<close>

datatype fop = Expfs_fops | Expfs_dir_fops | No_fops

text \<open>\<open>i_private\<close> is the number of the block the pointer points to.\<close>

record inode =
  i_ino :: u64
  i_private :: int
  i_fop :: fop

record dentry =
  d_name :: "u8 list"
  d_inode :: "inode option"

text \<open>The file types in a mode, as in the C library's \<open>sys/stat.h\<close>.\<close>

definition S_IFMT :: u32 where "S_IFMT = 0xF000"
definition S_IFDIR :: u32 where "S_IFDIR = 0x4000"
definition S_IFREG :: u32 where "S_IFREG = 0x8000"
definition S_IFLNK :: u32 where "S_IFLNK = 0xA000"

definition S_ISDIR :: "u32 \<Rightarrow> bool" where "S_ISDIR m \<longleftrightarrow> m AND S_IFMT = S_IFDIR"
definition S_ISREG :: "u32 \<Rightarrow> bool" where "S_ISREG m \<longleftrightarrow> m AND S_IFMT = S_IFREG"
definition S_ISLNK :: "u32 \<Rightarrow> bool" where "S_ISLNK m \<longleftrightarrow> m AND S_IFMT = S_IFLNK"

section \<open>Blocks and inodes\<close>

text \<open>The loop of \<open>getblock\<close>, from block \<open>i\<close> with \<open>k\<close> blocks to go.\<close>

fun getblock_loop :: "store \<Rightarrow> int \<Rightarrow> nat \<Rightarrow> (int \<times> store) option" where
  "getblock_loop m i 0 = Some (-1, m)"
| "getblock_loop m i (Suc k) =
     do { used \<leftarrow> load32 m (a_used i);
          if used = 0 then do { m \<leftarrow> store32 m (a_used i) 1; Some (i, m) }
          else getblock_loop m (i + 1) k }"

definition getblock :: "store \<Rightarrow> (int \<times> store) option" where
  "getblock m = getblock_loop m 2 (nat (MAX_FILE - 2))"

definition expfs_geti :: "bool \<Rightarrow> store \<Rightarrow> int \<Rightarrow> inode option" where
  "expfs_geti new_inode_ok m index =
     (if \<not> new_inode_ok then None
      else do {
        mode \<leftarrow> load32 m (a_mode index);
        Some \<lparr>i_ino = word_of_int index, i_private = index,
          i_fop = (if S_ISDIR mode then Expfs_dir_fops
                   else if S_ISREG mode then Expfs_fops else No_fops)\<rparr> })"

section \<open>Directory file operations\<close>

text \<open>
  The emitting loop of \<open>expfs_iterate\<close>, from entry \<open>i\<close> with \<open>k\<close> to go: the names (all 50
  bytes) and block numbers handed to \<open>dir_emit\<close>.
\<close>

fun emit_loop :: "store \<Rightarrow> int \<Rightarrow> int \<Rightarrow> nat \<Rightarrow> (u8 list \<times> u32) list option" where
  "emit_loop m b i 0 = Some []"
| "emit_loop m b i (Suc k) =
     do { name \<leftarrow> load m (a_entry b i) 50;
          index \<leftarrow> load32 m (a_entry_index b i);
          rest \<leftarrow> emit_loop m b (i + 1) k;
          Some ((name, index) # rest) }"

text \<open>The result, the new \<open>f_pos\<close>, what was emitted, and the lock trace.\<close>

definition expfs_iterate ::
  "expfs \<Rightarrow> inode \<Rightarrow> u64 \<Rightarrow>
     (int result \<times> u64 \<times> (u8 list \<times> u32) list \<times> lock_event list) option" where
  "expfs_iterate s inode pos =
     (if pos \<noteq> 0 then Some (Inr 0, pos, [], [Acquire])
      else do {
        let b = i_private inode;
        mode \<leftarrow> load32 (blks s) (a_mode b);
        if \<not> S_ISDIR mode then Some (Inl ENOTDIR, pos, [], [Acquire, Touch])
        else do {
          children \<leftarrow> load32 (blks s) (a_size b);
          es \<leftarrow> emit_loop (blks s) b 0 (nat (sint children));
          let pos = pos + of_nat (length es) * word_of_int sizeof_direntry;
          Some (Inr 0, pos, es, [Acquire, Touch, Release]) } })"

section \<open>File operations\<close>

text \<open>The result, the new \<open>*ppos\<close>, the user memory, and the lock trace.\<close>

definition expfs_read ::
  "'u copy_out \<Rightarrow> expfs \<Rightarrow> inode \<Rightarrow> 'u \<Rightarrow> u64 \<Rightarrow> u64 \<Rightarrow> u64 \<Rightarrow>
     (int result \<times> u64 \<times> 'u \<times> lock_event list) option" where
  "expfs_read copy_to_user s inode us buf len ppos =
     do {
       let b = i_private inode;
       filesize \<leftarrow> load32 (blks s) (a_size b);
       if sint ppos \<ge> sint filesize then Some (Inr 0, ppos, us, [Acquire, Touch])
       else do {
         let len = min (scast filesize) len;
         bytes \<leftarrow> load (blks s) (a_buffer b) (unat len);
         let (us, left) = copy_to_user us buf bytes;
         if left \<noteq> 0 then Some (Inl EFAULT, ppos, us, [Acquire, Touch])
         else Some (Inr (sint len), ppos + len, us, [Acquire, Touch, Release]) } }"

definition expfs_write ::
  "'u copy_in \<Rightarrow> expfs \<Rightarrow> inode \<Rightarrow> 'u \<Rightarrow> u64 \<Rightarrow> u64 \<Rightarrow> u64 \<Rightarrow>
     (int result \<times> u64 \<times> expfs \<times> lock_event list) option" where
  "expfs_write copy_from_user s inode us buf len ppos =
     (let p = ppos; count = ucast len :: u32; b = i_private inode in
      if p \<ge> 256 then Some (if count \<noteq> 0 then Inl ENXIO else Inr 0, ppos, s, [Acquire])
      else
        let count = clip_count 256 p count;
            (bytes, left) = copy_from_user us buf (unat count)
        in do {
          m \<leftarrow> store (blks s) (a_buffer b + int (unat p)) bytes;
          if left \<noteq> 0 then Some (Inl EFAULT, ppos, s\<lparr>blks := m\<rparr>, [Acquire, Touch, Release])
          else do {
            let ppos = ppos + ucast count;
            m \<leftarrow> store32 m (a_size b) (ucast ppos);
            Some (Inr (sint count), ppos, s\<lparr>blks := m\<rparr>, [Acquire, Touch, Release]) } })"

definition expfs_llseek :: "u64 \<Rightarrow> u64 \<Rightarrow> int \<Rightarrow> int result \<times> u64" where
  "expfs_llseek pos offset orig =
     (if orig = 0 then
        if sint offset < 0 \<or> sint offset > BUFFER_SIZE then (Inl EINVAL, pos)
        else let pos = offset in (Inr (sint pos), pos)
      else if orig = 1 then
        if sint (pos + offset) > BUFFER_SIZE \<or> sint (pos + offset) < 0 then (Inl EINVAL, pos)
        else let pos = pos + offset in (Inr (sint pos), pos)
      else (Inl EINVAL, pos))"

text \<open>
  The tables \<open>struct file_operations\<close> of the two kinds of inodes; a missing entry is \<open>None\<close>.
\<close>

record 'u file_operations =
  fop_read :: "('u copy_out \<Rightarrow> expfs \<Rightarrow> inode \<Rightarrow> 'u \<Rightarrow> u64 \<Rightarrow> u64 \<Rightarrow> u64 \<Rightarrow>
     (int result \<times> u64 \<times> 'u \<times> lock_event list) option) option"
  fop_write :: "('u copy_in \<Rightarrow> expfs \<Rightarrow> inode \<Rightarrow> 'u \<Rightarrow> u64 \<Rightarrow> u64 \<Rightarrow> u64 \<Rightarrow>
     (int result \<times> u64 \<times> expfs \<times> lock_event list) option) option"
  fop_llseek :: "(u64 \<Rightarrow> u64 \<Rightarrow> int \<Rightarrow> int result \<times> u64) option"
  fop_iterate :: "(expfs \<Rightarrow> inode \<Rightarrow> u64 \<Rightarrow>
     (int result \<times> u64 \<times> (u8 list \<times> u32) list \<times> lock_event list) option) option"

definition expfs_dir_fops :: "'u file_operations" where
  "expfs_dir_fops = \<lparr>fop_read = None, fop_write = None, fop_llseek = None,
     fop_iterate = Some expfs_iterate\<rparr>"

definition expfs_fops :: "'u file_operations" where
  "expfs_fops = \<lparr>fop_read = Some expfs_read, fop_write = Some expfs_write,
     fop_llseek = Some expfs_llseek, fop_iterate = None\<rparr>"

text \<open>The table \<open>i_fop\<close> points to; a new inode has the kernel's empty one.\<close>

fun fop_table :: "fop \<Rightarrow> 'u file_operations" where
  "fop_table Expfs_fops = expfs_fops"
| "fop_table Expfs_dir_fops = expfs_dir_fops"
| "fop_table No_fops = \<lparr>fop_read = None, fop_write = None, fop_llseek = None, fop_iterate = None\<rparr>"

section \<open>Directory entries\<close>

text \<open>
  The search \<open>for (i = 0; i < dir_children; i++) if (!strcmp (entry[i].name, name)) ...\<close>, from
  entry \<open>i\<close> with \<open>k\<close> to go; \<open>Some None\<close> when it runs to the end.
\<close>

fun find_entry :: "store \<Rightarrow> int \<Rightarrow> u8 list \<Rightarrow> int \<Rightarrow> nat \<Rightarrow> int option option" where
  "find_entry m b name i 0 = Some None"
| "find_entry m b name i (Suc k) =
     do { eq \<leftarrow> strcmp_eq m (a_entry b i) name;
          if eq then Some (Some i) else find_entry m b name (i + 1) k }"

text \<open>The loop that moves the entries behind the erased one down, from \<open>j\<close> with \<open>k\<close> to go.\<close>

fun shift_entries :: "store \<Rightarrow> int \<Rightarrow> int \<Rightarrow> nat \<Rightarrow> store option" where
  "shift_entries m b j 0 = Some m"
| "shift_entries m b j (Suc k) =
     do { e \<leftarrow> load m (a_entry b (j + 1)) 56;
          m \<leftarrow> store m (a_entry b j) e;
          shift_entries m b (j + 1) k }"

text \<open>
  The erasing loop of \<open>rmdir\<close>, \<open>unlink\<close> and \<open>rename\<close>: find the name, close the gap, decrement
  \<open>dir_children\<close>. Besides the store, the position at which the name was found.
\<close>

definition erase_entry :: "store \<Rightarrow> int \<Rightarrow> u8 list \<Rightarrow> (int option \<times> store) option" where
  "erase_entry m b name =
     do { children \<leftarrow> load32 m (a_size b);
          found \<leftarrow> find_entry m b name 0 (nat (sint children));
          case found of
            None \<Rightarrow> Some (None, m)
          | Some i \<Rightarrow>
              do { m \<leftarrow> shift_entries m b i (nat (sint children - 1 - i));
                   m \<leftarrow> store32 m (a_size b) (children - 1);
                   Some (Some i, m) } }"

text \<open>The code that appends an entry, in \<open>expfs_do_create\<close> and \<open>expfs_rename\<close>.\<close>

definition append_entry :: "store \<Rightarrow> int \<Rightarrow> u8 list \<Rightarrow> u32 \<Rightarrow> store option" where
  "append_entry m b name index =
     do { children \<leftarrow> load32 m (a_size b);
          let k = sint children;
          m \<leftarrow> store32 m (a_size b) (children + 1);
          m \<leftarrow> store32 m (a_entry_index b k) index;
          strcpy m (a_entry b k) name }"

section \<open>Inode operations\<close>

text \<open>The result, the inode attached to the dentry, the new state, and the lock trace.\<close>

definition expfs_do_create ::
  "bool \<Rightarrow> expfs \<Rightarrow> inode \<Rightarrow> dentry \<Rightarrow> u16 \<Rightarrow>
     (unit result \<times> inode option \<times> expfs \<times> lock_event list) option" where
  "expfs_do_create new_inode_ok s dir dentry mode =
     (let mode = ucast mode :: u32 in
      if usedBlks s \<ge> MAX_FILE then Some (Inl EINVAL, None, s, [])
      else if \<not> S_ISDIR mode \<and> \<not> S_ISREG mode \<and> \<not> S_ISLNK mode
      then Some (Inl EINVAL, None, s, [])
      else if \<not> new_inode_ok then Some (Inl ENOMEM, None, s, [])
      else do {
        (idx, m) \<leftarrow> getblock (blks s);
        m \<leftarrow> store32 m (a_index idx) (word_of_int idx);
        m \<leftarrow> store32 m (a_mode idx) mode;
        m \<leftarrow> store32 m (a_used idx) 1;
        let usedBlks = usedBlks s + 1;
        m \<leftarrow> (if S_ISDIR mode \<or> S_ISREG mode then store32 m (a_size idx) 0 else Some m);
        let fop = (if S_ISDIR mode then Expfs_dir_fops
                   else if S_ISREG mode then Expfs_fops else No_fops);
        let inode = \<lparr>i_ino = word_of_int idx, i_private = idx, i_fop = fop\<rparr>;
        m \<leftarrow> append_entry m (i_private dir) (d_name dentry) (word_of_int idx);
        Some (Inr (), Some inode, \<lparr>blks = m, usedBlks = usedBlks\<rparr>,
          [Acquire, Touch, Release]) })"

text \<open>
  \<open>expfs_lookup\<close> always returns NULL; its effect is the inode it attaches to the dentry. It
  does not take the lock.
\<close>

definition expfs_lookup ::
  "bool \<Rightarrow> expfs \<Rightarrow> inode \<Rightarrow> u8 list \<Rightarrow> (inode option \<times> lock_event list) option" where
  "expfs_lookup new_inode_ok s parent_inode name =
     do {
       let b = i_private parent_inode;
       children \<leftarrow> load32 (blks s) (a_size b);
       found \<leftarrow> find_entry (blks s) b name 0 (nat (sint children));
       case found of
         None \<Rightarrow> Some (None, [Touch])
       | Some i \<Rightarrow>
           do { index \<leftarrow> load32 (blks s) (a_entry_index b i);
                inode \<leftarrow> expfs_geti new_inode_ok (blks s) (sint index);
                Some (Some inode, [Touch]) } }"

definition expfs_create ::
  "bool \<Rightarrow> expfs \<Rightarrow> inode \<Rightarrow> dentry \<Rightarrow> u16 \<Rightarrow> bool \<Rightarrow>
     (unit result \<times> inode option \<times> expfs \<times> lock_event list) option" where
  "expfs_create new_inode_ok s dir dentry mode excl =
     expfs_do_create new_inode_ok s dir dentry mode"

definition expfs_mkdir ::
  "bool \<Rightarrow> expfs \<Rightarrow> inode \<Rightarrow> dentry \<Rightarrow> u16 \<Rightarrow>
     (unit result \<times> inode option \<times> expfs \<times> lock_event list) option" where
  "expfs_mkdir new_inode_ok s dir dentry mode =
     expfs_do_create new_inode_ok s dir dentry (ucast S_IFDIR OR mode)"

text \<open>The return value of a kernel function that the handler passes on.\<close>

definition pass_on :: "int \<Rightarrow> int result" where
  "pass_on r = (if r < 0 then Inl (Code r) else Inr r)"

definition expfs_rmdir ::
  "int \<Rightarrow> expfs \<Rightarrow> inode \<Rightarrow> dentry \<Rightarrow> (int result \<times> expfs \<times> lock_event list) option" where
  "expfs_rmdir simple_rmdir_ret s dir dentry =
     (case d_inode dentry of
        None \<Rightarrow> None
      | Some inode \<Rightarrow>
          do {
            let b = i_private inode;
            let p = i_private dir;
            mode \<leftarrow> load32 (blks s) (a_mode b);
            children \<leftarrow> load32 (blks s) (a_size b);
            if S_ISDIR mode \<and> children = 0 then
              do {
                m \<leftarrow> store32 (blks s) (a_used b) 0;
                (_, m) \<leftarrow> erase_entry m p (d_name dentry);
                Some (pass_on simple_rmdir_ret, s\<lparr>blks := m\<rparr>, [Acquire, Touch, Release]) }
            else Some (Inl ENOTEMPTY, s, [Acquire, Touch, Release]) })"

definition expfs_unlink ::
  "int \<Rightarrow> expfs \<Rightarrow> inode \<Rightarrow> dentry \<Rightarrow> (int result \<times> expfs \<times> lock_event list) option" where
  "expfs_unlink simple_unlink_ret s dir dentry =
     (case d_inode dentry of
        None \<Rightarrow> None
      | Some inode \<Rightarrow>
          do {
            let b = i_private inode;
            let p = i_private dir;
            (_, m) \<leftarrow> erase_entry (blks s) p (d_name dentry);
            m \<leftarrow> store32 m (a_used b) 0;
            Some (pass_on simple_unlink_ret, s\<lparr>blks := m\<rparr>, [Acquire, Touch, Release]) })"

text \<open>
  In \<open>expfs_rename\<close> the inode of the moved entry is looked up when the entry is found; if it is
  not found, \<open>curr\<close> is used uninitialised.
\<close>

definition expfs_rename ::
  "bool \<Rightarrow> int \<Rightarrow> expfs \<Rightarrow> inode \<Rightarrow> dentry \<Rightarrow> inode \<Rightarrow> dentry \<Rightarrow>
     (int result \<times> expfs \<times> lock_event list) option" where
  "expfs_rename new_inode_ok simple_rename_ret s old_dir old_dentry new_dir new_dentry =
     do {
       let old_b = i_private old_dir;
       let new_b = i_private new_dir;
       (found, m) \<leftarrow> erase_entry (blks s) old_b (d_name old_dentry);
       i \<leftarrow> found;
       index \<leftarrow> load32 (blks s) (a_entry_index old_b i);
       curr \<leftarrow> expfs_geti new_inode_ok (blks s) (sint index);
       m \<leftarrow> append_entry m new_b (d_name new_dentry) (ucast (i_ino curr));
       Some (pass_on simple_rename_ret, s\<lparr>blks := m\<rparr>, [Acquire, Touch, Release]) }"

text \<open>
  \<open>expfs_symlink\<close> returns at once when \<open>expfs_do_create\<close> \<^emph>\<open>succeeded\<close>; the code that stores
  the target is reached only when it failed.
\<close>

definition expfs_symlink ::
  "bool \<Rightarrow> expfs \<Rightarrow> inode \<Rightarrow> dentry \<Rightarrow> u8 list \<Rightarrow>
     (int result \<times> inode option \<times> expfs \<times> lock_event list) option" where
  "expfs_symlink new_inode_ok s dir dentry symname =
     do {
       (ret, inode, s, tr) \<leftarrow> expfs_do_create new_inode_ok s dir dentry (ucast S_IFLNK);
       case ret of
         Inr _ \<Rightarrow> Some (Inr 0, inode, s, tr)
       | Inl e \<Rightarrow>
           do {
             let b = i_private dir;
             children \<leftarrow> load32 (blks s) (a_size b);
             found \<leftarrow> find_entry (blks s) b (d_name dentry) 0 (nat (sint children));
             i \<leftarrow> found;
             index \<leftarrow> load32 (blks s) (a_entry_index b i);
             curr \<leftarrow> expfs_geti new_inode_ok (blks s) (sint index);
             m \<leftarrow> strcpy (blks s) (a_buffer (i_private curr)) symname;
             Some (Inr 0, inode, s\<lparr>blks := m\<rparr>, tr @ [Touch]) } }"

text \<open>The table \<open>struct inode_operations\<close> of every inode.\<close>

record inode_operations =
  iop_create :: "bool \<Rightarrow> expfs \<Rightarrow> inode \<Rightarrow> dentry \<Rightarrow> u16 \<Rightarrow> bool \<Rightarrow>
     (unit result \<times> inode option \<times> expfs \<times> lock_event list) option"
  iop_mkdir :: "bool \<Rightarrow> expfs \<Rightarrow> inode \<Rightarrow> dentry \<Rightarrow> u16 \<Rightarrow>
     (unit result \<times> inode option \<times> expfs \<times> lock_event list) option"
  iop_rmdir :: "int \<Rightarrow> expfs \<Rightarrow> inode \<Rightarrow> dentry \<Rightarrow> (int result \<times> expfs \<times> lock_event list) option"
  iop_lookup :: "bool \<Rightarrow> expfs \<Rightarrow> inode \<Rightarrow> u8 list \<Rightarrow> (inode option \<times> lock_event list) option"
  iop_unlink :: "int \<Rightarrow> expfs \<Rightarrow> inode \<Rightarrow> dentry \<Rightarrow> (int result \<times> expfs \<times> lock_event list) option"
  iop_rename :: "bool \<Rightarrow> int \<Rightarrow> expfs \<Rightarrow> inode \<Rightarrow> dentry \<Rightarrow> inode \<Rightarrow> dentry \<Rightarrow>
     (int result \<times> expfs \<times> lock_event list) option"
  iop_symlink :: "bool \<Rightarrow> expfs \<Rightarrow> inode \<Rightarrow> dentry \<Rightarrow> u8 list \<Rightarrow>
     (int result \<times> inode option \<times> expfs \<times> lock_event list) option"

definition expfs_iops :: inode_operations where
  "expfs_iops = \<lparr>iop_create = expfs_create, iop_mkdir = expfs_mkdir, iop_rmdir = expfs_rmdir,
     iop_lookup = expfs_lookup, iop_unlink = expfs_unlink, iop_rename = expfs_rename,
     iop_symlink = expfs_symlink\<rparr>"

section \<open>Mounting and loading\<close>

definition expfs_fill_super :: "bool \<Rightarrow> expfs \<Rightarrow> (inode \<times> expfs) option" where
  "expfs_fill_super new_inode_ok s =
     (if \<not> new_inode_ok then None
      else do {
        m \<leftarrow> store32 (blks s) (a_mode 1) S_IFDIR;
        m \<leftarrow> store32 m (a_size 1) 0;
        m \<leftarrow> store32 m (a_index 1) 1;
        m \<leftarrow> store32 m (a_used 1) 1;
        Some (\<lparr>i_ino = 1, i_private = 1, i_fop = Expfs_dir_fops\<rparr>,
          \<lparr>blks = m, usedBlks = usedBlks s + 1\<rparr>) })"

text \<open>
  \<open>expfs_init\<close>: the blocks are allocated and cleared (a failed \<open>vmalloc\<close> is not noticed) and
  the file system type registered; the value of \<open>register_filesystem\<close> is returned.
\<close>

definition expfs_init :: "bool \<Rightarrow> int \<Rightarrow> (int result \<times> expfs) option" where
  "expfs_init vmalloc_ok register_ret =
     (if \<not> vmalloc_ok then None
      else Some (pass_on register_ret, \<lparr>blks = (\<lambda>x. 0), usedBlks = 0\<rparr>))"

text \<open>
  \<open>expfs_mount\<close>: \<open>mount_nodev\<close> of the kernel allocates a superblock and calls the function it is
  given to fill it. It is the parameter; its last two arguments are that function and the
  state it changes.
\<close>

definition expfs_mount ::
  "((expfs \<Rightarrow> (inode \<times> expfs) option) \<Rightarrow> expfs \<Rightarrow> 'r) \<Rightarrow> bool \<Rightarrow> expfs \<Rightarrow> 'r" where
  "expfs_mount mount_nodev new_inode_ok s = mount_nodev (expfs_fill_super new_inode_ok) s"

text \<open>
  \<open>expfs_kill_sb\<close> only calls the kernel's \<open>kill_anon_super\<close>, a parameter, and \<open>expfs_exit\<close>
  unregisters the file system type: neither touches the blocks, which are not freed.
\<close>

definition expfs_kill_sb :: "('k \<Rightarrow> 'k) \<Rightarrow> 'k \<times> expfs \<Rightarrow> 'k \<times> expfs" where
  "expfs_kill_sb kill_anon_super ks = (kill_anon_super (fst ks), snd ks)"

text \<open>The file system type, whose functions the kernel calls to mount and unmount.\<close>

record ('r, 'k) file_system_type =
  fs_name :: string
  fs_mount :: "((expfs \<Rightarrow> (inode \<times> expfs) option) \<Rightarrow> expfs \<Rightarrow> 'r) \<Rightarrow> bool \<Rightarrow> expfs \<Rightarrow> 'r"
  fs_kill_sb :: "('k \<Rightarrow> 'k) \<Rightarrow> 'k \<times> expfs \<Rightarrow> 'k \<times> expfs"

definition expfs_type :: "('r, 'k) file_system_type" where
  "expfs_type = \<lparr>fs_name = ''expfs'', fs_mount = expfs_mount, fs_kill_sb = expfs_kill_sb\<rparr>"

definition expfs_exit :: "('k \<Rightarrow> 'k) \<Rightarrow> 'k \<times> expfs \<Rightarrow> 'k \<times> expfs" where
  "expfs_exit unregister_filesystem ks = (unregister_filesystem (fst ks), snd ks)"

end
