(* ===== verification/Expfs_Dir.thy ===== *)
theory Expfs_Dir
  imports Expfs
begin

text \<open>
  Directories of \<open>expfs\<close> abstractly: the entries of a directory block as an association list
  from names to block numbers. Searching, erasing and appending on the flat memory are shown to
  be lookup, removal of the first occurrence and appending on that list, as long as the
  directory holds at most four entries, which is what fits into its buffer.
\<close>

section \<open>Addresses\<close>

definition valid_blk :: "int \<Rightarrow> bool" where
  "valid_blk i \<longleftrightarrow> 0 \<le> i \<and> i < MAX_FILE"

lemma in_blks_fields [simp]:
  assumes "valid_blk i"
  shows "in_blks (a_used i) 4" "in_blks (a_mode i) 4" "in_blks (a_index i) 4" "in_blks (a_size i) 4"
  using assms by (auto simp: valid_blk_def in_blks_def layout MAX_FILE_def)

lemma in_blks_buffer:
  "valid_blk i \<Longrightarrow> 0 \<le> d \<Longrightarrow> d + int n \<le> 256 \<Longrightarrow> in_blks (a_buffer i + d) n"
  by (auto simp: valid_blk_def in_blks_def layout MAX_FILE_def)

lemma in_blks_entry:
  "valid_blk i \<Longrightarrow> 0 \<le> k \<Longrightarrow> k < 4 \<Longrightarrow> n \<le> 56 \<Longrightarrow> in_blks (a_entry i k) n"
  by (auto simp: valid_blk_def in_blks_def layout MAX_FILE_def)

lemma in_blks_entry_index:
  "valid_blk i \<Longrightarrow> 0 \<le> k \<Longrightarrow> k < 4 \<Longrightarrow> in_blks (a_entry_index i k) 4"
  by (auto simp: valid_blk_def in_blks_def layout MAX_FILE_def)

text \<open>\<open>same_except p m m'\<close>: nothing outside block \<open>p\<close> differs.\<close>

definition same_except :: "int \<Rightarrow> store \<Rightarrow> store \<Rightarrow> bool" where
  "same_except p m m' \<longleftrightarrow>
     (\<forall>x. x < sizeof_fileblock * p \<or> sizeof_fileblock * (p + 1) \<le> x \<longrightarrow> m' x = m x)"

lemma same_except_refl [simp]: "same_except p m m"
  by (simp add: same_except_def)

lemma same_except_trans [trans]:
  "same_except p m m' \<Longrightarrow> same_except p m' m'' \<Longrightarrow> same_except p m m''"
  by (simp add: same_except_def)

lemma same_except_poke:
  "sizeof_fileblock * p \<le> a \<Longrightarrow> a + int (length bs) \<le> sizeof_fileblock * (p + 1) \<Longrightarrow>
     same_except p m (poke m a bs)"
  by (auto simp: same_except_def poke_def)

lemma same_except_put32:
  "sizeof_fileblock * p \<le> a \<Longrightarrow> a + 4 \<le> sizeof_fileblock * (p + 1) \<Longrightarrow>
     same_except p m (put32 m a w)"
  unfolding put32_def by (rule same_except_poke) simp_all

lemma same_except_peek:
  assumes "same_except p m m'" "i \<noteq> p" "sizeof_fileblock * i \<le> a"
    "a + int n \<le> sizeof_fileblock * (i + 1)"
  shows "peek m' a n = peek m a n"
proof (rule peek_cong)
  fix x assume "a \<le> x" "x < a + int n"
  moreover have "i + 1 \<le> p \<or> p + 1 \<le> i" using assms(2) by linarith
  ultimately have "x < sizeof_fileblock * p \<or> sizeof_fileblock * (p + 1) \<le> x"
    using assms(3,4) by (auto simp: sizeof_fileblock_def)
  then show "m' x = m x" using assms(1) unfolding same_except_def by blast
qed

lemma same_except_get32:
  "same_except p m m' \<Longrightarrow> i \<noteq> p \<Longrightarrow> sizeof_fileblock * i \<le> a \<Longrightarrow>
     a + 4 \<le> sizeof_fileblock * (i + 1) \<Longrightarrow> get32 m' a = get32 m a"
  unfolding get32_def by (subst same_except_peek) simp_all

text \<open>\<open>frame B m m'\<close>: no block outside \<open>B\<close> differs.\<close>

definition frame :: "int set \<Rightarrow> store \<Rightarrow> store \<Rightarrow> bool" where
  "frame B m m' \<longleftrightarrow>
     (\<forall>b. b \<notin> B \<longrightarrow> peek m' (a_used b) (nat sizeof_fileblock) = peek m (a_used b) (nat sizeof_fileblock))"

lemma frame_refl [simp]: "frame B m m"
  by (simp add: frame_def)

lemma frame_trans: "frame A m m' \<Longrightarrow> frame B m' m'' \<Longrightarrow> frame (A \<union> B) m m''"
  by (simp add: frame_def)

lemma same_except_frame: "same_except p m m' \<Longrightarrow> frame {p} m m'"
  unfolding frame_def by (auto intro!: same_except_peek [of p] simp: layout)

lemma frame_peek:
  assumes "frame B m m'" "b \<notin> B" "a_used b \<le> a" "a + int n \<le> a_used (b + 1)"
  shows "peek m' a n = peek m a n"
proof (rule peek_cong)
  fix x assume x: "a \<le> x" "x < a + int n"
  have "peek m' (a_used b) 272 ! nat (x - a_used b) = peek m (a_used b) 272 ! nat (x - a_used b)"
    using assms(1,2) by (simp add: frame_def sizeof_fileblock_def)
  moreover have "nat (x - a_used b) < 272" using x assms(3,4) by (simp add: layout)
  ultimately show "m' x = m x" using x assms(3) by (simp add: nth_peek)
qed

lemma frame_get32:
  "frame B m m' \<Longrightarrow> b \<notin> B \<Longrightarrow> a_used b \<le> a \<Longrightarrow> a + 4 \<le> a_used (b + 1) \<Longrightarrow>
     get32 m' a = get32 m a"
  unfolding get32_def by (subst frame_peek) simp_all

section \<open>The abstract directory\<close>

definition children :: "store \<Rightarrow> int \<Rightarrow> int" where
  "children m b = sint (get32 m (a_size b))"

definition entry_at :: "store \<Rightarrow> int \<Rightarrow> int \<Rightarrow> u8 list \<times> int" where
  "entry_at m b k = (cname m (a_entry b k), sint (get32 m (a_entry_index b k)))"

definition entries :: "store \<Rightarrow> int \<Rightarrow> (u8 list \<times> int) list" where
  "entries m b = map (\<lambda>k. entry_at m b (int k)) [0..<nat (children m b)]"

definition dir_ok :: "store \<Rightarrow> int \<Rightarrow> bool" where
  "dir_ok m b \<longleftrightarrow> 0 \<le> children m b \<and> children m b \<le> 4 \<and>
     (\<forall>k<nat (children m b). terminated m (a_entry b (int k)))"

fun dir_erase :: "'a \<Rightarrow> ('a \<times> 'b) list \<Rightarrow> ('a \<times> 'b) list" where
  "dir_erase n [] = []"
| "dir_erase n (e # es) = (if fst e = n then es else e # dir_erase n es)"

lemma dir_erase_take_drop:
  "dir_erase n es =
     (let i = length (takeWhile (\<lambda>e. fst e \<noteq> n) es) in take i es @ drop (Suc i) es)"
  by (induction es) (auto simp: Let_def)

lemma dir_erase_absent: "n \<notin> fst ` set es \<Longrightarrow> dir_erase n es = es"
  by (induction es) auto

lemma set_dir_erase: "set (dir_erase n es) \<subseteq> set es"
  by (induction es) auto

lemma length_dir_erase:
  "length (dir_erase n es) = (if n \<in> fst ` set es then length es - 1 else length es)"
proof (induction es)
  case (Cons e es)
  have "n \<in> fst ` set es \<Longrightarrow> 0 < length es" by (cases es) auto
  then show ?case using Cons by (auto simp del: image_iff)
qed simp

lemma map_of_dir_erase:
  "distinct (map fst es) \<Longrightarrow> map_of (dir_erase n es) = (map_of es)(n := None)"
proof (induction es)
  case (Cons e es)
  have "map_of es (fst e) = None" using Cons.prems by (auto simp: map_of_eq_None_iff)
  then show ?case using Cons by (cases e) (auto simp: fun_eq_iff)
qed auto

lemma distinct_dir_erase: "distinct (map fst es) \<Longrightarrow> distinct (map fst (dir_erase n es))"
  by (induction es) (use set_dir_erase in \<open>fastforce+\<close>)

lemma map_of_first:
  "map_of es n =
     (if n \<in> fst ` set es then Some (snd (es ! length (takeWhile (\<lambda>e. fst e \<noteq> n) es))) else None)"
  by (induction es) auto

lemma length_takeWhile_in: "n \<in> fst ` set es \<Longrightarrow> length (takeWhile (\<lambda>e. fst e \<noteq> n) es) < length es"
  by (induction es) auto

lemma length_entries: "length (entries m b) = nat (children m b)"
  by (simp add: entries_def)

lemma nth_entries: "k < nat (children m b) \<Longrightarrow> entries m b ! k = entry_at m b (int k)"
  by (simp add: entries_def)

text \<open>Entries depend on the size field and the used part of the buffer only.\<close>

lemma entry_at_cong:
  assumes "peek m (a_entry b k) 56 = peek m' (a_entry b' k') 56"
  shows "entry_at m b k = entry_at m' b' k'" "terminated m (a_entry b k) = terminated m' (a_entry b' k')"
proof -
  have *: "peek m a 56 = peek m a 50 @ peek m (a + 50) 2 @ peek m (a + 52) 4" for m a
    using peek_append [of m a 50 6] peek_append [of m "a + 50" 2 4] by (simp add: add.assoc)
  have p: "peek m (a_entry b k) 50 = peek m' (a_entry b' k') 50"
    "peek m (a_entry b k + 52) 4 = peek m' (a_entry b' k' + 52) 4"
    using assms unfolding * by simp_all
  then have "get32 m (a_entry_index b k) = get32 m' (a_entry_index b' k')"
    by (simp only: get32_def a_entry_index_def)
  then show "entry_at m b k = entry_at m' b' k'"
    using cname_cong [OF p(1)] by (simp only: entry_at_def)
  show "terminated m (a_entry b k) = terminated m' (a_entry b' k')"
    using p(1) by (rule terminated_cong)
qed

lemma same_except_entries:
  assumes "same_except p m m'" "i \<noteq> p" "dir_ok m i"
  shows "children m' i = children m i" "entries m' i = entries m i" "dir_ok m' i"
proof -
  show c: "children m' i = children m i"
    unfolding children_def using assms(1,2)
    by (subst same_except_get32 [of p m m' i]) (simp_all add: layout)
  have e: "entry_at m' i (int k) = entry_at m i (int k)"
    "terminated m' (a_entry i (int k)) = terminated m (a_entry i (int k))"
    if "k < nat (children m i)" for k
  proof -
    have "int k < 4" using that assms(3) unfolding dir_ok_def by linarith
    then have "peek m' (a_entry i (int k)) 56 = peek m (a_entry i (int k)) 56"
      using assms(1,2) by (intro same_except_peek [of p]) (auto simp: layout)
    then show "entry_at m' i (int k) = entry_at m i (int k)"
      "terminated m' (a_entry i (int k)) = terminated m (a_entry i (int k))"
      by (rule entry_at_cong)+
  qed
  show "entries m' i = entries m i" using e by (simp add: entries_def c)
  show "dir_ok m' i" using assms(3) e by (simp add: dir_ok_def c)
qed

section \<open>Searching\<close>

lemma find_entry_spec:
  assumes "valid_blk b" "c_string name" "0 \<le> i" "i + int k \<le> 4"
    and "\<And>j. j < k \<Longrightarrow> terminated m (a_entry b (i + int j))"
  defines "ns \<equiv> map (\<lambda>j. cname m (a_entry b (i + int j))) [0..<k]"
  shows "find_entry m b name i k =
    Some (if name \<in> set ns then Some (i + int (length (takeWhile (\<lambda>n. n \<noteq> name) ns))) else None)"
  using assms(3-5) unfolding ns_def
proof (induction k arbitrary: i)
  case 0
  then show ?case by simp
next
  case (Suc k)
  have t: "terminated m (a_entry b i)" using Suc.prems(3) [of 0] by simp
  have s: "strcmp_eq m (a_entry b i) name = Some (cname m (a_entry b i) = name)"
    using assms(1,2) t Suc.prems by (intro strcmp_eq_cname) (auto intro: in_blks_entry)
  have IH: "find_entry m b name (i + 1) k =
      Some (if name \<in> set (map (\<lambda>j. cname m (a_entry b (i + 1 + int j))) [0..<k])
        then Some (i + 1 + int (length (takeWhile (\<lambda>n. n \<noteq> name)
          (map (\<lambda>j. cname m (a_entry b (i + 1 + int j))) [0..<k])))) else None)"
    using Suc.prems Suc.prems(3) [of "Suc _"] by (intro Suc.IH) (auto simp: algebra_simps)
  have l: "map (\<lambda>j. cname m (a_entry b (i + int j))) [0..<Suc k] =
      cname m (a_entry b i) # map (\<lambda>j. cname m (a_entry b (i + 1 + int j))) [0..<k]"
    by (simp add: upt_conv_Cons map_Suc_upt [symmetric] algebra_simps del: upt_Suc)
  show ?case unfolding l using s IH by (auto simp: algebra_simps)
qed

lemma find_entry_entries:
  assumes "valid_blk b" "dir_ok m b" "c_string name"
  shows "find_entry m b name 0 (nat (children m b)) =
    Some (if name \<in> fst ` set (entries m b)
          then Some (int (length (takeWhile (\<lambda>e. fst e \<noteq> name) (entries m b)))) else None)"
proof -
  let ?ns = "map (\<lambda>j. cname m (a_entry b (0 + int j))) [0..<nat (children m b)]"
  have ns: "?ns = map fst (entries m b)" by (simp add: entries_def entry_at_def comp_def)
  have "find_entry m b name 0 (nat (children m b)) =
    Some (if name \<in> set ?ns then Some (0 + int (length (takeWhile (\<lambda>n. n \<noteq> name) ?ns))) else None)"
    using assms by (intro find_entry_spec) (auto simp: dir_ok_def)
  then show ?thesis unfolding ns by (simp add: takeWhile_map comp_def)
qed

text \<open>The position of a name, and the block number stored there.\<close>

definition slot_of :: "('a \<times> 'b) list \<Rightarrow> 'a \<Rightarrow> int option" where
  "slot_of es n =
     (if n \<in> fst ` set es then Some (int (length (takeWhile (\<lambda>e. fst e \<noteq> n) es))) else None)"

lemma slot_of_None: "slot_of es n = None \<longleftrightarrow> map_of es n = None"
  by (simp add: slot_of_def map_of_eq_None_iff)

lemma slot_of_index:
  assumes "valid_blk b" "dir_ok m b" "map_of (entries m b) n = Some i"
  shows "\<exists>k w. slot_of (entries m b) n = Some k \<and> load32 m (a_entry_index b k) = Some w \<and> sint w = i"
proof -
  let ?es = "entries m b"
  define k where "k = length (takeWhile (\<lambda>e. fst e \<noteq> n) ?es)"
  have n: "n \<in> fst ` set ?es" using map_of_SomeD [OF assms(3)] by force
  have k: "k < nat (children m b)"
    using length_takeWhile_in [OF n] by (simp add: k_def length_entries)
  then have k4: "k < 4" using assms(2) unfolding dir_ok_def by linarith
  have "sint (get32 m (a_entry_index b (int k))) = i"
    using assms(3) n k by (simp add: map_of_first k_def [symmetric] nth_entries entry_at_def)
  moreover have "load32 m (a_entry_index b (int k)) = Some (get32 m (a_entry_index b (int k)))"
    using k4 by (intro load32_get in_blks_entry_index assms(1)) auto
  moreover have "slot_of ?es n = Some (int k)" using n by (simp add: slot_of_def k_def)
  ultimately show ?thesis by blast
qed

lemma find_entry_slot:
  assumes "valid_blk b" "dir_ok m b" "c_string name"
  shows "find_entry m b name 0 (nat (sint (get32 m (a_size b)))) = Some (slot_of (entries m b) name)"
  using find_entry_entries [OF assms] by (simp add: children_def slot_of_def)

end
