(* ===== verification/Expfs_Entries.thy ===== *)
theory Expfs_Entries
  imports Expfs_Dir
begin

text \<open>
  Erasing and appending directory entries of \<open>expfs\<close>: the loops of \<open>rmdir\<close>, \<open>unlink\<close> and
  \<open>rename\<close> remove the first entry of a name, and appending puts an entry at the end, each
  without touching anything but the size field and the buffer of the directory's block.
\<close>

section \<open>What a directory operation may change\<close>

definition dir_frame :: "int \<Rightarrow> store \<Rightarrow> store \<Rightarrow> bool" where
  "dir_frame b m m' \<longleftrightarrow>
     (\<forall>x. x < a_size b \<or> sizeof_fileblock * (b + 1) \<le> x \<longrightarrow> m' x = m x)"

lemma dir_frame_refl [simp]: "dir_frame b m m"
  by (simp add: dir_frame_def)

lemma dir_frame_trans: "dir_frame b m m' \<Longrightarrow> dir_frame b m' m'' \<Longrightarrow> dir_frame b m m''"
  by (simp add: dir_frame_def)

lemma dir_frame_same_except: "dir_frame b m m' \<Longrightarrow> same_except b m m'"
  unfolding dir_frame_def same_except_def layout by auto

lemma dir_frame_header:
  assumes "dir_frame b m m'"
  shows "get32 m' (a_used b) = get32 m (a_used b)" "get32 m' (a_mode b) = get32 m (a_mode b)"
    "get32 m' (a_index b) = get32 m (a_index b)"
  using assms unfolding get32_def dir_frame_def layout
  by (auto intro!: arg_cong [where f = of_le32] peek_cong)

lemma dir_frame_poke:
  "a_size b \<le> a \<Longrightarrow> a + int (length bs) \<le> sizeof_fileblock * (b + 1) \<Longrightarrow> dir_frame b m (poke m a bs)"
  by (auto simp: dir_frame_def poke_def)

lemma dir_frame_put32:
  "a_size b \<le> a \<Longrightarrow> a + 4 \<le> sizeof_fileblock * (b + 1) \<Longrightarrow> dir_frame b m (put32 m a w)"
  unfolding put32_def by (rule dir_frame_poke) simp_all

lemma a_entry_Suc: "a_entry b (k + 1) = a_entry b k + 56"
  by (simp add: layout)

lemma a_entry_mono: "k + 1 \<le> l \<Longrightarrow> a_entry b k + 56 \<le> a_entry b l"
  by (simp add: layout)

lemma a_entry_mono': "k \<le> l \<Longrightarrow> a_entry b k \<le> a_entry b l"
  by (simp add: layout)

lemma sint_word_small: "- (2 ^ 31) \<le> k \<Longrightarrow> k < 2 ^ 31 \<Longrightarrow> sint (word_of_int k :: u32) = k"
  by (simp add: int_word_sint)

section \<open>Closing the gap\<close>

lemma shift_entries_spec:
  assumes "valid_blk b" "0 \<le> j" "j + int k < 4"
  shows "\<exists>m'. shift_entries m b j k = Some m' \<and>
    (\<forall>t. j \<le> t \<and> t < j + int k \<longrightarrow> peek m' (a_entry b t) 56 = peek m (a_entry b (t + 1)) 56) \<and>
    (\<forall>x. x < a_entry b j \<or> a_entry b (j + int k) \<le> x \<longrightarrow> m' x = m x)"
  using assms(2,3)
proof (induction k arbitrary: m j)
  case 0
  show ?case by (rule exI [of _ m]) auto
next
  case (Suc k)
  let ?e = "peek m (a_entry b (j + 1)) 56"
  let ?m = "poke m (a_entry b j) ?e"
  have l: "load m (a_entry b (j + 1)) 56 = Some ?e"
    using in_blks_entry [OF assms(1), of "j + 1" 56] Suc.prems by (simp add: load_def)
  have s: "store m (a_entry b j) ?e = Some ?m"
    using in_blks_entry [OF assms(1), of j 56] Suc.prems by (simp add: store_def)
  obtain m' where m': "shift_entries ?m b (j + 1) k = Some m'"
    and sh: "\<And>t. j + 1 \<le> t \<Longrightarrow> t < j + 1 + int k \<Longrightarrow>
      peek m' (a_entry b t) 56 = peek ?m (a_entry b (t + 1)) 56"
    and fr: "\<And>x. x < a_entry b (j + 1) \<or> a_entry b (j + 1 + int k) \<le> x \<Longrightarrow> m' x = ?m x"
    using Suc.IH [of "j + 1" ?m] Suc.prems by auto
  have "peek m' (a_entry b t) 56 = peek m (a_entry b (t + 1)) 56"
    if "j \<le> t" "t < j + int (Suc k)" for t
  proof (cases "t = j")
    case True
    have "peek m' (a_entry b j) 56 = peek ?m (a_entry b j) 56"
      by (rule peek_cong) (use fr in \<open>auto simp: a_entry_Suc\<close>)
    then show ?thesis using True by (simp add: peek_poke_same)
  next
    case False
    then have "peek m' (a_entry b t) 56 = peek ?m (a_entry b (t + 1)) 56"
      using that by (intro sh) auto
    also have "\<dots> = peek m (a_entry b (t + 1)) 56"
      using a_entry_mono [of j "t + 1" b] that by (intro peek_poke_other) simp
    finally show ?thesis .
  qed
  moreover have "m' x = m x" if "x < a_entry b j \<or> a_entry b (j + int (Suc k)) \<le> x" for x
  proof -
    have "x < a_entry b j \<or> a_entry b j + 56 \<le> x"
      using that a_entry_mono [of j "j + int (Suc k)" b] by auto
    moreover have "x < a_entry b (j + 1) \<or> a_entry b (j + 1 + int k) \<le> x"
      using that a_entry_mono [of j "j + 1" b] by (auto simp: algebra_simps)
    ultimately show ?thesis using fr [of x] poke_outside [of x "a_entry b j" ?e m] by simp
  qed
  ultimately show ?case using l s m' by auto
qed

section \<open>Erasing\<close>

lemma sint_minus_one:
  fixes w :: u32
  assumes "0 < sint w"
  shows "sint (w - 1) = sint w - 1"
proof -
  have "w - 1 = word_of_int (sint w - 1)" by simp
  moreover have "sint w < 2 ^ 31" using sint_lt [of w] by simp
  ultimately show ?thesis using assms sint_word_small [of "sint w - 1"] by (simp del: wi_hom_sub)
qed

lemma sint_plus_one:
  fixes w :: u32
  assumes "0 \<le> sint w" "sint w < 4"
  shows "sint (w + 1) = sint w + 1"
proof -
  have "w + 1 = word_of_int (sint w + 1)" by simp
  then show ?thesis using assms sint_word_small [of "sint w + 1"] by (simp del: wi_hom_add)
qed

text \<open>A directory whose entries are, slot by slot, known from another one.\<close>

lemma entriesI:
  assumes "children m b = int (length es)" "length es \<le> 4"
    and "\<And>k. k < length es \<Longrightarrow> entry_at m b (int k) = es ! k \<and> terminated m (a_entry b (int k))"
  shows "entries m b = es \<and> dir_ok m b"
proof
  show "entries m b = es"
    by (rule nth_equalityI) (use assms in \<open>auto simp: length_entries nth_entries\<close>)
  show "dir_ok m b" using assms by (simp add: dir_ok_def)
qed

lemma erase_entry_absent:
  assumes "valid_blk b" "dir_ok m b" "c_string name" "name \<notin> fst ` set (entries m b)"
  shows "erase_entry m b name = Some (None, m)"
proof -
  have "slot_of (entries m b) name = None" using assms(4) by (simp add: slot_of_def)
  then show ?thesis
    using assms(1) find_entry_slot [OF assms(1-3)] by (simp add: erase_entry_def load32_get)
qed

lemma nth_dir_erase:
  assumes "n \<in> fst ` set es" "i = length (takeWhile (\<lambda>e. fst e \<noteq> n) es)" "k < length es - 1"
  shows "dir_erase n es ! k = (if k < i then es ! k else es ! Suc k)"
proof -
  have "i < length es" using assms(1,2) by (simp add: length_takeWhile_in)
  then show ?thesis
    using assms(3) unfolding dir_erase_take_drop Let_def assms(2) [symmetric]
    by (auto simp: nth_append)
qed

lemma erase_entry_present:
  assumes "valid_blk b" "dir_ok m b" "c_string name" "name \<in> fst ` set (entries m b)"
  shows "\<exists>m'. erase_entry m b name = Some (slot_of (entries m b) name, m') \<and>
    entries m' b = dir_erase name (entries m b) \<and> dir_ok m' b \<and> dir_frame b m m'"
proof -
  let ?es = "entries m b" and ?c = "get32 m (a_size b)"
  define i where "i = length (takeWhile (\<lambda>e. fst e \<noteq> name) ?es)"
  define n where "n = length ?es"
  have n: "sint ?c = int n" "n \<le> 4" "nat (children m b) = n"
    using assms(2) by (auto simp: n_def length_entries dir_ok_def children_def)
  have i: "i < n" using assms(4) by (simp add: i_def n_def length_takeWhile_in)
  have sl: "slot_of ?es name = Some (int i)" using assms(4) by (simp add: slot_of_def i_def)
  have f: "find_entry m b name 0 (nat (sint ?c)) = Some (Some (int i))"
    using find_entry_slot [OF assms(1-3)] sl by simp
  have k: "nat (sint ?c - 1 - int i) = n - 1 - i" using n(1) by simp
  obtain m1 where m1: "shift_entries m b (int i) (n - 1 - i) = Some m1"
    and sh: "\<And>t. int i \<le> t \<Longrightarrow> t < int i + int (n - 1 - i) \<Longrightarrow>
      peek m1 (a_entry b t) 56 = peek m (a_entry b (t + 1)) 56"
    and fr: "\<And>x. x < a_entry b (int i) \<or> a_entry b (int i + int (n - 1 - i)) \<le> x \<Longrightarrow> m1 x = m x"
    using shift_entries_spec [OF assms(1), of "int i" "n - 1 - i" m] i n(2) by auto
  let ?m = "put32 m1 (a_size b) (?c - 1)"
  have e: "erase_entry m b name = Some (slot_of ?es name, ?m)"
    using assms(1) f m1 sl by (simp add: erase_entry_def load32_get store32_put k)
  have slot: "peek ?m (a_entry b t) 56 = peek m1 (a_entry b t) 56" if "0 \<le> t" for t
    by (rule peek_put32_other) (use that in \<open>simp add: layout\<close>)
  have "entries ?m b = dir_erase name ?es \<and> dir_ok ?m b"
  proof (rule entriesI)
    have "sint (?c - 1) = int n - 1" using sint_minus_one [of ?c] n(1) i by simp
    then show "children ?m b = int (length (dir_erase name ?es))"
      using assms(4) i by (simp add: children_def peek_simps length_dir_erase n_def of_nat_diff)
    show "length (dir_erase name ?es) \<le> 4" using n(2) by (auto simp: length_dir_erase n_def)
    fix t assume "t < length (dir_erase name ?es)"
    then have t: "t < n - 1" using assms(4) by (simp add: length_dir_erase n_def)
    have "peek ?m (a_entry b (int t)) 56 =
        peek m (a_entry b (if t < i then int t else int (Suc t))) 56"
    proof (cases "t < i")
      case True
      have "peek m1 (a_entry b (int t)) 56 = peek m (a_entry b (int t)) 56"
        by (rule peek_cong) (use True fr a_entry_mono [of "int t" "int i" b] in auto)
      then show ?thesis using slot True by simp
    next
      case False
      then show ?thesis using slot sh [of "int t"] t i by (simp add: add.commute)
    qed
    note c = entry_at_cong [OF this]
    have "(if t < i then t else Suc t) < n" using t by auto
    then have "terminated m (a_entry b (int (if t < i then t else Suc t)))"
      using assms(2) n(3) unfolding dir_ok_def by blast
    then show "entry_at ?m b (int t) = dir_erase name ?es ! t \<and> terminated ?m (a_entry b (int t))"
      using c t nth_dir_erase [OF assms(4) i_def, of t] n(3)
      by (auto simp: n_def nth_entries split: if_splits)
  qed
  moreover have "dir_frame b m ?m"
  proof (rule dir_frame_trans)
    have "a_size b \<le> a_entry b (int i)" by (simp add: layout)
    moreover have "a_entry b (int i + int (n - 1 - i)) \<le> sizeof_fileblock * (b + 1)"
      using i n(2) by (simp add: layout)
    ultimately show "dir_frame b m m1" using fr unfolding dir_frame_def by fastforce
    show "dir_frame b m1 ?m" by (rule dir_frame_put32) (simp_all add: layout)
  qed
  ultimately show ?thesis using e by blast
qed

theorem erase_entry_ok:
  assumes "valid_blk b" "dir_ok m b" "c_string name"
  shows "\<exists>m'. erase_entry m b name = Some (slot_of (entries m b) name, m') \<and>
    entries m' b = dir_erase name (entries m b) \<and> dir_ok m' b \<and> dir_frame b m m'"
proof (cases "name \<in> fst ` set (entries m b)")
  case True
  then show ?thesis using erase_entry_present [OF assms] by blast
next
  case False
  then have "slot_of (entries m b) name = None" by (simp add: slot_of_def)
  then show ?thesis
    using erase_entry_absent [OF assms False] dir_erase_absent [OF False] assms(2) by simp
qed

section \<open>Appending\<close>

theorem append_entry_ok:
  assumes "valid_blk b" "dir_ok m b" "c_string name" "length name < 50" "children m b < 4"
  shows "\<exists>m'. append_entry m b name index = Some m' \<and>
    entries m' b = entries m b @ [(name, sint index)] \<and> dir_ok m' b \<and> dir_frame b m m'"
proof -
  let ?es = "entries m b" and ?c = "get32 m (a_size b)"
  define n where "n = length ?es"
  have n: "sint ?c = int n" "n < 4" "nat (children m b) = n"
    using assms(2,5) by (auto simp: n_def length_entries dir_ok_def children_def)
  let ?m1 = "put32 m (a_size b) (?c + 1)"
  let ?m2 = "put32 ?m1 (a_entry_index b (int n)) index"
  let ?m = "poke ?m2 (a_entry b (int n)) (name @ [0])"
  have "store32 ?m1 (a_entry_index b (int n)) index = Some ?m2"
    using assms(1) n(2) by (intro store32_put in_blks_entry_index) auto
  moreover have "strcpy ?m2 (a_entry b (int n)) name = Some ?m"
    using in_blks_entry [OF assms(1), of "int n" "length (name @ [0])"] n(2) assms(4)
    by (simp add: strcpy_def store_def)
  ultimately have e: "append_entry m b name index = Some ?m"
    using assms(1) n(1) by (simp add: append_entry_def load32_get store32_put Let_def)
  have "entries ?m b = ?es @ [(name, sint index)] \<and> dir_ok ?m b"
  proof (rule entriesI)
    have "get32 ?m (a_size b) = get32 ?m2 (a_size b)"
      by (rule get32_poke_other) (simp add: layout)
    also have "\<dots> = get32 ?m1 (a_size b)" by (rule get32_put32_other) (simp add: layout)
    finally have "children ?m b = sint (?c + 1)" by (simp add: children_def peek_simps)
    then show "children ?m b = int (length (?es @ [(name, sint index)]))"
      using sint_plus_one [of ?c] n(1,2) by (simp add: n_def)
    show "length (?es @ [(name, sint index)]) \<le> 4" using n(2) by (simp add: n_def)
    fix t assume "t < length (?es @ [(name, sint index)])"
    then consider "t < n" | "t = n" by (force simp: n_def)
    then show "entry_at ?m b (int t) = (?es @ [(name, sint index)]) ! t \<and>
      terminated ?m (a_entry b (int t))"
    proof cases
      case 1
      have t: "a_entry b (int t) + 56 \<le> a_entry b (int n)" using 1 by (intro a_entry_mono) simp
      have "peek ?m (a_entry b (int t)) 56 = peek ?m2 (a_entry b (int t)) 56"
        using t by (intro peek_poke_other) simp
      also have "\<dots> = peek ?m1 (a_entry b (int t)) 56"
        using t by (intro peek_put32_other) (simp add: a_entry_index_def)
      also have "\<dots> = peek m (a_entry b (int t)) 56"
        by (rule peek_put32_other) (simp add: layout)
      finally have "peek ?m (a_entry b (int t)) 56 = peek m (a_entry b (int t)) 56" .
      note c = entry_at_cong [OF this]
      have "terminated m (a_entry b (int t))" using 1 assms(2) n(3) by (simp add: dir_ok_def)
      then show ?thesis using c 1 n(3) by (simp add: nth_append n_def nth_entries)
    next
      case 2
      have "get32 ?m (a_entry_index b (int n)) = get32 ?m2 (a_entry_index b (int n))"
        using assms(4) by (intro get32_poke_other) (simp add: a_entry_index_def)
      then show ?thesis
        using 2 cname_strcpy [OF assms(3,4)] by (simp add: entry_at_def peek_simps nth_append n_def)
    qed
  qed
  moreover have "dir_frame b m ?m"
  proof -
    have "dir_frame b m ?m1" by (rule dir_frame_put32) (simp_all add: layout)
    moreover have "dir_frame b ?m1 ?m2" using n(2) by (intro dir_frame_put32) (auto simp: layout)
    moreover have "dir_frame b ?m2 ?m"
      using n(2) assms(4) by (intro dir_frame_poke) (auto simp: layout)
    ultimately show ?thesis by (blast intro: dir_frame_trans)
  qed
  ultimately show ?thesis using e by blast
qed

end
