(* ===== verification/Expfs_Tree.thy ===== *)
theory Expfs_Tree
  imports Expfs_Entries
begin

text \<open>
  The abstract file system of \<open>expfs\<close>: a map from block numbers to nodes, where a directory
  lists its entries and anything else is a leaf. \<open>tree_ok\<close> is its well-formedness; creating,
  removing and moving nodes keep it. \<open>tree m\<close> is the abstract file system that the block array
  \<open>m\<close> represents.
\<close>

section \<open>Trees\<close>

datatype expfs_node = Dir_node "(u8 list \<times> int) list" | Leaf_node

type_synonym expfs_tree = "int \<Rightarrow> expfs_node option"

definition tree_entry :: "expfs_tree \<Rightarrow> int \<Rightarrow> u8 list \<Rightarrow> int \<Rightarrow> bool" where
  "tree_entry T b n i \<longleftrightarrow> (\<exists>es. T b = Some (Dir_node es) \<and> (n, i) \<in> set es)"

text \<open>
  The root is a directory; names within a directory are distinct; an entry names an allocated
  block other than the root; no block has two entries; every block but the root has one.
\<close>

definition tree_ok :: "expfs_tree \<Rightarrow> bool" where
  "tree_ok T \<longleftrightarrow>
     (\<exists>es. T 1 = Some (Dir_node es)) \<and>
     (\<forall>b es. T b = Some (Dir_node es) \<longrightarrow> distinct (map fst es)) \<and>
     (\<forall>b n i. tree_entry T b n i \<longrightarrow> i \<noteq> 1 \<and> T i \<noteq> None) \<and>
     (\<forall>b n b' n' i. tree_entry T b n i \<longrightarrow> tree_entry T b' n' i \<longrightarrow> b = b' \<and> n = n') \<and>
     (\<forall>i. T i \<noteq> None \<longrightarrow> i \<noteq> 1 \<longrightarrow> (\<exists>b n. tree_entry T b n i))"

definition tree_create :: "int \<Rightarrow> u8 list \<Rightarrow> int \<Rightarrow> expfs_node \<Rightarrow> expfs_tree \<Rightarrow> expfs_tree" where
  "tree_create p n i node T =
     (case T p of
        Some (Dir_node es) \<Rightarrow> T(i \<mapsto> node, p \<mapsto> Dir_node (es @ [(n, i)]))
      | _ \<Rightarrow> T)"

definition tree_remove :: "int \<Rightarrow> u8 list \<Rightarrow> int \<Rightarrow> expfs_tree \<Rightarrow> expfs_tree" where
  "tree_remove p n i T =
     (case T p of
        Some (Dir_node es) \<Rightarrow> T(p \<mapsto> Dir_node (dir_erase n es), i := None)
      | _ \<Rightarrow> T)"

definition tree_move :: "int \<Rightarrow> u8 list \<Rightarrow> int \<Rightarrow> u8 list \<Rightarrow> expfs_tree \<Rightarrow> expfs_tree" where
  "tree_move p n q n' T =
     (case T p of
        Some (Dir_node es) \<Rightarrow>
          (case map_of es n of
             Some i \<Rightarrow>
               (let T' = T(p \<mapsto> Dir_node (dir_erase n es)) in
                case T' q of
                  Some (Dir_node es') \<Rightarrow> T'(q \<mapsto> Dir_node (es' @ [(n', i)]))
                | _ \<Rightarrow> T)
           | None \<Rightarrow> T)
      | _ \<Rightarrow> T)"

lemma in_dir_erase:
  "distinct (map fst es) \<Longrightarrow> (m, i) \<in> set (dir_erase n es) \<longleftrightarrow> (m, i) \<in> set es \<and> m \<noteq> n"
proof (induction es)
  case (Cons e es)
  have "fst e \<notin> fst ` set es" using Cons.prems by simp
  then have "(fst e, i) \<notin> set es" by (metis fst_conv image_eqI)
  then show ?case using Cons by (cases e) auto
qed simp

lemma tree_okI:
  assumes "\<exists>es. T 1 = Some (Dir_node es)"
    and "\<And>b es. T b = Some (Dir_node es) \<Longrightarrow> distinct (map fst es)"
    and "\<And>b n i. tree_entry T b n i \<Longrightarrow> i \<noteq> 1 \<and> T i \<noteq> None"
    and "\<And>b n b' n' i. tree_entry T b n i \<Longrightarrow> tree_entry T b' n' i \<Longrightarrow> b = b' \<and> n = n'"
    and "\<And>i. T i \<noteq> None \<Longrightarrow> i \<noteq> 1 \<Longrightarrow> \<exists>b n. tree_entry T b n i"
  shows "tree_ok T"
  unfolding tree_ok_def using assms by blast

lemma tree_okD:
  assumes "tree_ok T"
  shows "\<exists>es. T 1 = Some (Dir_node es)"
    and "T b = Some (Dir_node es) \<Longrightarrow> distinct (map fst es)"
    and "tree_entry T b n i \<Longrightarrow> i \<noteq> 1 \<and> T i \<noteq> None"
    and "tree_entry T b n i \<Longrightarrow> tree_entry T b' n' i \<Longrightarrow> b = b' \<and> n = n'"
    and "T i \<noteq> None \<Longrightarrow> i \<noteq> 1 \<Longrightarrow> \<exists>b n. tree_entry T b n i"
  using assms unfolding tree_ok_def by blast+

lemma tree_create_entry:
  assumes "T p = Some (Dir_node es)" "T i = None" "node = Dir_node [] \<or> node = Leaf_node"
  shows "tree_entry (tree_create p n i node T) b m j \<longleftrightarrow>
    tree_entry T b m j \<or> b = p \<and> m = n \<and> j = i"
  using assms by (auto simp: tree_entry_def tree_create_def split: if_splits)

lemma tree_create_ok:
  assumes "tree_ok T" "T p = Some (Dir_node es)" "T i = None" "n \<notin> fst ` set es"
    "node = Dir_node [] \<or> node = Leaf_node"
  shows "tree_ok (tree_create p n i node T)"
proof -
  let ?T = "tree_create p n i node T"
  note ent = tree_create_entry [OF assms(2,3,5), of n]
  have i: "i \<noteq> p" "i \<noteq> 1" using assms(2,3) tree_okD(1) [OF assms(1)] by auto
  have dom: "?T j \<noteq> None \<longleftrightarrow> T j \<noteq> None \<or> j = i" for j
    using assms(2) i by (simp add: tree_create_def)
  have fresh: "\<not> tree_entry T b m i" for b m using tree_okD(3) [OF assms(1)] assms(3) by blast
  have d: "distinct (map fst (es @ [(n, i)]))"
    using tree_okD(2) [OF assms(1,2)] assms(4) by simp
  show ?thesis
  proof (rule tree_okI)
    show "\<exists>es. ?T 1 = Some (Dir_node es)"
      using tree_okD(1) [OF assms(1)] assms(2) i by (auto simp: tree_create_def)
    show "distinct (map fst es')" if "?T b = Some (Dir_node es')" for b es'
      using that assms(2,5) d tree_okD(2) [OF assms(1)]
      by (auto simp: tree_create_def split: if_splits)
    show "j \<noteq> 1 \<and> ?T j \<noteq> None" if "tree_entry ?T b m j" for b m j
      using that tree_okD(3) [OF assms(1), of b m j] i dom [of j] ent [of b m j] by blast
    show "b = b' \<and> m = m'" if "tree_entry ?T b m j" "tree_entry ?T b' m' j" for b m b' m' j
      using that tree_okD(4) [OF assms(1), of b m j] fresh by (auto simp: ent)
    show "\<exists>b m. tree_entry ?T b m j" if "?T j \<noteq> None" "j \<noteq> 1" for j
      using that tree_okD(5) [OF assms(1), of j] dom [of j] by (auto simp: ent)
  qed
qed

lemma tree_remove_value:
  "T p = Some (Dir_node es) \<Longrightarrow>
     tree_remove p n i T b =
       (if b = i then None else if b = p then Some (Dir_node (dir_erase n es)) else T b)"
  by (simp add: tree_remove_def)

lemma tree_remove_entry:
  assumes "T p = Some (Dir_node es)" "distinct (map fst es)" "i \<noteq> p"
    "T i = Some Leaf_node \<or> T i = Some (Dir_node [])"
  shows "tree_entry (tree_remove p n i T) b m j \<longleftrightarrow> tree_entry T b m j \<and> \<not> (b = p \<and> m = n)"
  using assms(1,3,4) in_dir_erase [OF assms(2)]
  by (auto simp: tree_entry_def tree_remove_value)

lemma tree_remove_ok:
  assumes "tree_ok T" "T p = Some (Dir_node es)" "(n, i) \<in> set es"
    "T i = Some Leaf_node \<or> T i = Some (Dir_node [])"
  shows "tree_ok (tree_remove p n i T)"
proof -
  let ?T = "tree_remove p n i T"
  have te: "tree_entry T p n i" using assms(2,3) by (auto simp: tree_entry_def)
  have i: "i \<noteq> p" "i \<noteq> 1" using assms(2,3,4) tree_okD(3) [OF assms(1) te] by auto
  note d = tree_okD(2) [OF assms(1,2)]
  have only: "b = p \<and> m = n" if "tree_entry T b m i" for b m
    using tree_okD(4) [OF assms(1) that te] by simp
  note val = tree_remove_value [of T p es n i, OF assms(2)]
  note ent = tree_remove_entry [of T p es i n, OF assms(2) d i(1) assms(4)]
  have inj: "j = i" if "tree_entry T p n j" for j
    using that te d assms(2) by (auto simp: tree_entry_def eq_key_imp_eq_value)
  show ?thesis
  proof (rule tree_okI)
    show "\<exists>es. ?T 1 = Some (Dir_node es)"
      using tree_okD(1) [OF assms(1)] i by (auto simp: val)
    show "distinct (map fst es')" if "?T b = Some (Dir_node es')" for b es'
      using that tree_okD(2) [OF assms(1)] distinct_dir_erase [OF d]
      by (auto simp: val split: if_splits)
    show "j \<noteq> 1 \<and> ?T j \<noteq> None" if "tree_entry ?T b m j" for b m j
      using that tree_okD(3) [OF assms(1), of b m j] only by (auto simp: ent val)
    show "b = b' \<and> m = m'" if "tree_entry ?T b m j" "tree_entry ?T b' m' j" for b m b' m' j
      using that tree_okD(4) [OF assms(1), of b m j] by (auto simp: ent)
    show "\<exists>b m. tree_entry ?T b m j" if "?T j \<noteq> None" "j \<noteq> 1" for j
    proof -
      have "T j \<noteq> None" "j \<noteq> i" using that assms(2) by (auto simp: val split: if_splits)
      then show ?thesis using tree_okD(5) [OF assms(1), of j] inj that by (auto simp: ent)
    qed
  qed
qed

text \<open>
  Moving within or between directories keeps the tree well-formed when the new name is free. (A
  directory moved below itself would become unreachable; the VFS refuses that.)
\<close>

lemma tree_move_value:
  assumes "T p = Some (Dir_node es)" "map_of es n = Some i"
    "T q = Some (Dir_node es')" "p \<noteq> q"
  shows "tree_move p n q n' T =
    T(p \<mapsto> Dir_node (dir_erase n es), q \<mapsto> Dir_node (es' @ [(n', i)]))"
  using assms by (simp add: tree_move_def Let_def)

lemma tree_move_value_same:
  assumes "T p = Some (Dir_node es)" "map_of es n = Some i"
  shows "tree_move p n p n' T = T(p \<mapsto> Dir_node (dir_erase n es @ [(n', i)]))"
  using assms by (simp add: tree_move_def Let_def)

lemma tree_move_at:
  assumes "T p = Some (Dir_node es)" "map_of es n = Some i" "T q = Some (Dir_node es')"
  shows "tree_move p n q n' T b =
      (if b = q then Some (Dir_node ((if p = q then dir_erase n es else es') @ [(n', i)]))
       else if b = p then Some (Dir_node (dir_erase n es)) else T b)"
  using assms by (cases "p = q") (auto simp: tree_move_value tree_move_value_same)

lemma tree_move_entry:
  assumes "T p = Some (Dir_node es)" "map_of es n = Some i" "T q = Some (Dir_node es')"
    "distinct (map fst es)"
  shows "tree_entry (tree_move p n q n' T) b m j \<longleftrightarrow>
      tree_entry T b m j \<and> \<not> (b = p \<and> m = n) \<or> b = q \<and> m = n' \<and> j = i"
  using assms(1,3) in_dir_erase [OF assms(4)]
  by (auto simp: tree_entry_def tree_move_at [of T p es n i q es', OF assms(1,2,3)])

lemma tree_move_ok:
  assumes "tree_ok T" "T p = Some (Dir_node es)" "map_of es n = Some i"
    "T q = Some (Dir_node es')" "n' \<notin> fst ` set es'"
  shows "tree_ok (tree_move p n q n' T)"
proof -
  let ?T = "tree_move p n q n' T"
  have te: "tree_entry T p n i"
    using assms(2) map_of_SomeD [OF assms(3)] by (auto simp: tree_entry_def)
  note d = tree_okD(2) [OF assms(1,2)] and d' = tree_okD(2) [OF assms(1,4)]
  note val = tree_move_at [of T p es n i q es' n', OF assms(2,3,4)]
  note ent = tree_move_entry [of T p es n i q es' n', OF assms(2,3,4) d]
  have sub: "fst ` set (dir_erase n es) \<subseteq> fst ` set es" using set_dir_erase [of n es] by blast
  have dom: "?T j \<noteq> None \<longleftrightarrow> T j \<noteq> None" for j using assms(2,4) by (simp add: val)
  have only: "b = p \<and> m = n" if "tree_entry T b m i" for b m
    using tree_okD(4) [OF assms(1) that te] by simp
  have inj: "j = i" if "tree_entry T p n j" for j
    using that te d assms(2) by (auto simp: tree_entry_def eq_key_imp_eq_value)
  show ?thesis
  proof (rule tree_okI)
    show "\<exists>es. ?T 1 = Some (Dir_node es)" using tree_okD(1) [OF assms(1)] by (auto simp: val)
    have "n' \<notin> fst ` set (dir_erase n es)" if "p = q" using that sub assms(2,4,5) by auto
    then show "distinct (map fst es1)" if "?T b = Some (Dir_node es1)" for b es1
      using that tree_okD(2) [OF assms(1)] distinct_dir_erase [OF d] d' assms(5)
      by (auto simp: val split: if_splits)
    show "j \<noteq> 1 \<and> ?T j \<noteq> None" if "tree_entry ?T b m j" for b m j
      using that tree_okD(3) [OF assms(1), of b m j] tree_okD(3) [OF assms(1) te] dom [of j]
      by (auto simp: ent)
    show "b = b' \<and> m = m'" if "tree_entry ?T b m j" "tree_entry ?T b' m' j" for b m b' m' j
      using that tree_okD(4) [OF assms(1), of b m j b' m'] only by (auto simp: ent)
    show "\<exists>b m. tree_entry ?T b m j" if "?T j \<noteq> None" "j \<noteq> 1" for j
    proof (cases "j = i")
      case True
      then show ?thesis by (auto simp: ent)
    next
      case False
      then show ?thesis using that dom [of j] tree_okD(5) [OF assms(1), of j] inj by (auto simp: ent)
    qed
  qed
qed

end
