(* ===== verification/Expfs_Refine.thy ===== *)
theory Expfs_Refine
  imports Expfs_Tree
begin

text \<open>
  The inode operations of \<open>expfs\<close> refine the abstract file system of \<open>Expfs_Tree\<close>: each
  successful handler acts on \<open>tree\<close> as the abstract operation of its name and keeps \<open>fs_ok\<close>.
\<close>

section \<open>The file system a block array represents\<close>

definition is_used :: "store \<Rightarrow> int \<Rightarrow> bool" where
  "is_used m b \<longleftrightarrow> valid_blk b \<and> get32 m (a_used b) \<noteq> 0"

definition tree :: "store \<Rightarrow> expfs_tree" where
  "tree m = (\<lambda>b.
     if is_used m b
     then Some (if S_ISDIR (get32 m (a_mode b)) then Dir_node (entries m b) else Leaf_node)
     else None)"

definition dirs_ok :: "store \<Rightarrow> bool" where
  "dirs_ok m \<longleftrightarrow> (\<forall>b es. tree m b = Some (Dir_node es) \<longrightarrow> dir_ok m b)"

definition fs_ok :: "store \<Rightarrow> bool" where
  "fs_ok m \<longleftrightarrow> dirs_ok m \<and> tree_ok (tree m)"

lemma tree_Dir:
  "tree m b = Some (Dir_node es) \<longleftrightarrow>
     valid_blk b \<and> get32 m (a_used b) \<noteq> 0 \<and> S_ISDIR (get32 m (a_mode b)) \<and> es = entries m b"
  by (auto simp: tree_def is_used_def)

lemma tree_Leaf:
  "tree m b = Some Leaf_node \<longleftrightarrow>
     valid_blk b \<and> get32 m (a_used b) \<noteq> 0 \<and> \<not> S_ISDIR (get32 m (a_mode b))"
  by (auto simp: tree_def is_used_def)

lemma tree_None: "tree m b = None \<longleftrightarrow> \<not> (valid_blk b \<and> get32 m (a_used b) \<noteq> 0)"
  by (auto simp: tree_def is_used_def)

lemma same_except_headers:
  assumes "same_except p m m'" "b \<noteq> p"
  shows "get32 m' (a_used b) = get32 m (a_used b)" "get32 m' (a_mode b) = get32 m (a_mode b)"
  using assms by (auto intro!: same_except_get32 [of p] simp: layout)

lemma same_except_tree:
  assumes "same_except p m m'" "b \<noteq> p" "dirs_ok m"
  shows "tree m' b = tree m b"
proof (cases "\<exists>es. tree m b = Some (Dir_node es)")
  case True
  then have "dir_ok m b" using assms(3) by (auto simp: dirs_ok_def)
  then show ?thesis
    using same_except_headers [OF assms(1,2)] same_except_entries [OF assms(1,2)]
    by (simp add: tree_def is_used_def)
next
  case False
  then show ?thesis
    using same_except_headers [OF assms(1,2)] by (auto simp: tree_def is_used_def)
qed

lemma same_except_dirs_ok:
  assumes "same_except p m m'" "dirs_ok m" "\<And>es. tree m' p = Some (Dir_node es) \<Longrightarrow> dir_ok m' p"
  shows "dirs_ok m'"
  unfolding dirs_ok_def
proof (intro allI impI)
  fix b es assume t: "tree m' b = Some (Dir_node es)"
  show "dir_ok m' b"
  proof (cases "b = p")
    case True
    then show ?thesis using assms(3) t by simp
  next
    case False
    then have "tree m b = Some (Dir_node es)" using same_except_tree [OF assms(1) False assms(2)] t by simp
    then have "dir_ok m b" using assms(2) unfolding dirs_ok_def by blast
    then show ?thesis using same_except_entries(3) [OF assms(1) False] by simp
  qed
qed

text \<open>A change of one block changes the tree there only.\<close>

lemma tree_update:
  assumes "same_except p m m'" "dirs_ok m" "tree m' p = v"
  shows "tree m' = (tree m)(p := v)"
  using same_except_tree [OF assms(1) _ assms(2)] assms(3) by (auto simp: fun_eq_iff)

lemma dir_frame_tree:
  assumes "dir_frame p m m'" "dirs_ok m" "tree m p = Some (Dir_node es)" "entries m' p = es'"
    "dir_ok m' p"
  shows "tree m' = (tree m)(p \<mapsto> Dir_node es')" "dirs_ok m'"
proof -
  have "tree m' p = Some (Dir_node es')"
    using assms(3,4) dir_frame_header [OF assms(1)] by (simp add: tree_Dir)
  then show "tree m' = (tree m)(p \<mapsto> Dir_node es')"
    using tree_update [OF dir_frame_same_except [OF assms(1)] assms(2)] by simp
  show "dirs_ok m'"
    using same_except_dirs_ok [OF dir_frame_same_except [OF assms(1)] assms(2)] assms(5) by blast
qed

section \<open>Block allocation\<close>

definition first_free :: "store \<Rightarrow> int option" where
  "first_free m = List.find (\<lambda>j. get32 m (a_used j) = 0) [2..MAX_FILE - 1]"

lemma getblock_loop_find:
  assumes "0 \<le> i" "i + int k \<le> MAX_FILE"
  shows "getblock_loop m i k =
    Some (case List.find (\<lambda>j. get32 m (a_used j) = 0) [i..i + int k - 1] of
            Some j \<Rightarrow> (j, put32 m (a_used j) 1)
          | None \<Rightarrow> (-1, m))"
  using assms
proof (induction k arbitrary: i)
  case (Suc k)
  have v: "valid_blk i" using Suc.prems by (simp add: valid_blk_def)
  have "[i..i + int (Suc k) - 1] = i # [i + 1..i + 1 + int k - 1]"
    by (subst upto_rec1) (auto simp: algebra_simps)
  then show ?case
    using v Suc.IH [of "i + 1"] Suc.prems by (auto simp: load32_get store32_put)
qed simp

lemma getblock_first_free:
  "getblock m =
     Some (case first_free m of Some j \<Rightarrow> (j, put32 m (a_used j) 1) | None \<Rightarrow> (-1, m))"
  using getblock_loop_find [of 2 "nat (MAX_FILE - 2)" m]
  by (simp add: getblock_def first_free_def MAX_FILE_def)

lemma first_freeD:
  assumes "first_free m = Some j"
  shows "2 \<le> j" "valid_blk j" "get32 m (a_used j) = 0" "tree m j = None"
    and "\<And>i. 2 \<le> i \<Longrightarrow> i < j \<Longrightarrow> get32 m (a_used i) \<noteq> 0"
proof -
  obtain k where k: "k < length [2..MAX_FILE - 1]" "j = [2..MAX_FILE - 1] ! k"
    "get32 m (a_used j) = 0" "\<And>l. l < k \<Longrightarrow> get32 m (a_used ([2..MAX_FILE - 1] ! l)) \<noteq> 0"
    using assms unfolding first_free_def find_Some_iff by blast
  have j: "j = 2 + int k" using k(1,2) by (simp add: nth_upto)
  show *: "2 \<le> j" "valid_blk j" using k(1) j by (auto simp: valid_blk_def MAX_FILE_def)
  show "get32 m (a_used j) = 0" by (rule k)
  then show "tree m j = None" by (simp add: tree_None)
  show "get32 m (a_used i) \<noteq> 0" if "2 \<le> i" "i < j" for i
    using k(4) [of "nat (i - 2)"] that j k(1) by (simp add: nth_upto)
qed

lemma first_free_tree: "first_free m = List.find (\<lambda>j. tree m j = None) [2..MAX_FILE - 1]"
  unfolding first_free_def by (rule find_cong) (auto simp: tree_None valid_blk_def)

section \<open>Creating\<close>

definition new_node :: "u16 \<Rightarrow> expfs_node" where
  "new_node mode = (if S_ISDIR (ucast mode) then Dir_node [] else Leaf_node)"

text \<open>The inode that stands for a block.\<close>

definition inode_of :: "store \<Rightarrow> int \<Rightarrow> inode" where
  "inode_of m i = \<lparr>i_ino = word_of_int i, i_private = i,
     i_fop = (if S_ISDIR (get32 m (a_mode i)) then Expfs_dir_fops
              else if S_ISREG (get32 m (a_mode i)) then Expfs_fops else No_fops)\<rparr>"

lemma expfs_geti_inode_of: "valid_blk i \<Longrightarrow> expfs_geti True m i = Some (inode_of m i)"
  by (simp add: expfs_geti_def inode_of_def load32_get)

text \<open>The block after \<open>expfs_do_create\<close> has filled in its header.\<close>

definition fresh_block :: "store \<Rightarrow> int \<Rightarrow> u32 \<Rightarrow> store" where
  "fresh_block m i mode =
     (let m = put32 (put32 (put32 (put32 m (a_used i) 1) (a_index i) (word_of_int i))
                (a_mode i) mode) (a_used i) 1
      in if S_ISDIR mode \<or> S_ISREG mode then put32 m (a_size i) 0 else m)"

lemma fresh_block_facts:
  "same_except i m (fresh_block m i mode)" "get32 (fresh_block m i mode) (a_used i) = 1"
  "get32 (fresh_block m i mode) (a_mode i) = mode"
  "S_ISDIR mode \<or> S_ISREG mode \<Longrightarrow> get32 (fresh_block m i mode) (a_size i) = 0"
proof -
  have *: "same_except i m (put32 m a w)" if "a \<in> {a_used i, a_index i, a_mode i, a_size i}" for m a w
    using that by (intro same_except_put32) (auto simp: layout)
  show "same_except i m (fresh_block m i mode)"
    unfolding fresh_block_def Let_def
    by (auto split: if_splits intro!: same_except_trans [OF _ *])
  show "get32 (fresh_block m i mode) (a_used i) = 1"
    "get32 (fresh_block m i mode) (a_mode i) = mode"
    "S_ISDIR mode \<or> S_ISREG mode \<Longrightarrow> get32 (fresh_block m i mode) (a_size i) = 0"
    by (auto simp: fresh_block_def Let_def peek_simps get32_put32_other layout)
qed

lemma fresh_block_tree:
  assumes "dirs_ok m" "valid_blk i"
  shows "tree (fresh_block m i (ucast mode)) = (tree m)(i \<mapsto> new_node mode)"
    "dirs_ok (fresh_block m i (ucast mode))"
proof -
  note f = fresh_block_facts [where i = i and m = m and mode = "ucast mode"]
  let ?m = "fresh_block m i (ucast mode)"
  have c: "children ?m i = 0" if "S_ISDIR (ucast mode)"
    using f(4) that by (simp add: children_def)
  then have "tree ?m i = Some (new_node mode)"
    using assms(2) f by (auto simp: tree_def is_used_def new_node_def entries_def)
  then show "tree ?m = (tree m)(i \<mapsto> new_node mode)"
    using tree_update [OF f(1) assms(1)] by simp
  have "dir_ok ?m i" if "tree ?m i = Some (Dir_node es)" for es
    using that f c by (auto simp: tree_Dir dir_ok_def)
  then show "dirs_ok ?m" using same_except_dirs_ok [OF f(1) assms(1)] by blast
qed

definition type_ok :: "u16 \<Rightarrow> bool" where
  "type_ok mode \<longleftrightarrow> S_ISDIR (ucast mode) \<or> S_ISREG (ucast mode) \<or> S_ISLNK (ucast mode)"

text \<open>A name the VFS may pass and an entry has room for.\<close>

definition name_ok :: "u8 list \<Rightarrow> bool" where
  "name_ok n \<longleftrightarrow> c_string n \<and> length n < 50"

lemma do_create_ok:
  assumes "fs_ok (blks s)" "usedBlks s < MAX_FILE" "type_ok mode"
    and "first_free (blks s) = Some idx" "tree (blks s) (i_private dir) = Some (Dir_node es)"
    and "name_ok (d_name dentry)" "d_name dentry \<notin> fst ` set es" "length es < 4"
  shows "\<exists>s'. expfs_do_create True s dir dentry mode =
      Some (Inr (), Some (inode_of (blks s') idx), s', [Acquire, Touch, Release]) \<and>
    usedBlks s' = usedBlks s + 1 \<and> fs_ok (blks s') \<and>
    tree (blks s') = tree_create (i_private dir) (d_name dentry) idx (new_node mode) (tree (blks s)) \<and>
    frame {i_private dir, idx} (blks s) (blks s') \<and> get32 (blks s') (a_mode idx) = ucast mode \<and>
    (new_node mode = Leaf_node \<longrightarrow> S_ISREG (ucast mode) \<longrightarrow> get32 (blks s') (a_size idx) = 0)"
proof -
  let ?m = "blks s" and ?p = "i_private dir" and ?n = "d_name dentry"
  let ?m1 = "fresh_block ?m idx (ucast mode)"
  note idx = first_freeD [OF assms(4)]
  have dirs: "dirs_ok ?m" and tok: "tree_ok (tree ?m)" using assms(1) by (simp_all add: fs_ok_def)
  have "?p \<noteq> idx" using assms(5) idx(4) by auto
  then have p: "valid_blk ?p" "?p \<noteq> idx" "es = entries ?m ?p" "dir_ok ?m ?p"
    using assms(5) dirs by (auto simp: tree_Dir dirs_ok_def)
  note f = fresh_block_facts [where i = idx and m = ?m and mode = "ucast mode"] and t = fresh_block_tree [OF dirs idx(2), of mode]
  note e = same_except_entries [OF f(1) p(2,4)]
  have c: "children ?m1 ?p < 4" using e(1) assms(8) p(3) by (simp add: length_entries)
  have nm: "c_string ?n" "length ?n < 50" using assms(6) by (simp_all add: name_ok_def)
  obtain m' where a: "append_entry ?m1 ?p ?n (word_of_int idx) = Some m'"
    "entries m' ?p = entries ?m1 ?p @ [(?n, sint (word_of_int idx :: u32))]" "dir_ok m' ?p"
    "dir_frame ?p ?m1 m'"
    using append_entry_ok [OF p(1) e(3) nm c, of "word_of_int idx"] by blast
  have "sint (word_of_int idx :: u32) = idx"
    using idx(1,2) by (intro sint_word_small) (auto simp: valid_blk_def MAX_FILE_def)
  then have "entries m' ?p = es @ [(?n, idx)]" using a(2) e(2) p(3) by simp
  note tm = dir_frame_tree [OF a(4) t(2) _ this a(3)]
  have p1: "tree ?m1 ?p = Some (Dir_node es)" using t(1) assms(5) p(2) by simp
  have tree': "tree m' = tree_create ?p ?n idx (new_node mode) (tree ?m)"
    using tm(1) [OF p1] t(1) assms(5) by (simp add: tree_create_def)
  have "tree_ok (tree m')"
    unfolding tree' by (rule tree_create_ok [OF tok assms(5) idx(4) assms(7)]) (simp add: new_node_def)
  then have ok: "fs_ok m'" using tm(2) [OF p1] by (simp add: fs_ok_def)
  have fr: "frame {?p, idx} ?m m'"
    using frame_trans [OF same_except_frame [OF f(1)] same_except_frame [OF dir_frame_same_except [OF a(4)]]]
    by (simp add: insert_commute)
  have "get32 m' (a_size idx) = get32 ?m1 (a_size idx)"
    using same_except_get32 [OF dir_frame_same_except [OF a(4)], of idx] p(2) by (simp add: layout)
  then have sz: "get32 m' (a_size idx) = 0" if "S_ISDIR (ucast mode) \<or> S_ISREG (ucast mode)"
    using f(4) [OF that] by simp
  have md: "get32 m' (a_mode idx) = ucast mode"
    using same_except_headers(2) [OF dir_frame_same_except [OF a(4)], of idx] p(2) f(3) by simp
  have "expfs_do_create True s dir dentry mode =
      Some (Inr (), Some (inode_of m' idx), \<lparr>blks = m', usedBlks = usedBlks s + 1\<rparr>,
        [Acquire, Touch, Release])"
    using assms(2,3) a(1) idx(2)
    by (auto simp: expfs_do_create_def Let_def type_ok_def getblock_first_free assms(4) store32_put
        fresh_block_def inode_of_def md)
  then show ?thesis
    using ok tree' fr md sz by (intro exI [of _ "\<lparr>blks = m', usedBlks = usedBlks s + 1\<rparr>"]) simp
qed

end
