(* ===== verification/Expfs_Refine2.thy ===== *)
theory Expfs_Refine2
  imports Expfs_Refine
begin

text \<open>
  Lookup, listing, removal, renaming and mounting in \<open>expfs\<close>, as operations on the abstract
  file system.
\<close>

section \<open>Lookup\<close>

lemma fs_okD:
  assumes "fs_ok m" "tree m p = Some (Dir_node es)"
  shows "valid_blk p" "dir_ok m p" "es = entries m p" "distinct (map fst es)"
    and "map_of es n = Some i \<Longrightarrow> valid_blk i \<and> 2 \<le> i \<or> i = 0"
proof -
  have d: "dirs_ok m" and t: "tree_ok (tree m)" using assms(1) by (simp_all add: fs_ok_def)
  show "valid_blk p" "es = entries m p" using assms(2) by (simp_all add: tree_Dir)
  show "dir_ok m p" using d assms(2) unfolding dirs_ok_def by blast
  show "distinct (map fst es)" by (rule tree_okD(2) [OF t assms(2)])
  assume "map_of es n = Some i"
  then have "tree_entry (tree m) p n i"
    using assms(2) map_of_SomeD by (fastforce simp: tree_entry_def)
  then have "i \<noteq> 1" "tree m i \<noteq> None" using tree_okD(3) [OF t] by blast+
  then show "valid_blk i \<and> 2 \<le> i \<or> i = 0" by (auto simp: tree_None valid_blk_def)
qed

lemma lookup_ok:
  assumes "fs_ok (blks s)" "tree (blks s) (i_private dir) = Some (Dir_node es)" "c_string name"
  shows "expfs_lookup True s dir name =
    Some (map_option (inode_of (blks s)) (map_of es name), [Touch])"
proof -
  let ?m = "blks s" and ?p = "i_private dir"
  note f = fs_okD [OF assms(1,2)]
  have find: "find_entry ?m ?p name 0 (nat (sint (get32 ?m (a_size ?p)))) = Some (slot_of es name)"
    using find_entry_slot [OF f(1,2) assms(3)] by (simp add: f(3) [symmetric])
  show ?thesis
  proof (cases "map_of es name")
    case None
    then have "slot_of es name = None" by (simp add: slot_of_None)
    then show ?thesis
      using None find f(1) by (simp add: expfs_lookup_def Let_def load32_get)
  next
    case (Some i)
    obtain k w where k: "slot_of es name = Some k" "load32 ?m (a_entry_index ?p k) = Some w" "sint w = i"
      using slot_of_index [OF f(1,2), of name i] Some by (auto simp: f(3))
    have "valid_blk i" using f(5) [OF Some] by (auto simp: valid_blk_def MAX_FILE_def)
    then show ?thesis
      using Some find f(1) k
      by (simp add: expfs_lookup_def Let_def load32_get expfs_geti_inode_of)
  qed
qed

section \<open>Listing\<close>

lemma emit_loop_map:
  assumes "valid_blk b" "0 \<le> i" "i + int k \<le> 4"
  shows "emit_loop m b i k =
    Some (map (\<lambda>j. (peek m (a_entry b (i + int j)) 50, get32 m (a_entry_index b (i + int j)))) [0..<k])"
  using assms(2,3)
proof (induction k arbitrary: i)
  case (Suc k)
  have "load m (a_entry b i) 50 = Some (peek m (a_entry b i) 50)"
    using in_blks_entry [OF assms(1), of i 50] Suc.prems by (simp add: load_def)
  moreover have "load32 m (a_entry_index b i) = Some (get32 m (a_entry_index b i))"
    using Suc.prems by (intro load32_get in_blks_entry_index assms(1)) auto
  ultimately show ?case
    using Suc.IH [of "i + 1"] Suc.prems
    by (simp add: upt_conv_Cons map_Suc_upt [symmetric] algebra_simps del: upt_Suc)
qed simp

lemma iterate_ok:
  assumes "fs_ok (blks s)" "tree (blks s) (i_private dir) = Some (Dir_node es)"
  shows "\<exists>out. expfs_iterate s dir 0 =
      Some (Inr 0, 56 * of_nat (length es), out, [Acquire, Touch, Release]) \<and>
    map (\<lambda>(n, i). (takeWhile (\<lambda>c. c \<noteq> 0) n, sint i)) out = es"
proof -
  let ?m = "blks s" and ?b = "i_private dir"
  note f = fs_okD [OF assms]
  let ?out = "map (\<lambda>j. (peek ?m (a_entry ?b (int j)) 50, get32 ?m (a_entry_index ?b (int j))))
    [0..<nat (children ?m ?b)]"
  have "emit_loop ?m ?b 0 (nat (children ?m ?b)) = Some ?out"
    using emit_loop_map [OF f(1), of 0 "nat (children ?m ?b)" ?m] f(2) by (simp add: dir_ok_def)
  moreover have "map (\<lambda>(n, i). (takeWhile (\<lambda>c. c \<noteq> 0) n, sint i)) ?out = es"
    by (simp add: f(3) entries_def entry_at_def cname_def comp_def)
  moreover have "length ?out = length es" by (simp add: f(3) length_entries)
  moreover have "S_ISDIR (get32 ?m (a_mode ?b))" using assms(2) by (simp add: tree_Dir)
  ultimately show ?thesis
    using f(1) by (simp add: expfs_iterate_def Let_def load32_get children_def sizeof_direntry_def
        mult.commute)
qed

section \<open>Removing\<close>

lemma clear_used_tree:
  assumes "dirs_ok m"
  shows "tree (put32 m (a_used i) 0) = (tree m)(i := None)" "dirs_ok (put32 m (a_used i) 0)"
    and "same_except i m (put32 m (a_used i) 0)"
proof -
  show s: "same_except i m (put32 m (a_used i) 0)"
    by (rule same_except_put32) (simp_all add: layout)
  have n: "tree (put32 m (a_used i) 0) i = None" by (simp add: tree_None peek_simps)
  show "tree (put32 m (a_used i) 0) = (tree m)(i := None)" by (rule tree_update [OF s assms n])
  show "dirs_ok (put32 m (a_used i) 0)"
    by (rule same_except_dirs_ok [OF s assms]) (simp add: n)
qed

lemma erase_entry_tree:
  assumes "dirs_ok m" "tree m p = Some (Dir_node es)" "c_string n"
  shows "\<exists>m'. erase_entry m p n = Some (slot_of es n, m') \<and> dirs_ok m' \<and>
    tree m' = (tree m)(p \<mapsto> Dir_node (dir_erase n es)) \<and> same_except p m m'"
proof -
  have p: "valid_blk p" "dir_ok m p" "es = entries m p"
    using assms(1,2) unfolding dirs_ok_def by (auto simp: tree_Dir)
  obtain m' where m': "erase_entry m p n = Some (slot_of es n, m')"
    "entries m' p = dir_erase n es" "dir_ok m' p" "dir_frame p m m'"
    using erase_entry_ok [OF p(1,2) assms(3)] p(3) by blast
  then show ?thesis
    using dir_frame_tree [OF m'(4) assms(1,2) m'(2,3)] dir_frame_same_except by blast
qed

lemma unlink_ok:
  assumes "fs_ok (blks s)" "tree (blks s) (i_private dir) = Some (Dir_node es)"
    and "c_string (d_name dentry)" "d_inode dentry = Some inode"
    and "map_of es (d_name dentry) = Some (i_private inode)"
    and "tree (blks s) (i_private inode) = Some Leaf_node"
  shows "\<exists>m'. expfs_unlink ret s dir dentry =
      Some (pass_on ret, s\<lparr>blks := m'\<rparr>, [Acquire, Touch, Release]) \<and> fs_ok m' \<and>
    tree m' = tree_remove (i_private dir) (d_name dentry) (i_private inode) (tree (blks s)) \<and>
    frame {i_private dir, i_private inode} (blks s) m'"
proof -
  let ?m = "blks s" and ?p = "i_private dir" and ?n = "d_name dentry" and ?i = "i_private inode"
  have d: "dirs_ok ?m" and t: "tree_ok (tree ?m)" using assms(1) by (simp_all add: fs_ok_def)
  obtain m' where m': "erase_entry ?m ?p ?n = Some (slot_of es ?n, m')" "dirs_ok m'"
    "tree m' = (tree ?m)(?p \<mapsto> Dir_node (dir_erase ?n es))" "same_except ?p ?m m'"
    using erase_entry_tree [OF d assms(2,3)] by blast
  note c = clear_used_tree [OF m'(2), of ?i]
  have "valid_blk ?i" using assms(6) by (simp add: tree_Leaf)
  then have r: "expfs_unlink ret s dir dentry =
      Some (pass_on ret, s\<lparr>blks := put32 m' (a_used ?i) 0\<rparr>, [Acquire, Touch, Release])"
    using m'(1) assms(4) by (simp add: expfs_unlink_def Let_def store32_put)
  have fr: "frame {?p, ?i} ?m (put32 m' (a_used ?i) 0)"
    using frame_trans [OF same_except_frame [OF m'(4)] same_except_frame [OF c(3)]]
    by (simp add: insert_commute)
  have tr: "tree (put32 m' (a_used ?i) 0) = tree_remove ?p ?n ?i (tree ?m)"
    using c(1) m'(3) assms(2) by (simp add: tree_remove_def)
  have "tree_ok (tree_remove ?p ?n ?i (tree ?m))"
    using assms(5,6) by (intro tree_remove_ok [OF t assms(2)] map_of_SomeD) auto
  then show ?thesis using r tr fr c(2) by (auto simp: fs_ok_def)
qed

lemma rmdir_ok:
  assumes "fs_ok (blks s)" "tree (blks s) (i_private dir) = Some (Dir_node es)"
    and "c_string (d_name dentry)" "d_inode dentry = Some inode"
    and "map_of es (d_name dentry) = Some (i_private inode)"
    and "tree (blks s) (i_private inode) = Some (Dir_node [])"
  shows "\<exists>m'. expfs_rmdir ret s dir dentry =
      Some (pass_on ret, s\<lparr>blks := m'\<rparr>, [Acquire, Touch, Release]) \<and> fs_ok m' \<and>
    tree m' = tree_remove (i_private dir) (d_name dentry) (i_private inode) (tree (blks s)) \<and>
    frame {i_private dir, i_private inode} (blks s) m'"
proof -
  let ?m = "blks s" and ?p = "i_private dir" and ?n = "d_name dentry" and ?i = "i_private inode"
  have d: "dirs_ok ?m" and t: "tree_ok (tree ?m)" using assms(1) by (simp_all add: fs_ok_def)
  note i = fs_okD(1-3) [OF assms(1,6)]
  have ne: "?p \<noteq> ?i" using assms(2,5,6) by auto
  have "children ?m ?i = 0" using i(2,3) length_entries [of ?m ?i] by (simp add: dir_ok_def)
  then have c0: "get32 ?m (a_size ?i) = 0" by (simp add: children_def signed_eq_0_iff)
  have isdir: "S_ISDIR (get32 ?m (a_mode ?i))" using assms(6) by (simp add: tree_Dir)
  let ?m1 = "put32 ?m (a_used ?i) 0"
  note c = clear_used_tree [OF d, of ?i]
  have "tree ?m1 ?p = Some (Dir_node es)" using c(1) assms(2) ne by simp
  then obtain m' where m': "erase_entry ?m1 ?p ?n = Some (slot_of es ?n, m')" "dirs_ok m'"
    "tree m' = (tree ?m1)(?p \<mapsto> Dir_node (dir_erase ?n es))" "same_except ?p ?m1 m'"
    using erase_entry_tree [OF c(2) _ assms(3)] by blast
  have r: "expfs_rmdir ret s dir dentry =
      Some (pass_on ret, s\<lparr>blks := m'\<rparr>, [Acquire, Touch, Release])"
    using m'(1) assms(4) i(1) c0 isdir
    by (simp add: expfs_rmdir_def Let_def load32_get store32_put)
  have fr: "frame {?p, ?i} ?m m'"
    using frame_trans [OF same_except_frame [OF c(3)] same_except_frame [OF m'(4)]]
    by (simp add: insert_commute)
  have tr: "tree m' = tree_remove ?p ?n ?i (tree ?m)"
    using c(1) m'(3) assms(2) ne by (simp add: tree_remove_def fun_upd_twist)
  have "tree_ok (tree_remove ?p ?n ?i (tree ?m))"
    using assms(5,6) by (intro tree_remove_ok [OF t assms(2)] map_of_SomeD) auto
  then show ?thesis using r tr fr m'(2) by (auto simp: fs_ok_def)
qed

lemma rmdir_not_empty:
  assumes "fs_ok (blks s)" "d_inode dentry = Some inode"
    and "tree (blks s) (i_private inode) = Some node" "node \<noteq> Dir_node []"
  shows "expfs_rmdir ret s dir dentry = Some (Inl ENOTEMPTY, s, [Acquire, Touch, Release])"
proof -
  let ?m = "blks s" and ?i = "i_private inode"
  have v: "valid_blk ?i" using assms(3) by (auto simp: tree_def is_used_def split: if_splits)
  have "\<not> (S_ISDIR (get32 ?m (a_mode ?i)) \<and> get32 ?m (a_size ?i) = 0)"
  proof
    assume a: "S_ISDIR (get32 ?m (a_mode ?i)) \<and> get32 ?m (a_size ?i) = 0"
    then have "entries ?m ?i = []" by (simp add: entries_def children_def)
    then show False using a assms(3,4) by (auto simp: tree_def split: if_splits)
  qed
  then show ?thesis using v assms(2) by (auto simp: expfs_rmdir_def Let_def load32_get)
qed

section \<open>Renaming\<close>

lemma append_entry_tree:
  assumes "dirs_ok m" "tree m p = Some (Dir_node es)" "name_ok n" "length es < 4"
  shows "\<exists>m'. append_entry m p n w = Some m' \<and> dirs_ok m' \<and>
    tree m' = (tree m)(p \<mapsto> Dir_node (es @ [(n, sint w)])) \<and> same_except p m m'"
proof -
  have p: "valid_blk p" "dir_ok m p" "es = entries m p"
    using assms(1,2) unfolding dirs_ok_def by (auto simp: tree_Dir)
  have c: "children m p < 4" using assms(4) p(3) by (simp add: length_entries)
  have n: "c_string n" "length n < 50" using assms(3) by (simp_all add: name_ok_def)
  obtain m' where m': "append_entry m p n w = Some m'"
    "entries m' p = es @ [(n, sint w)]" "dir_ok m' p" "dir_frame p m m'"
    using append_entry_ok [OF p(1,2) n c] p(3) by blast
  then show ?thesis
    using dir_frame_tree [OF m'(4) assms(1,2) m'(2,3)] dir_frame_same_except by blast
qed

lemma i_ino_low: "ucast (i_ino (inode_of m i)) = (word_of_int i :: u32)"
  by (simp add: inode_of_def ucast_eq word_of_int_eq_iff take_bit_take_bit unsigned_of_int)

lemma rename_ok:
  fixes old_dir old_dentry new_dir new_dentry
  defines "p \<equiv> i_private old_dir" and "n \<equiv> d_name old_dentry"
    and "q \<equiv> i_private new_dir" and "n' \<equiv> d_name new_dentry"
  assumes "fs_ok (blks s)" "tree (blks s) p = Some (Dir_node es)" "map_of es n = Some i"
    and "tree (blks s) q = Some (Dir_node es')" "n' \<notin> fst ` set es'"
    and "length es' < 4 \<or> p = q" "c_string n" "name_ok n'"
  shows "\<exists>m'. expfs_rename True ret s old_dir old_dentry new_dir new_dentry =
      Some (pass_on ret, s\<lparr>blks := m'\<rparr>, [Acquire, Touch, Release]) \<and> fs_ok m' \<and>
    tree m' = tree_move p n q n' (tree (blks s)) \<and> frame {p, q} (blks s) m'"
proof -
  let ?m = "blks s"
  have d: "dirs_ok ?m" and t: "tree_ok (tree ?m)" using assms(5) by (simp_all add: fs_ok_def)
  have v: "valid_blk i" using fs_okD(5) [OF assms(5,6,7)] by (auto simp: valid_blk_def MAX_FILE_def)
  then have i: "sint (word_of_int i :: u32) = i"
    by (intro sint_word_small) (auto simp: valid_blk_def MAX_FILE_def)
  note f = fs_okD(1-3) [OF assms(5,6)]
  obtain k w where k: "slot_of es n = Some k" "load32 ?m (a_entry_index p k) = Some w" "sint w = i"
    using slot_of_index [OF f(1,2), of n i] assms(7) by (auto simp: f(3))
  obtain m1 where m1: "erase_entry ?m p n = Some (Some k, m1)" "dirs_ok m1"
    "tree m1 = (tree ?m)(p \<mapsto> Dir_node (dir_erase n es))" "same_except p ?m m1"
    using erase_entry_tree [OF d assms(6,11)] k(1) by auto
  define es2 where "es2 = (if p = q then dir_erase n es else es')"
  have q: "tree m1 q = Some (Dir_node es2)" using m1(3) assms(8) by (simp add: es2_def)
  have n_in: "n \<in> fst ` set es" using map_of_SomeD [OF assms(7)] by force
  have "length es \<le> 4"
    using fs_okD(2,3) [OF assms(5,6)] by (simp add: length_entries dir_ok_def nat_le_iff)
  moreover have "0 < length es" using n_in by (cases es) auto
  ultimately have "length es2 < 4"
    using n_in assms(10) by (auto simp: es2_def length_dir_erase)
  then obtain m' where m': "append_entry m1 q n' (word_of_int i) = Some m'" "dirs_ok m'"
    "tree m' = (tree m1)(q \<mapsto> Dir_node (es2 @ [(n', i)]))" "same_except q m1 m'"
    using append_entry_tree [OF m1(2) q assms(12), of "word_of_int i"] i by auto
  have r: "expfs_rename True ret s old_dir old_dentry new_dir new_dentry =
      Some (pass_on ret, s\<lparr>blks := m'\<rparr>, [Acquire, Touch, Release])"
    using m1(1) m'(1) v k(2,3)
    by (simp add: expfs_rename_def Let_def expfs_geti_inode_of i_ino_low assms(1-4) [symmetric])
  have "frame {p, q} ?m m'"
    using frame_trans [OF same_except_frame [OF m1(4)] same_except_frame [OF m'(4)]]
    by (simp add: insert_commute)
  moreover have "tree m' = tree_move p n q n' (tree ?m)"
    using m'(3) m1(3) assms(6,7,8)
    by (cases "p = q") (simp_all add: tree_move_value tree_move_value_same es2_def)
  moreover have "tree_ok (tree_move p n q n' (tree ?m))"
    by (rule tree_move_ok [OF t assms(6,7,8,9)])
  ultimately show ?thesis using r m'(2) by (auto simp: fs_ok_def)
qed

section \<open>Mounting\<close>

lemma fill_super_ok:
  "\<exists>s'. expfs_fill_super True \<lparr>blks = (\<lambda>x. 0), usedBlks = u\<rparr> = Some (inode_of (blks s') 1, s') \<and>
     usedBlks s' = u + 1 \<and> fs_ok (blks s') \<and> tree (blks s') = [1 \<mapsto> Dir_node []] \<and>
     first_free (blks s') = Some 2"
proof -
  let ?z = "(\<lambda>x. 0) :: store"
  let ?m = "put32 (put32 (put32 (put32 ?z (a_mode 1) S_IFDIR) (a_size 1) 0) (a_index 1) 1)
      (a_used 1) 1"
  have v: "valid_blk 1" by (simp add: valid_blk_def MAX_FILE_def)
  have z: "get32 ?z a = 0" for a by (simp add: get32_def peek_def of_le32_def upt_rec)
  have g: "get32 ?m (a_used 1) = 1" "get32 ?m (a_mode 1) = S_IFDIR" "get32 ?m (a_size 1) = 0"
    by (simp_all add: peek_simps get32_put32_other layout)
  have dz: "dirs_ok ?z" by (simp add: dirs_ok_def tree_Dir z)
  have se: "same_except 1 ?z ?m"
    by (intro same_except_trans [OF _ same_except_put32]) (simp_all add: layout)
  have d: "S_ISDIR S_IFDIR" by (simp add: S_ISDIR_def S_IFDIR_def S_IFMT_def)
  have c: "children ?m 1 = 0" by (simp add: children_def g)
  have t1: "tree ?m 1 = Some (Dir_node [])"
    using v d g by (simp add: tree_Dir entries_def c)
  have "tree ?z = Map.empty" by (simp add: fun_eq_iff tree_None z)
  then have t: "tree ?m = [1 \<mapsto> Dir_node []]" using tree_update [OF se dz t1] by simp
  have "dirs_ok ?m" by (rule same_except_dirs_ok [OF se dz]) (simp add: dir_ok_def c)
  moreover have "tree_ok [1 \<mapsto> Dir_node []]"
    by (rule tree_okI) (auto simp: tree_entry_def split: if_splits)
  ultimately have ok: "fs_ok ?m" using t by (simp add: fs_ok_def)
  have "get32 ?m (a_used 2) = 0" by (simp add: get32_put32_other layout z)
  then have ff: "first_free ?m = Some 2"
    by (simp add: first_free_def MAX_FILE_def upto_rec1 [of 2])
  have "expfs_fill_super True \<lparr>blks = ?z, usedBlks = u\<rparr> =
      Some (inode_of ?m 1, \<lparr>blks = ?m, usedBlks = u + 1\<rparr>)"
    using v d by (simp add: expfs_fill_super_def store32_put inode_of_def g)
  then show ?thesis
    using ok t ff by (intro exI [of _ "\<lparr>blks = ?m, usedBlks = u + 1\<rparr>"]) simp
qed

end
