(* ===== verification/Name_Directory.thy ===== *)
theory Name_Directory
  imports Kernel_Prelude
begin

text \<open>
  The contract between a directory's storage and the operations that use it: linking a free name
  and unlinking a name behave like updates of a finite map, up to a capacity. The session lemma
  says that any sequence of calls that respects the contract never fails and is tracked by the
  map.
\<close>

datatype ('n, 'i) name_call = Link 'n 'i | Unlink 'n

fun map_call :: "('n, 'i) name_call \<Rightarrow> ('n \<Rightarrow> 'i option) \<Rightarrow> ('n \<Rightarrow> 'i option)" where
  "map_call (Link n i) f = f(n \<mapsto> i)"
| "map_call (Unlink n) f = f(n := None)"

fun legal_calls ::
  "('n \<Rightarrow> bool) \<Rightarrow> ('i \<Rightarrow> bool) \<Rightarrow> nat \<Rightarrow> ('n, 'i) name_call list \<Rightarrow> ('n \<Rightarrow> 'i option) \<Rightarrow> bool" where
  "legal_calls nm ix cap [] f = True"
| "legal_calls nm ix cap (Link n i # cs) f =
     (nm n \<and> ix i \<and> f n = None \<and> card (dom f) < cap \<and> legal_calls nm ix cap cs (f(n \<mapsto> i)))"
| "legal_calls nm ix cap (Unlink n # cs) f = (nm n \<and> legal_calls nm ix cap cs (f(n := None)))"

fun run_calls ::
  "('n \<Rightarrow> 'i \<Rightarrow> 's \<Rightarrow> 's option) \<Rightarrow> ('n \<Rightarrow> 's \<Rightarrow> 's option) \<Rightarrow>
     ('n, 'i) name_call list \<Rightarrow> 's \<Rightarrow> 's option" where
  "run_calls lnk unl [] s = Some s"
| "run_calls lnk unl (Link n i # cs) s = do { s \<leftarrow> lnk n i s; run_calls lnk unl cs s }"
| "run_calls lnk unl (Unlink n # cs) s = do { s \<leftarrow> unl n s; run_calls lnk unl cs s }"

locale name_directory =
  fixes good :: "'s \<Rightarrow> bool" and look :: "'s \<Rightarrow> 'n \<Rightarrow> 'i option"
    and nm :: "'n \<Rightarrow> bool" and ix :: "'i \<Rightarrow> bool" and cap :: nat
    and lnk :: "'n \<Rightarrow> 'i \<Rightarrow> 's \<Rightarrow> 's option" and unl :: "'n \<Rightarrow> 's \<Rightarrow> 's option"
  assumes link_law: "good s \<Longrightarrow> nm n \<Longrightarrow> ix i \<Longrightarrow> look s n = None \<Longrightarrow> card (dom (look s)) < cap \<Longrightarrow>
      \<exists>s'. lnk n i s = Some s' \<and> good s' \<and> look s' = (look s)(n \<mapsto> i)"
    and unlink_law: "good s \<Longrightarrow> nm n \<Longrightarrow>
      \<exists>s'. unl n s = Some s' \<and> good s' \<and> look s' = (look s)(n := None)"
begin

lemma session:
  "good s \<Longrightarrow> legal_calls nm ix cap cs (look s) \<Longrightarrow>
     \<exists>s'. run_calls lnk unl cs s = Some s' \<and> good s' \<and> look s' = fold map_call cs (look s)"
proof (induction cs arbitrary: s)
  case Nil
  then show ?case by simp
next
  case (Cons c cs)
  show ?case
  proof (cases c)
    case (Link n i)
    then obtain s1 where s1: "lnk n i s = Some s1" "good s1" "look s1 = (look s)(n \<mapsto> i)"
      using Cons.prems link_law [of s n i] by auto
    have "legal_calls nm ix cap cs (look s1)" unfolding s1(3) using Cons.prems(2) Link by simp
    moreover have "fold map_call (c # cs) (look s) = fold map_call cs (look s1)"
      unfolding s1(3) by (simp add: Link)
    moreover have "run_calls lnk unl (c # cs) s = run_calls lnk unl cs s1"
      using s1(1) by (simp add: Link)
    ultimately show ?thesis using Cons.IH [OF s1(2)] by (simp del: fold_simps)
  next
    case (Unlink n)
    then obtain s1 where s1: "unl n s = Some s1" "good s1" "look s1 = (look s)(n := None)"
      using Cons.prems unlink_law [of s n] by auto
    have "legal_calls nm ix cap cs (look s1)" unfolding s1(3) using Cons.prems(2) Unlink by simp
    moreover have "fold map_call (c # cs) (look s) = fold map_call cs (look s1)"
      unfolding s1(3) by (simp add: Unlink)
    moreover have "run_calls lnk unl (c # cs) s = run_calls lnk unl cs s1"
      using s1(1) by (simp add: Unlink)
    ultimately show ?thesis using Cons.IH [OF s1(2)] by (simp del: fold_simps)
  qed
qed

text \<open>A rename within a directory: unlink the old name, link the new one to what it named.\<close>

lemma rename_within:
  assumes "good s" "nm n" "nm n'" "look s n = Some i" "ix i" "look s n' = None \<or> n' = n"
    "card (dom (look s)) \<le> cap" "finite (dom (look s))"
  shows "\<exists>s' s''. unl n s = Some s' \<and> lnk n' i s' = Some s'' \<and> good s'' \<and>
    look s'' = ((look s)(n := None))(n' \<mapsto> i)"
proof -
  obtain s' where s': "unl n s = Some s'" "good s'" "look s' = (look s)(n := None)"
    using unlink_law [OF assms(1,2)] assms(4) by auto
  have "card (dom (look s')) < card (dom (look s))"
    unfolding s'(3) using assms(4,8) by (intro psubset_card_mono) auto
  then show ?thesis
    using link_law [OF s'(2) assms(3,5)] s' assms(6,7) by (auto split: if_splits)
qed

end

end
