(* ===== verification/Expfs_Sessions.thy ===== *)
theory Expfs_Sessions
  imports Expfs_Refine2 Name_Directory
begin

text \<open>
  \<open>expfs\<close> directories provide the contract \<open>name_directory\<close> with room for four names, and the
  handlers that change a directory bracket their accesses with \<open>expfs_lock\<close>, so that they are a
  \<open>lock_client\<close>. What the other handlers do with the lock is stated here as well.
\<close>

section \<open>The directory contract\<close>

definition dir_good :: "int \<Rightarrow> store \<Rightarrow> bool" where
  "dir_good b m \<longleftrightarrow> valid_blk b \<and> dir_ok m b \<and> distinct (map fst (entries m b))"

definition dir_look :: "int \<Rightarrow> store \<Rightarrow> u8 list \<Rightarrow> int option" where
  "dir_look b m = map_of (entries m b)"

definition dir_link :: "int \<Rightarrow> u8 list \<Rightarrow> int \<Rightarrow> store \<Rightarrow> store option" where
  "dir_link b n i m = append_entry m b n (word_of_int i)"

definition dir_unlink :: "int \<Rightarrow> u8 list \<Rightarrow> store \<Rightarrow> store option" where
  "dir_unlink b n m = map_option snd (erase_entry m b n)"

lemma card_dom_map_of: "distinct (map fst es) \<Longrightarrow> card (dom (map_of es)) = length es"
  by (metis distinct_card dom_map_of_conv_image_fst length_map list.set_map)

lemma map_of_snoc: "n \<notin> fst ` set es \<Longrightarrow> map_of (es @ [(n, i)]) = (map_of es)(n \<mapsto> i)"
proof (induction es)
  case (Cons e es)
  then show ?case by (cases e) (auto simp: fun_eq_iff simp del: map_of_append)
qed simp

interpretation xd: name_directory "dir_good b" "dir_look b" name_ok valid_blk 4
  "dir_link b" "dir_unlink b" for b
proof
  fix m n i
  assume a: "dir_good b m" "name_ok n" "valid_blk i" "dir_look b m n = None"
    "card (dom (dir_look b m)) < 4"
  have "n \<notin> fst ` set (entries m b)" using a(4) by (simp add: dir_look_def map_of_eq_None_iff)
  moreover have "children m b < 4"
    using a(1,5) card_dom_map_of [of "entries m b"]
    by (simp add: dir_good_def dir_look_def length_entries dir_ok_def)
  moreover have "sint (word_of_int i :: u32) = i"
    using a(3) by (intro sint_word_small) (auto simp: valid_blk_def MAX_FILE_def)
  ultimately show "\<exists>m'. dir_link b n i m = Some m' \<and> dir_good b m' \<and>
      dir_look b m' = (dir_look b m)(n \<mapsto> i)"
    using append_entry_ok [of b m n "word_of_int i"] a(1,2)
    by (auto simp: dir_good_def dir_look_def dir_link_def name_ok_def map_of_snoc
        simp del: map_of_append)
next
  fix m n
  assume a: "dir_good b m" "name_ok n"
  then show "\<exists>m'. dir_unlink b n m = Some m' \<and> dir_good b m' \<and>
      dir_look b m' = (dir_look b m)(n := None)"
    using erase_entry_ok [of b m n]
    by (auto simp: dir_good_def dir_look_def dir_unlink_def name_ok_def map_of_dir_erase
        distinct_dir_erase)
qed

section \<open>Lock traces\<close>

text \<open>What the handlers that change directories may do with the lock.\<close>

definition expfs_dir_traces :: "lock_event list set" where
  "expfs_dir_traces =
     {t. \<exists>ok s dir dentry mode r i s'. expfs_do_create ok s dir dentry mode = Some (r, i, s', t)} \<union>
     {t. \<exists>k s dir dentry r s'. expfs_rmdir k s dir dentry = Some (r, s', t)} \<union>
     {t. \<exists>k s dir dentry r s'. expfs_unlink k s dir dentry = Some (r, s', t)} \<union>
     {t. \<exists>ok k s d1 e1 d2 e2 r s'. expfs_rename ok k s d1 e1 d2 e2 = Some (r, s', t)}"

text \<open>The handlers of regular files and the listing of a directory.\<close>

definition expfs_file_traces :: "lock_event list set" where
  "expfs_file_traces =
     {t. \<exists>s inode us buf len pos r p us'.
        expfs_read flat_out s inode us buf len pos = Some (r, p, us', t)} \<union>
     {t. \<exists>s inode us buf len pos r p s'.
        expfs_write flat_in s inode us buf len pos = Some (r, p, s', t)} \<union>
     {t. \<exists>s inode pos r p out. expfs_iterate s inode pos = Some (r, p, out, t)}"

lemma do_create_in_traces:
  "expfs_do_create ok s dir dentry mode = Some (r, i, s', t) \<Longrightarrow> t \<in> expfs_dir_traces"
  unfolding expfs_dir_traces_def Un_iff mem_Collect_eq by blast

lemma read_in_traces:
  "expfs_read flat_out s inode us buf len pos = Some (r, p, us', t) \<Longrightarrow> t \<in> expfs_file_traces"
  unfolding expfs_file_traces_def Un_iff mem_Collect_eq by blast

lemma expfs_dir_traces_subset: "t \<in> expfs_dir_traces \<Longrightarrow> t = [] \<or> t = [Acquire, Touch, Release]"
  unfolding expfs_dir_traces_def
  by (auto simp: expfs_do_create_def expfs_rmdir_def expfs_unlink_def expfs_rename_def Let_def
      split: if_splits option.splits bind_splits)

lemma expfs_file_traces_subset:
  "t \<in> expfs_file_traces \<Longrightarrow>
     t = [Acquire] \<or> t = [Acquire, Touch] \<or> t = [Acquire, Touch, Release]"
  unfolding expfs_file_traces_def
  by (auto simp: expfs_read_def expfs_write_def expfs_iterate_def Let_def
      split: if_splits option.splits bind_splits prod.splits)

interpretation xl: lock_client expfs_dir_traces
  by unfold_locales (auto dest: expfs_dir_traces_subset)

end
