(* ===== verification/Expfs_Props.thy ===== *)
theory Expfs_Props
  imports Expfs_Sessions
begin

text \<open>
  The properties of \<open>expfs\<close>: what its operations on the name space mean, what they do to file
  contents, and where the code leaves its contract (full disk, full directory, leaked lock,
  rename onto an existing name).
\<close>

section \<open>Example states\<close>

lemma type_bits:
  "type_ok 0x8000" "type_ok 0x4000" "new_node 0x8000 = Leaf_node" "new_node 0x4000 = Dir_node []"
  by (simp_all add: type_ok_def new_node_def S_ISDIR_def S_ISREG_def S_IFDIR_def S_IFREG_def
      S_IFMT_def)

lemma name_ok_char: "c \<noteq> 0 \<Longrightarrow> name_ok [c]"
  by (simp add: name_ok_def c_string_def)

definition root_inode :: inode where
  "root_inode = \<lparr>i_ino = 1, i_private = 1, i_fop = Expfs_dir_fops\<rparr>"

definition dentry_of :: "u8 list \<Rightarrow> inode option \<Rightarrow> dentry" where
  "dentry_of n i = \<lparr>d_name = n, d_inode = i\<rparr>"

lemma root_simps [simp]: "i_private root_inode = 1" "d_name (dentry_of n i) = n"
  "d_inode (dentry_of n i) = i" "i_private (inode_of m k) = k"
  by (simp_all add: root_inode_def dentry_of_def inode_of_def)

lemma sample_mounted:
  obtains s :: expfs where "fs_ok (blks s)" "usedBlks s = 1" "tree (blks s) = [1 \<mapsto> Dir_node []]"
    "first_free (blks s) = Some 2"
  using fill_super_ok [of 0] by auto

lemma sample_child:
  assumes "type_ok mode"
  obtains s :: expfs where "fs_ok (blks s)" "usedBlks s = 2"
    "tree (blks s) = [1 \<mapsto> Dir_node [([97], 2)], 2 \<mapsto> new_node mode]"
proof -
  obtain s :: expfs where s: "fs_ok (blks s)" "usedBlks s = 1" "tree (blks s) = [1 \<mapsto> Dir_node []]"
    "first_free (blks s) = Some 2" by (rule sample_mounted)
  have "\<exists>s' :: expfs. usedBlks s' = usedBlks s + 1 \<and> fs_ok (blks s') \<and>
      tree (blks s') = tree_create 1 [97] 2 (new_node mode) (tree (blks s))"
    using do_create_ok [of s mode 2 root_inode "[]" "dentry_of [97] None"] s assms
      name_ok_char [of 97] by (auto simp: MAX_FILE_def)
  then show ?thesis using that s by (auto simp: tree_create_def fun_upd_twist)
qed

section \<open>The name space\<close>

text \<open>
  C9. Creating a node: with a free block, a free name that fits and room in the directory,
  \<open>expfs_create\<close> succeeds, takes the first free block, acts on the file system as the abstract
  operation that adds one node under one name, keeps it well-formed, and holds the lock
  properly; looking the new name up afterwards finds the inode that was attached to the dentry.
\<close>

theorem expfs_create_refines:
  assumes "fs_ok (blks s)" "usedBlks s < MAX_FILE" "type_ok mode"
    and "first_free (blks s) = Some idx" "tree (blks s) (i_private dir) = Some (Dir_node es)"
    and "name_ok (d_name dentry)" "d_name dentry \<notin> fst ` set es" "length es < 4"
  shows "\<exists>s' inode. expfs_create True s dir dentry mode excl =
      Some (Inr (), Some inode, s', [Acquire, Touch, Release]) \<and>
    usedBlks s' = usedBlks s + 1 \<and> fs_ok (blks s') \<and>
    tree (blks s') = tree_create (i_private dir) (d_name dentry) idx (new_node mode) (tree (blks s)) \<and>
    expfs_lookup True s' dir (d_name dentry) = Some (Some inode, [Touch])"
proof -
  obtain s' where s': "expfs_do_create True s dir dentry mode =
      Some (Inr (), Some (inode_of (blks s') idx), s', [Acquire, Touch, Release])"
    "usedBlks s' = usedBlks s + 1" "fs_ok (blks s')"
    "tree (blks s') = tree_create (i_private dir) (d_name dentry) idx (new_node mode) (tree (blks s))"
    using do_create_ok [OF assms] by blast
  have t: "tree (blks s') (i_private dir) = Some (Dir_node (es @ [(d_name dentry, idx)]))"
    using s'(4) assms(5) by (simp add: tree_create_def)
  have "c_string (d_name dentry)" using assms(6) by (simp add: name_ok_def)
  from lookup_ok [OF s'(3) t this] have "expfs_lookup True s' dir (d_name dentry) =
      Some (Some (inode_of (blks s') idx), [Touch])"
    using assms(7) by (simp add: map_of_snoc del: map_of_append)
  then show ?thesis using s' by (auto simp: expfs_create_def)
qed

lemma expfs_create_refines_witness:
  "\<exists>s s' inode. tree (blks s) = [1 \<mapsto> Dir_node []] \<and>
     expfs_create True s root_inode (dentry_of [97] None) 0x8000 True =
       Some (Inr (), Some inode, s', [Acquire, Touch, Release]) \<and>
     tree (blks s') = [1 \<mapsto> Dir_node [([97], 2)], 2 \<mapsto> Leaf_node]"
proof -
  obtain s :: expfs where s: "fs_ok (blks s)" "usedBlks s = 1" "tree (blks s) = [1 \<mapsto> Dir_node []]"
    "first_free (blks s) = Some 2" by (rule sample_mounted)
  have "\<exists>s' inode. expfs_create True s root_inode (dentry_of [97] None) 0x8000 True =
      Some (Inr (), Some inode, s', [Acquire, Touch, Release]) \<and>
    tree (blks s') = tree_create 1 [97] 2 Leaf_node (tree (blks s))"
    using expfs_create_refines [of s "0x8000" 2 root_inode "[]" "dentry_of [97] None" True]
      s type_bits name_ok_char [of 97] by (auto simp: MAX_FILE_def)
  then show ?thesis using s(3) by (auto simp: tree_create_def fun_upd_twist)
qed

text \<open>
  C13. Lookup is exact: in a well-formed file system \<open>expfs_lookup\<close> attaches to the dentry the
  inode of the block the directory lists under that name, and none if the name is absent. It
  reads the directory without taking the lock.
\<close>

theorem expfs_lookup_exact:
  assumes "fs_ok (blks s)" "tree (blks s) (i_private dir) = Some (Dir_node es)" "c_string name"
  shows "expfs_lookup True s dir name =
    Some (map_option (inode_of (blks s)) (map_of es name), [Touch])"
  using assms by (rule lookup_ok)

lemma expfs_lookup_exact_witness:
  "\<exists>s. tree (blks s) 1 = Some (Dir_node [([97], 2)]) \<and>
     expfs_lookup True s root_inode [98] = Some (None, [Touch]) \<and>
     expfs_lookup True s root_inode [97] = Some (Some (inode_of (blks s) 2), [Touch])"
proof -
  obtain s :: expfs where s: "fs_ok (blks s)" "usedBlks s = 2"
    "tree (blks s) = [1 \<mapsto> Dir_node [([97], 2)], 2 \<mapsto> new_node 0x8000]"
    by (rule sample_child [OF type_bits(1)])
  have "expfs_lookup True s root_inode [98] = Some (None, [Touch])"
    "expfs_lookup True s root_inode [97] = Some (Some (inode_of (blks s) 2), [Touch])"
    using expfs_lookup_exact [OF s(1), of root_inode "[([97], 2)]"] s(3)
    by (simp_all add: c_string_def)
  then show ?thesis using s(3) by (intro exI [of _ s]) auto
qed

text \<open>
  C10. Unlinking a file removes exactly its entry and frees its block, and the file system stays
  well-formed; the result is what the kernel's \<open>simple_unlink\<close> returns.
\<close>

theorem expfs_unlink_refines:
  assumes "fs_ok (blks s)" "tree (blks s) (i_private dir) = Some (Dir_node es)"
    and "c_string (d_name dentry)" "d_inode dentry = Some inode"
    and "map_of es (d_name dentry) = Some (i_private inode)"
    and "tree (blks s) (i_private inode) = Some Leaf_node"
  shows "\<exists>m'. expfs_unlink ret s dir dentry =
      Some (pass_on ret, s\<lparr>blks := m'\<rparr>, [Acquire, Touch, Release]) \<and> fs_ok m' \<and>
    tree m' = tree_remove (i_private dir) (d_name dentry) (i_private inode) (tree (blks s))"
  using unlink_ok [OF assms, of ret] by blast

lemma expfs_unlink_refines_witness:
  "\<exists>s m'. tree (blks s) 2 = Some Leaf_node \<and>
     expfs_unlink 0 s root_inode (dentry_of [97] (Some (inode_of (blks s) 2))) =
       Some (Inr 0, s\<lparr>blks := m'\<rparr>, [Acquire, Touch, Release]) \<and> tree m' = [1 \<mapsto> Dir_node []]"
proof -
  obtain s :: expfs where s: "fs_ok (blks s)" "usedBlks s = 2"
    "tree (blks s) = [1 \<mapsto> Dir_node [([97], 2)], 2 \<mapsto> new_node 0x8000]"
    by (rule sample_child [OF type_bits(1)])
  show ?thesis
    using expfs_unlink_refines [OF s(1), of root_inode "[([97], 2)]"
        "dentry_of [97] (Some (inode_of (blks s) 2))" "inode_of (blks s) 2" 0] s(3) type_bits
    by (intro exI [of _ s]) (auto simp: c_string_def tree_remove_def pass_on_def fun_upd_twist)
qed

text \<open>
  C12. \<open>expfs_rmdir\<close> removes a directory exactly when it is empty: then its entry goes and its
  block is freed; any other node is refused with \<open>ENOTEMPTY\<close> and nothing changes.
\<close>

theorem expfs_rmdir_refines:
  assumes "fs_ok (blks s)" "tree (blks s) (i_private dir) = Some (Dir_node es)"
    and "c_string (d_name dentry)" "d_inode dentry = Some inode"
    and "map_of es (d_name dentry) = Some (i_private inode)"
    and "tree (blks s) (i_private inode) = Some node"
  shows "\<exists>m'. expfs_rmdir ret s dir dentry =
      Some (if node = Dir_node [] then pass_on ret else Inl ENOTEMPTY, s\<lparr>blks := m'\<rparr>,
        [Acquire, Touch, Release]) \<and> fs_ok m' \<and>
    tree m' = (if node = Dir_node []
      then tree_remove (i_private dir) (d_name dentry) (i_private inode) (tree (blks s))
      else tree (blks s))"
proof (cases "node = Dir_node []")
  case True
  then show ?thesis using rmdir_ok [OF assms(1-5), of ret] assms(6) by auto
next
  case False
  then show ?thesis
    using rmdir_not_empty [OF assms(1,4,6) False, of ret dir] assms(1)
    by (intro exI [of _ "blks s"]) simp
qed

lemma expfs_rmdir_refines_witness:
  "\<exists>s m'. tree (blks s) 2 = Some (Dir_node []) \<and>
     expfs_rmdir 0 s root_inode (dentry_of [97] (Some (inode_of (blks s) 2))) =
       Some (Inr 0, s\<lparr>blks := m'\<rparr>, [Acquire, Touch, Release]) \<and> tree m' = [1 \<mapsto> Dir_node []]"
proof -
  obtain s :: expfs where s: "fs_ok (blks s)" "usedBlks s = 2"
    "tree (blks s) = [1 \<mapsto> Dir_node [([97], 2)], 2 \<mapsto> new_node 0x4000]"
    by (rule sample_child [OF type_bits(2)])
  show ?thesis
    using expfs_rmdir_refines [OF s(1), of root_inode "[([97], 2)]"
        "dentry_of [97] (Some (inode_of (blks s) 2))" "inode_of (blks s) 2" "Dir_node []" 0]
      s(3) type_bits
    by (intro exI [of _ s]) (auto simp: c_string_def tree_remove_def pass_on_def fun_upd_twist)
qed

text \<open>
  C11. Renaming to a free name, within a directory or to another one, moves the entry and keeps
  the file system well-formed.
\<close>

theorem expfs_rename_refines:
  assumes "fs_ok (blks s)" "tree (blks s) (i_private old_dir) = Some (Dir_node es)"
    and "map_of es (d_name old_dentry) = Some i"
    and "tree (blks s) (i_private new_dir) = Some (Dir_node es')"
    and "d_name new_dentry \<notin> fst ` set es'"
    and "length es' < 4 \<or> i_private old_dir = i_private new_dir"
    and "c_string (d_name old_dentry)" "name_ok (d_name new_dentry)"
  shows "\<exists>m'. expfs_rename True ret s old_dir old_dentry new_dir new_dentry =
      Some (pass_on ret, s\<lparr>blks := m'\<rparr>, [Acquire, Touch, Release]) \<and> fs_ok m' \<and>
    tree m' = tree_move (i_private old_dir) (d_name old_dentry) (i_private new_dir)
      (d_name new_dentry) (tree (blks s))"
  using rename_ok [OF assms, of ret] by blast

lemma expfs_rename_refines_witness:
  "\<exists>s m'. tree (blks s) 1 = Some (Dir_node [([97], 2)]) \<and>
     expfs_rename True 0 s root_inode (dentry_of [97] None) root_inode (dentry_of [98] None) =
       Some (Inr 0, s\<lparr>blks := m'\<rparr>, [Acquire, Touch, Release]) \<and>
     tree m' = [1 \<mapsto> Dir_node [([98], 2)], 2 \<mapsto> Leaf_node]"
proof -
  obtain s :: expfs where s: "fs_ok (blks s)" "usedBlks s = 2"
    "tree (blks s) = [1 \<mapsto> Dir_node [([97], 2)], 2 \<mapsto> new_node 0x8000]"
    by (rule sample_child [OF type_bits(1)])
  have "\<exists>m'. expfs_rename True 0 s root_inode (dentry_of [97] None) root_inode (dentry_of [98] None) =
      Some (pass_on 0, s\<lparr>blks := m'\<rparr>, [Acquire, Touch, Release]) \<and> fs_ok m' \<and>
    tree m' = tree_move 1 [97] 1 [98] (tree (blks s))"
    using expfs_rename_refines [OF s(1), of root_inode "[([97], 2)]" "dentry_of [97] None" 2
        root_inode "[([97], 2)]" "dentry_of [98] None" 0] s(3) name_ok_char [of 98]
    by (simp add: c_string_def)
  then show ?thesis
    using s(3) type_bits tree_move_value_same [of "tree (blks s)" 1 "[([97], 2)]" "[97]" 2 "[98]"]
    by (intro exI [of _ s]) (auto simp: pass_on_def fun_upd_twist)
qed

text \<open>
  Listing a directory from the start hands out exactly its entries, in order, and releases
  the lock.
\<close>

theorem expfs_iterate_lists:
  assumes "fs_ok (blks s)" "tree (blks s) (i_private dir) = Some (Dir_node es)"
  shows "\<exists>out. expfs_iterate s dir 0 =
      Some (Inr 0, 56 * of_nat (length es), out, [Acquire, Touch, Release]) \<and>
    map (\<lambda>(n, i). (takeWhile (\<lambda>c. c \<noteq> 0) n, sint i)) out = es"
  using assms by (rule iterate_ok)

lemma expfs_iterate_lists_example:
  "\<exists>s out. expfs_iterate s root_inode 0 = Some (Inr 0, 56, out, [Acquire, Touch, Release]) \<and>
     map (\<lambda>(n, i). (takeWhile (\<lambda>c. c \<noteq> 0) n, sint i)) out = [([97], 2)]"
proof -
  obtain s :: expfs where s: "fs_ok (blks s)" "usedBlks s = 2"
    "tree (blks s) = [1 \<mapsto> Dir_node [([97], 2)], 2 \<mapsto> new_node 0x8000]"
    by (rule sample_child [OF type_bits(1)])
  show ?thesis using expfs_iterate_lists [OF s(1), of root_inode "[([97], 2)]"] s(3)
    by (intro exI [of _ s]) simp
qed

text \<open>
  Any sequence of links and unlinks that respects the VFS contract (a linked name is free)
  and keeps at most four names in the directory succeeds and leaves the directory as the finite
  map those calls describe.
\<close>

theorem expfs_directory_session:
  assumes "valid_blk b" "dir_ok m b" "distinct (map fst (entries m b))"
    and "legal_calls name_ok valid_blk 4 cs (map_of (entries m b))"
  shows "\<exists>m'. run_calls (dir_link b) (dir_unlink b) cs m = Some m' \<and> dir_ok m' b \<and>
    distinct (map fst (entries m' b)) \<and>
    map_of (entries m' b) = fold map_call cs (map_of (entries m b))"
  using xd.session [of b m cs] assms by (simp add: dir_good_def dir_look_def)

lemma expfs_directory_session_example:
  "\<exists>m m'. run_calls (dir_link 1) (dir_unlink 1)
       [Link [97] 2, Link [98] 3, Unlink [97], Link [97] 4] m = Some m' \<and>
     map_of (entries m' 1) = [[98] \<mapsto> 3, [97] \<mapsto> 4]"
proof -
  obtain s :: expfs where s: "fs_ok (blks s)" "usedBlks s = 1" "tree (blks s) = [1 \<mapsto> Dir_node []]"
    "first_free (blks s) = Some 2" by (rule sample_mounted)
  have e: "valid_blk 1" "dir_ok (blks s) 1" "entries (blks s) 1 = []"
    using fs_okD(1-3) [OF s(1), of 1 "[]"] s(3) by auto
  let ?cs = "[Link [97] 2, Link [98] 3, Unlink [97], Link [97] 4] :: (u8 list, int) name_call list"
  have "legal_calls name_ok valid_blk 4 ?cs (map_of (entries (blks s) 1))"
    using e(3) name_ok_char [of 97] name_ok_char [of 98]
    by (simp add: valid_blk_def MAX_FILE_def card_insert_if)
  then obtain m' where "run_calls (dir_link 1) (dir_unlink 1) ?cs (blks s) = Some m'"
    "map_of (entries m' 1) = fold map_call ?cs (map_of (entries (blks s) 1))"
    using expfs_directory_session [OF e(1,2), of ?cs] e(3) by auto
  moreover have "fold map_call ?cs (map_of (entries (blks s) 1)) = [[98] \<mapsto> 3, [97] \<mapsto> 4]"
    by (simp add: e(3) fun_eq_iff)
  ultimately show ?thesis by (intro exI conjI) simp_all
qed

end
