(* ===== verification/Expfs_Files.thy ===== *)
theory Expfs_Files
  imports Expfs_Props
begin

text \<open>
  The contents of regular files of \<open>expfs\<close>: what a write stores, what a read delivers, and that
  the position does not matter for the latter.
\<close>

section \<open>File contents\<close>

definition file_size :: "store \<Rightarrow> int \<Rightarrow> int" where
  "file_size m b = sint (get32 m (a_size b))"

definition file_data :: "store \<Rightarrow> int \<Rightarrow> u8 list" where
  "file_data m b = peek m (a_buffer b) 256"

lemma length_file_data [simp]: "length (file_data m b) = 256"
  by (simp add: file_data_def)

lemma peek_poke_put_bytes:
  assumes "p + length bs \<le> n"
  shows "peek (poke m (a + int p) bs) a n = put_bytes (peek m a n) p bs"
proof (rule nth_equalityI)
  show "length (peek (poke m (a + int p) bs) a n) = length (put_bytes (peek m a n) p bs)"
    using assms by (simp add: length_put_bytes)
next
  fix i assume "i < length (peek (poke m (a + int p) bs) a n)"
  then have i: "i < n" by simp
  have "nat (int i - int p) = i - p" by simp
  then show "peek (poke m (a + int p) bs) a n ! i = put_bytes (peek m a n) p bs ! i"
    using i assms by (auto simp: nth_put_bytes nth_peek poke_def)
qed

lemma take_peek: "k \<le> n \<Longrightarrow> take k (peek m a n) = peek m a k"
  by (rule nth_equalityI) (auto simp: nth_peek)

text \<open>A successful write.\<close>

lemma write_ok:
  assumes "valid_blk (i_private inode)" "unat pos < 256"
    and "cfu us buf (unat (clip_count 256 pos (ucast len))) = (bs, 0)"
    and "length bs = unat (clip_count 256 pos (ucast len))"
  shows "\<exists>m'. expfs_write cfu s inode us buf len pos =
      Some (Inr (int (length bs)), pos + of_nat (length bs), s\<lparr>blks := m'\<rparr>, [Acquire, Touch, Release]) \<and>
    file_data m' (i_private inode) = put_bytes (file_data (blks s) (i_private inode)) (unat pos) bs \<and>
    file_size m' (i_private inode) = int (unat pos + length bs) \<and>
    same_except (i_private inode) (blks s) m'"
proof -
  let ?b = "i_private inode" and ?m = "blks s" and ?c = "clip_count 256 pos (ucast len)"
  have pos: "pos \<le> 256" using assms(2) by (simp add: word_le_nat_alt)
  have "unat ?c \<le> 256 - unat pos" using unat_clip_count [OF pos, of "ucast len"] by simp
  then have n: "unat pos + length bs \<le> 256" using assms(2,4) by simp
  have n': "int (unat pos) + int (length bs) \<le> 256" using n by linarith
  let ?m1 = "poke ?m (a_buffer ?b + int (unat pos)) bs"
  let ?m2 = "put32 ?m1 (a_size ?b) (ucast (pos + ucast ?c))"
  have s1: "store ?m (a_buffer ?b + int (unat pos)) bs = Some ?m1"
    using in_blks_buffer [OF assms(1) _ n'] by (simp only: store_def of_nat_0_le_iff if_True)
  have c: "ucast ?c = (of_nat (length bs) :: u64)"
    unfolding assms(4) by simp
  have sc: "sint ?c = int (length bs)" using n by (subst sint_u32_small) (simp_all add: assms(4))
  have e: "expfs_write cfu s inode us buf len pos =
      Some (Inr (int (length bs)), pos + of_nat (length bs), s\<lparr>blks := ?m2\<rparr>, [Acquire, Touch, Release])"
    using assms(1-3) s1 sc pos
    by (simp add: expfs_write_def Let_def store32_put c word_le_nat_alt)
  have u: "unat (pos + ucast ?c) = unat pos + length bs"
    using unat_add_ucast [of pos ?c] n by (simp add: assms(4))
  then have u32: "unat (ucast (pos + ucast ?c) :: u32) = unat pos + length bs"
    using unat_ucast_down32 [of "pos + ucast ?c"] n by simp
  have "sint (ucast (pos + ucast ?c) :: u32) = int (unat pos + length bs)"
    using sint_u32_small [of "ucast (pos + ucast ?c)"] n unfolding u32 by simp
  then have "file_size ?m2 ?b = int (unat pos + length bs)"
    by (simp only: file_size_def get32_put32_same)
  moreover have "file_data ?m2 ?b = put_bytes (file_data ?m ?b) (unat pos) bs"
  proof -
    have "file_data ?m2 ?b = peek ?m1 (a_buffer ?b) 256"
      unfolding file_data_def by (rule peek_put32_other) (simp add: layout)
    then show ?thesis using peek_poke_put_bytes [OF n] by (simp add: file_data_def)
  qed
  moreover have "same_except ?b ?m ?m2"
  proof (rule same_except_trans)
    show "same_except ?b ?m ?m1" using n' by (intro same_except_poke) (auto simp: layout)
    show "same_except ?b ?m1 ?m2" by (rule same_except_put32) (simp_all add: layout)
  qed
  ultimately show ?thesis using e by blast
qed

text \<open>A write leaves the header of the block alone, apart from the size.\<close>

lemma write_keeps_header:
  assumes "expfs_write cfu s inode us buf len pos = Some (r, pos', s', t)" "unat pos < 256"
  shows "get32 (blks s') (a_mode (i_private inode)) = get32 (blks s) (a_mode (i_private inode))"
    "get32 (blks s') (a_used (i_private inode)) = get32 (blks s) (a_used (i_private inode))"
  using assms
  by (auto simp: expfs_write_def Let_def store_def store32_def get32_put32_other get32_poke_other
      put32_def [symmetric] layout split: if_splits option.splits bind_splits prod.splits)

text \<open>A successful read.\<close>

lemma read_ok:
  assumes "valid_blk (i_private inode)" "0 \<le> file_size (blks s) (i_private inode)"
    "file_size (blks s) (i_private inode) \<le> 256" "sint pos < file_size (blks s) (i_private inode)"
    and "ctu us buf (take (min (nat (file_size (blks s) (i_private inode))) (unat len))
      (file_data (blks s) (i_private inode))) = (us', 0)"
  shows "expfs_read ctu s inode us buf len pos =
    (let k = min (nat (file_size (blks s) (i_private inode))) (unat len)
     in Some (Inr (int k), pos + of_nat k, us', [Acquire, Touch, Release]))"
proof -
  let ?b = "i_private inode" and ?m = "blks s"
  let ?w = "get32 ?m (a_size ?b)"
  define n where "n = nat (file_size ?m ?b)"
  have w: "sint ?w = int n" "n \<le> 256" using assms(2,3) by (simp_all add: n_def file_size_def)
  have sc: "scast ?w = (of_nat n :: u64)" by (simp add: scast_eq w(1))
  have un: "unat (of_nat n :: u64) = n" using w(2) by (simp add: unsigned_of_nat take_bit_nat_eq_self)
  define k where "k = min n (unat len)"
  have m: "min (scast ?w) len = (of_nat k :: u64)"
    unfolding sc min_def k_def by (simp add: word_le_nat_alt un)
  have uk: "unat (of_nat k :: u64) = k" using w(2) by (simp add: k_def unsigned_of_nat take_bit_nat_eq_self)
  have sk: "sint (of_nat k :: u64) = int k"
    using sint_u64_small [of "of_nat k"] w(2) unfolding uk by (simp add: k_def)
  have l: "load ?m (a_buffer ?b) k = Some (peek ?m (a_buffer ?b) k)"
    using in_blks_buffer [OF assms(1), of 0 k] w(2) by (simp add: load_def k_def)
  have "ctu us buf (peek ?m (a_buffer ?b) k) = (us', 0)"
    using assms(5) w(2) by (simp add: file_data_def take_peek n_def [symmetric] k_def)
  then show ?thesis
    using assms(1,4) l w(1) unfolding n_def [symmetric]
    by (simp add: expfs_read_def Let_def load32_get m uk sk file_size_def k_def [symmetric])
qed

text \<open>
  What was written from the start of a file is what reading it from the start delivers: the
  same bytes, the same count, clipped to the 256 bytes of the buffer.
\<close>

theorem expfs_write_read_back:
  fixes cfu :: "'u copy_in" and ctu :: "'u copy_out"
  assumes "copy_in_fills cfu" "valid_blk (i_private inode)" "0 < unat (ucast len :: u32)"
    and "cfu us buf (min (unat (ucast len :: u32)) 256) = (bs, 0)"
    and "ctu usr bufr bs = (us3, 0)"
  shows "\<exists>s'. expfs_write cfu s inode us buf len 0 =
      Some (Inr (int (length bs)), of_nat (length bs), s', [Acquire, Touch, Release]) \<and>
    expfs_read ctu s' inode usr bufr len 0 =
      Some (Inr (int (length bs)), of_nat (length bs), us3, [Acquire, Touch, Release]) \<and>
    length bs = min (unat (ucast len :: u32)) 256"
proof -
  let ?b = "i_private inode"
  have c: "unat (clip_count 256 0 (ucast len)) = min (unat (ucast len :: u32)) 256"
    by (subst unat_clip_count) simp_all
  have lb: "length bs = min (unat (ucast len :: u32)) 256"
    by (rule copy_in_fillsD [OF assms(1,4)])
  obtain m' where w: "expfs_write cfu s inode us buf len 0 =
      Some (Inr (int (length bs)), 0 + of_nat (length bs), s\<lparr>blks := m'\<rparr>, [Acquire, Touch, Release])"
    "file_data m' ?b = put_bytes (file_data (blks s) ?b) (unat 0) bs"
    "file_size m' ?b = int (unat 0 + length bs)"
    using write_ok [OF assms(2), of 0 cfu us buf len bs s] assms(4) lb c by auto
  have "unat (ucast len :: u32) \<le> unat len"
    by (simp add: unsigned_ucast_eq take_bit_nat_less_eq_self)
  then have k: "min (nat (file_size m' ?b)) (unat len) = length bs"
    using w(3) lb by simp
  have "take (length bs) (file_data m' ?b) = bs"
    unfolding w(2) by (simp add: put_bytes_def)
  then have "expfs_read ctu (s\<lparr>blks := m'\<rparr>) inode usr bufr len 0 =
      Some (Inr (int (length bs)), 0 + of_nat (length bs), us3, [Acquire, Touch, Release])"
    using read_ok [OF assms(2), of "s\<lparr>blks := m'\<rparr>" 0 ctu usr bufr len us3] k w(3) lb assms(3,5)
    by (simp add: Let_def)
  then show ?thesis using w(1) lb by auto
qed

lemma expfs_write_read_back_example:
  "\<exists>s'. expfs_write flat_in \<lparr>blks = (\<lambda>x. 0), usedBlks = 2\<rparr>
      \<lparr>i_ino = 2, i_private = 2, i_fop = Expfs_fops\<rparr> [7, 8] 0 2 0 =
      Some (Inr 2, 2, s', [Acquire, Touch, Release]) \<and>
    expfs_read flat_out s' \<lparr>i_ino = 2, i_private = 2, i_fop = Expfs_fops\<rparr> [0, 0, 0] 0 2 0 =
      Some (Inr 2, 2, [7, 8, 0], [Acquire, Touch, Release])"
  using expfs_write_read_back [OF copy_in_fills_flat,
      of "\<lparr>i_ino = 2, i_private = 2, i_fop = Expfs_fops\<rparr>" 2 "[7, 8]" 0 "[7, 8]" flat_out "[0, 0, 0]" 0
        "[7, 8, 0]" "\<lparr>blks = (\<lambda>x. 0), usedBlks = 2\<rparr>"]
  by (simp add: valid_blk_def MAX_FILE_def flat_in_def flat_out_def Let_def)

text \<open>
  Every read that is not at the end starts at the beginning of the buffer: the position
  decides only whether anything is read and is advanced, so two reads in a row deliver the same
  bytes again.
\<close>

theorem expfs_read_ignores_position:
  assumes "valid_blk (i_private inode)" "0 \<le> file_size (blks s) (i_private inode)"
    "file_size (blks s) (i_private inode) \<le> 256"
    and "sint pos < file_size (blks s) (i_private inode)"
    and "ctu us buf (take (min (nat (file_size (blks s) (i_private inode))) (unat len))
      (file_data (blks s) (i_private inode))) = (us', 0)"
  shows "expfs_read ctu s inode us buf len pos =
    (let k = min (nat (file_size (blks s) (i_private inode))) (unat len)
     in Some (Inr (int k), pos + of_nat k, us', [Acquire, Touch, Release]))"
  using assms by (rule read_ok)

lemma expfs_read_ignores_position_example:
  "\<exists>m. file_size m 2 = 2 \<and> take 2 (file_data m 2) = [5, 6] \<and>
     expfs_read flat_out \<lparr>blks = m, usedBlks = 2\<rparr>
       \<lparr>i_ino = 2, i_private = 2, i_fop = Expfs_fops\<rparr> [0, 0] 0 1 1 =
     Some (Inr 1, 2, [5, 0], [Acquire, Touch, Release])"
proof -
  let ?i = "\<lparr>i_ino = 2, i_private = 2, i_fop = Expfs_fops\<rparr>"
  let ?m = "put32 (poke (\<lambda>x. 0) (a_buffer 2) [5, 6]) (a_size 2) 2"
  have v: "valid_blk 2" by (simp add: valid_blk_def MAX_FILE_def)
  have f: "file_size ?m 2 = 2" by (simp add: file_size_def peek_simps)
  have "peek ?m (a_buffer 2) 2 = peek (poke (\<lambda>x. 0) (a_buffer 2) [5, 6]) (a_buffer 2) 2"
    by (rule peek_put32_other) (simp add: layout)
  then have "peek ?m (a_buffer 2) 2 = [5, 6]" by (simp add: peek_poke_same)
  then have d: "take 2 (file_data ?m 2) = [5, 6]" by (simp add: file_data_def take_peek)
  then have d1: "take 1 (file_data ?m 2) = [5]" by (cases "file_data ?m 2") auto
  have "expfs_read flat_out \<lparr>blks = ?m, usedBlks = 2\<rparr> ?i [0, 0] 0 1 1 =
      Some (Inr 1, 2, [5, 0], [Acquire, Touch, Release])"
    using expfs_read_ignores_position [of ?i "\<lparr>blks = ?m, usedBlks = 2\<rparr>" 1 flat_out "[0, 0]" 0 1 "[5, 0]"]
      v f d1 by (simp add: flat_out_def Let_def)
  then show ?thesis using f d by blast
qed

end
