(* ===== verification/Expfs_Reach.thy ===== *)
theory Expfs_Reach
  imports Expfs_Tree
begin

text \<open>
  Reachability in the abstract file system. \<open>under T a b\<close> says that block \<open>b\<close> is \<open>a\<close> or lies
  below it. A file system is \<open>rooted\<close> when every block in use lies below the root; creating,
  removing and moving keep that, the last as long as a directory is not moved below itself.
\<close>

inductive under :: "expfs_tree \<Rightarrow> int \<Rightarrow> int \<Rightarrow> bool" for T a where
  here: "under T a a"
| down: "under T a b \<Longrightarrow> tree_entry T b n i \<Longrightarrow> under T a i"

lemmas under_intros [intro] = under.intros

definition rooted :: "expfs_tree \<Rightarrow> bool" where
  "rooted T \<longleftrightarrow> (\<forall>b. T b \<noteq> None \<longrightarrow> under T 1 b)"

lemma rootedI: "(\<And>b. T b \<noteq> None \<Longrightarrow> under T 1 b) \<Longrightarrow> rooted T"
  by (simp add: rooted_def)

lemma rootedD: "rooted T \<Longrightarrow> T b \<noteq> None \<Longrightarrow> under T 1 b"
  by (simp add: rooted_def)

lemma under_trans: "under T b c \<Longrightarrow> under T a b \<Longrightarrow> under T a c"
  by (induction rule: under.induct) auto

lemma under_mono:
  assumes "under T a b" "\<And>b n i. tree_entry T b n i \<Longrightarrow> tree_entry T' b n i"
  shows "under T' a b"
  using assms(1) by (induction rule: under.induct) (auto dest: assms(2))

text \<open>A block without entries has nothing below it.\<close>

lemma under_leaf: "under T a b \<Longrightarrow> (\<And>n i. \<not> tree_entry T a n i) \<Longrightarrow> b = a"
  by (induction rule: under.induct) auto

lemma rooted_create:
  assumes "rooted T" "T p = Some (Dir_node es)" "T i = None" "node = Dir_node [] \<or> node = Leaf_node"
  shows "rooted (tree_create p n i node T)"
proof (rule rootedI)
  fix b
  let ?T = "tree_create p n i node T"
  note ent = tree_create_entry [of T p es i node n, OF assms(2,3,4)]
  have mono: "under ?T 1 c" if "T c \<noteq> None" for c
    using under_mono [OF rootedD [OF assms(1) that], of ?T] ent by blast
  assume "?T b \<noteq> None"
  then consider "T b \<noteq> None" | "b = i" using assms(2) by (auto simp: tree_create_def split: if_splits)
  then show "under ?T 1 b"
  proof cases
    case 2
    then show ?thesis using mono [of p] assms(2) ent [of p n i] by auto
  qed (rule mono)
qed

lemma rooted_remove:
  assumes "rooted T" "tree_ok T" "T p = Some (Dir_node es)" "(n, i) \<in> set es"
    "T i = Some Leaf_node \<or> T i = Some (Dir_node [])"
  shows "rooted (tree_remove p n i T)"
proof (rule rootedI)
  fix b
  let ?T = "tree_remove p n i T"
  have ne: "i \<noteq> p" using assms(3,4,5) by auto
  note d = tree_okD(2) [OF assms(2,3)]
  note ent = tree_remove_entry [of T p es i n, OF assms(3) d ne assms(5)]
  have empty: "\<not> tree_entry T i m j" for m j using assms(5) by (auto simp: tree_entry_def)
  have inj: "j = i" if "tree_entry T p n j" for j
    using that assms(3,4) d by (auto simp: tree_entry_def eq_key_imp_eq_value)
  have "c \<noteq> i \<longrightarrow> under ?T 1 c" if "under T 1 c" for c
    using that
  proof (induction rule: under.induct)
    case (down c m j)
    show ?case
    proof
      assume "j \<noteq> i"
      then have "tree_entry ?T c m j" using down.hyps(2) inj ent by blast
      moreover have "c \<noteq> i" using down.hyps(2) empty by blast
      ultimately show "under ?T 1 j" using down.IH by auto
    qed
  qed auto
  moreover assume "?T b \<noteq> None"
  then have "T b \<noteq> None" "b \<noteq> i" using assms(3) by (auto simp: tree_remove_value split: if_splits)
  ultimately show "under ?T 1 b" using rootedD [OF assms(1)] by blast
qed

lemma rooted_move:
  assumes "rooted T" "tree_ok T" "T p = Some (Dir_node es)" "map_of es n = Some i"
    "T q = Some (Dir_node es')" "\<not> under T i q"
  shows "rooted (tree_move p n q n' T)"
proof (rule rootedI)
  fix b
  let ?T = "tree_move p n q n' T"
  note d = tree_okD(2) [OF assms(2,3)]
  note ent = tree_move_entry [of T p es n i q es' n', OF assms(3,4,5) d]
  have inj: "j = i" if "tree_entry T p n j" for j
    using that assms(3,4) d by (auto simp: tree_entry_def)
  have below: "under ?T i c" if "under T i c" for c
    using that by (induction rule: under.induct) (use ent inj in blast)+
  have split: "under T i c \<or> under ?T 1 c" if "under T 1 c" for c
    using that by (induction rule: under.induct) (use ent inj in blast)+
  have "under ?T 1 q" using split [OF rootedD [OF assms(1)], of q] assms(5,6) by simp
  then have i: "under ?T 1 i" using ent [of q n' i] by blast
  assume "?T b \<noteq> None"
  then have "T b \<noteq> None" using assms(3,5) by (auto simp: tree_move_at [of T p es n i q es', OF assms(3,4,5)] split: if_splits)
  from split [OF rootedD [OF assms(1) this]] show "under ?T 1 b"
    using under_trans [OF below i] by blast
qed

end
