(* ===== verification/Expfs_Vfs.thy ===== *)
theory Expfs_Vfs
  imports Expfs_Files Expfs_Reach
begin

text \<open>
  \<open>expfs\<close> as the VFS uses it. \<open>exec_call\<close> performs one system call: it finds the inodes, goes
  through the operation tables of the module, and gives \<open>None\<close> when a handler faults or returns
  with \<open>expfs_lock\<close> held, in which case the next call would spin. \<open>abs_call\<close> says what the call
  should do on an abstract file system: a tree of directories with the contents of the files.
  As long as the calls keep to \<open>fs_legal\<close>, replies and states agree.
\<close>

section \<open>System calls\<close>

datatype fs_call =
    Fs_create int "u8 list" u16
  | Fs_mkdir int "u8 list" u16
  | Fs_unlink int "u8 list"
  | Fs_rmdir int "u8 list"
  | Fs_rename int "u8 list" int "u8 list"
  | Fs_symlink int "u8 list" "u8 list"
  | Fs_lookup int "u8 list"
  | Fs_list int
  | Fs_write int "u8 list" u64
  | Fs_read int u64 u64

datatype fs_reply =
    R_ok | R_err errno | R_found "int option" | R_names "(u8 list \<times> int) list"
  | R_count int | R_data "u8 list"

definition settle :: "lock_event list \<Rightarrow> 'a \<Rightarrow> 'a option" where
  "settle t r = (if holds_after False t then None else Some r)"

definition reply_of :: "'a result \<Rightarrow> fs_reply" where
  "reply_of r = (case r of Inl e \<Rightarrow> R_err e | Inr _ \<Rightarrow> R_ok)"

text \<open>
  What the VFS does when a table has no entry for a call follows its documentation. A name is
  looked up before it is removed. The user's buffer is a flat memory.
\<close>

fun exec_call :: "fs_call \<Rightarrow> expfs \<Rightarrow> (fs_reply \<times> expfs) option" where
  "exec_call (Fs_create p n mode) s =
     do { dir \<leftarrow> expfs_geti True (blks s) p;
          (r, _, s', t) \<leftarrow> iop_create expfs_iops True s dir \<lparr>d_name = n, d_inode = None\<rparr> mode True;
          settle t (reply_of r, s') }"
| "exec_call (Fs_mkdir p n mode) s =
     do { dir \<leftarrow> expfs_geti True (blks s) p;
          (r, _, s', t) \<leftarrow> iop_mkdir expfs_iops True s dir \<lparr>d_name = n, d_inode = None\<rparr> mode;
          settle t (reply_of r, s') }"
| "exec_call (Fs_unlink p n) s =
     do { dir \<leftarrow> expfs_geti True (blks s) p;
          (i, t) \<leftarrow> iop_lookup expfs_iops True s dir n;
          (r, s', t') \<leftarrow> iop_unlink expfs_iops 0 s dir \<lparr>d_name = n, d_inode = i\<rparr>;
          settle (t @ t') (reply_of r, s') }"
| "exec_call (Fs_rmdir p n) s =
     do { dir \<leftarrow> expfs_geti True (blks s) p;
          (i, t) \<leftarrow> iop_lookup expfs_iops True s dir n;
          (r, s', t') \<leftarrow> iop_rmdir expfs_iops 0 s dir \<lparr>d_name = n, d_inode = i\<rparr>;
          settle (t @ t') (reply_of r, s') }"
| "exec_call (Fs_rename p n q n') s =
     do { dir \<leftarrow> expfs_geti True (blks s) p;
          dir' \<leftarrow> expfs_geti True (blks s) q;
          (i, t) \<leftarrow> iop_lookup expfs_iops True s dir n;
          (r, s', t') \<leftarrow> iop_rename expfs_iops True 0 s dir \<lparr>d_name = n, d_inode = i\<rparr>
            dir' \<lparr>d_name = n', d_inode = None\<rparr>;
          settle (t @ t') (reply_of r, s') }"
| "exec_call (Fs_symlink p n target) s =
     do { dir \<leftarrow> expfs_geti True (blks s) p;
          (r, _, s', t) \<leftarrow> iop_symlink expfs_iops True s dir \<lparr>d_name = n, d_inode = None\<rparr> target;
          settle t (reply_of r, s') }"
| "exec_call (Fs_lookup p n) s =
     do { dir \<leftarrow> expfs_geti True (blks s) p;
          (i, t) \<leftarrow> iop_lookup expfs_iops True s dir n;
          settle t (R_found (map_option i_private i), s) }"
| "exec_call (Fs_list p) s =
     do { dir \<leftarrow> expfs_geti True (blks s) p;
          case fop_iterate (fop_table (i_fop dir) :: u8 list file_operations) of
            None \<Rightarrow> Some (R_err ENOTDIR, s)
          | Some f \<Rightarrow>
              do { (r, _, out, t) \<leftarrow> f s dir 0;
                   settle t (case r of
                       Inl e \<Rightarrow> R_err e
                     | Inr _ \<Rightarrow> R_names (map (\<lambda>(n, i). (takeWhile (\<lambda>c. c \<noteq> 0) n, sint i)) out), s) } }"
| "exec_call (Fs_write b bs pos) s =
     do { inode \<leftarrow> expfs_geti True (blks s) b;
          case fop_write (fop_table (i_fop inode)) of
            None \<Rightarrow> Some (R_err EINVAL, s)
          | Some f \<Rightarrow>
              do { (r, _, s', t) \<leftarrow> f flat_in s inode bs 0 (of_nat (length bs)) pos;
                   settle t (case r of Inl e \<Rightarrow> R_err e | Inr k \<Rightarrow> R_count k, s') } }"
| "exec_call (Fs_read b len pos) s =
     do { inode \<leftarrow> expfs_geti True (blks s) b;
          case fop_read (fop_table (i_fop inode)) of
            None \<Rightarrow> Some (R_err EINVAL, s)
          | Some f \<Rightarrow>
              do { (r, _, us, t) \<leftarrow> f flat_out s inode (replicate (unat len) 0) 0 len pos;
                   settle t (case r of Inl e \<Rightarrow> R_err e | Inr k \<Rightarrow> R_data (take (nat k) us), s) } }"

fun exec_calls :: "fs_call list \<Rightarrow> expfs \<Rightarrow> (fs_reply list \<times> expfs) option" where
  "exec_calls [] s = Some ([], s)"
| "exec_calls (c # cs) s =
     do { (r, s) \<leftarrow> exec_call c s;
          (rs, s) \<leftarrow> exec_calls cs s;
          Some (r # rs, s) }"

section \<open>The abstract file system\<close>

text \<open>
  The tree, which leaves are symbolic links, the contents of the files, and how many nodes were
  ever made (the root included). A link has no target: \<open>expfs_symlink\<close> does not store it.
\<close>

record afs =
  a_tree :: expfs_tree
  a_links :: "int set"
  a_data :: "int \<Rightarrow> u8 list"
  a_made :: nat

definition afs0 :: afs where
  "afs0 = \<lparr>a_tree = [1 \<mapsto> Dir_node []], a_links = {}, a_data = (\<lambda>b. []), a_made = 1\<rparr>"

definition dir_at :: "expfs_tree \<Rightarrow> int \<Rightarrow> (u8 list \<times> int) list" where
  "dir_at T p = (case T p of Some (Dir_node es) \<Rightarrow> es | _ \<Rightarrow> [])"

definition free_at :: "expfs_tree \<Rightarrow> int" where
  "free_at T = the (List.find (\<lambda>j. T j = None) [2..MAX_FILE - 1])"

definition abs_new :: "int \<Rightarrow> u8 list \<Rightarrow> expfs_node \<Rightarrow> afs \<Rightarrow> afs" where
  "abs_new p n node a =
     (let i = free_at (a_tree a) in
      a\<lparr>a_tree := tree_create p n i node (a_tree a), a_links := a_links a - {i},
        a_data := (a_data a)(i := []), a_made := a_made a + 1\<rparr>)"

definition abs_link :: "int \<Rightarrow> u8 list \<Rightarrow> afs \<Rightarrow> afs" where
  "abs_link p n a =
     (abs_new p n Leaf_node a)\<lparr>a_links := insert (free_at (a_tree a)) (a_links a)\<rparr>"

definition abs_drop :: "int \<Rightarrow> u8 list \<Rightarrow> int \<Rightarrow> afs \<Rightarrow> afs" where
  "abs_drop p n i a = a\<lparr>a_tree := tree_remove p n i (a_tree a)\<rparr>"

text \<open>
  A write replaces what lies behind the position, up to the capacity of 256 bytes; a read
  delivers the beginning of the file. Both is how \<open>expfs\<close> understands its files.
\<close>

fun abs_call :: "fs_call \<Rightarrow> afs \<Rightarrow> fs_reply \<times> afs" where
  "abs_call (Fs_create p n mode) a = (R_ok, abs_new p n Leaf_node a)"
| "abs_call (Fs_mkdir p n mode) a = (R_ok, abs_new p n (Dir_node []) a)"
| "abs_call (Fs_unlink p n) a =
     (R_ok, abs_drop p n (the (map_of (dir_at (a_tree a) p) n)) a)"
| "abs_call (Fs_rmdir p n) a =
     (let i = the (map_of (dir_at (a_tree a) p) n) in
      if a_tree a i = Some (Dir_node []) then (R_ok, abs_drop p n i a) else (R_err ENOTEMPTY, a))"
| "abs_call (Fs_rename p n q n') a = (R_ok, a\<lparr>a_tree := tree_move p n q n' (a_tree a)\<rparr>)"
| "abs_call (Fs_symlink p n target) a = (R_ok, abs_link p n a)"
| "abs_call (Fs_lookup p n) a = (R_found (map_of (dir_at (a_tree a) p) n), a)"
| "abs_call (Fs_list p) a = (R_names (dir_at (a_tree a) p), a)"
| "abs_call (Fs_write b bs pos) a =
     (let k = min (length bs) (256 - unat pos) in
      (R_count (int k),
       a\<lparr>a_data := (a_data a)(b := take (unat pos) (a_data a b) @ take k bs)\<rparr>))"
| "abs_call (Fs_read b len pos) a = (R_data (take (unat len) (a_data a b)), a)"

fun abs_calls :: "fs_call list \<Rightarrow> afs \<Rightarrow> fs_reply list \<times> afs" where
  "abs_calls [] a = ([], a)"
| "abs_calls (c # cs) a =
     (let (r, a) = abs_call c a; (rs, a) = abs_calls cs a in (r # rs, a))"

text \<open>
  What the VFS guarantees (operations on directories get directories, a name to be made is free,
  one to be removed exists, no directory is moved below itself) and what \<open>expfs\<close> needs beyond
  that: short names, four entries per directory, 48 nodes in a lifetime, no write or read that
  starts at or behind the end of the buffer or the file. Links cannot be opened.
\<close>

definition is_dir :: "afs \<Rightarrow> int \<Rightarrow> bool" where
  "is_dir a p \<longleftrightarrow> (\<exists>es. a_tree a p = Some (Dir_node es))"

definition has_room :: "afs \<Rightarrow> int \<Rightarrow> bool" where
  "has_room a p \<longleftrightarrow> length (dir_at (a_tree a) p) < 4"

definition name_free :: "afs \<Rightarrow> int \<Rightarrow> u8 list \<Rightarrow> bool" where
  "name_free a p n \<longleftrightarrow> name_ok n \<and> map_of (dir_at (a_tree a) p) n = None"

fun fs_legal :: "fs_call \<Rightarrow> afs \<Rightarrow> bool" where
  "fs_legal (Fs_create p n mode) a \<longleftrightarrow>
     is_dir a p \<and> has_room a p \<and> name_free a p n \<and> a_made a < 49 \<and> S_ISREG (ucast mode)"
| "fs_legal (Fs_mkdir p n mode) a \<longleftrightarrow>
     is_dir a p \<and> has_room a p \<and> name_free a p n \<and> a_made a < 49 \<and> mode AND 0xF000 = 0"
| "fs_legal (Fs_unlink p n) a \<longleftrightarrow>
     is_dir a p \<and> c_string n \<and>
     (\<exists>i. map_of (dir_at (a_tree a) p) n = Some i \<and> a_tree a i = Some Leaf_node)"
| "fs_legal (Fs_rmdir p n) a \<longleftrightarrow>
     is_dir a p \<and> c_string n \<and> (\<exists>i. map_of (dir_at (a_tree a) p) n = Some i \<and> is_dir a i)"
| "fs_legal (Fs_rename p n q n') a \<longleftrightarrow>
     is_dir a p \<and> is_dir a q \<and> c_string n \<and> name_free a q n' \<and> (has_room a q \<or> p = q) \<and>
     (\<exists>i. map_of (dir_at (a_tree a) p) n = Some i \<and> \<not> under (a_tree a) i q)"
| "fs_legal (Fs_symlink p n target) a \<longleftrightarrow>
     is_dir a p \<and> has_room a p \<and> name_free a p n \<and> a_made a < 49"
| "fs_legal (Fs_lookup p n) a \<longleftrightarrow> is_dir a p \<and> c_string n"
| "fs_legal (Fs_list p) a \<longleftrightarrow> is_dir a p"
| "fs_legal (Fs_write b bs pos) a \<longleftrightarrow>
     a_tree a b = Some Leaf_node \<and> b \<notin> a_links a \<and> unat pos \<le> length (a_data a b) \<and> unat pos < 256 \<and>
     length bs < 2 ^ 32"
| "fs_legal (Fs_read b len pos) a \<longleftrightarrow>
     a_tree a b = Some Leaf_node \<and> b \<notin> a_links a \<and> unat pos < length (a_data a b)"

fun fs_legals :: "fs_call list \<Rightarrow> afs \<Rightarrow> bool" where
  "fs_legals [] a \<longleftrightarrow> True"
| "fs_legals (c # cs) a \<longleftrightarrow> fs_legal c a \<and> fs_legals cs (snd (abs_call c a))"

section \<open>The relation between the two\<close>

text \<open>The contents of a regular file.\<close>

definition file_ok :: "store \<Rightarrow> int \<Rightarrow> u8 list \<Rightarrow> bool" where
  "file_ok m b d \<longleftrightarrow> S_ISREG (get32 m (a_mode b)) \<and> file_size m b = int (length d) \<and>
     length d \<le> 256 \<and> take (length d) (file_data m b) = d"

definition leaf_ok :: "store \<Rightarrow> afs \<Rightarrow> int \<Rightarrow> bool" where
  "leaf_ok m a b \<longleftrightarrow>
     (if b \<in> a_links a then S_ISLNK (get32 m (a_mode b)) else file_ok m b (a_data a b))"

definition implements :: "expfs \<Rightarrow> afs \<Rightarrow> bool" where
  "implements s a \<longleftrightarrow> fs_ok (blks s) \<and> a_tree a = tree (blks s) \<and> rooted (tree (blks s)) \<and>
     tree (blks s) 0 = None \<and> usedBlks s = int (a_made a) \<and>
     card (dom (tree (blks s))) \<le> a_made a \<and>
     (\<forall>b. tree (blks s) b = Some Leaf_node \<longrightarrow> leaf_ok (blks s) a b)"

lemma implementsD:
  assumes "implements s a"
  shows "fs_ok (blks s)" "a_tree a = tree (blks s)" "rooted (tree (blks s))"
    "tree (blks s) 0 = None" "usedBlks s = int (a_made a)" "card (dom (tree (blks s))) \<le> a_made a"
    "tree (blks s) b = Some Leaf_node \<Longrightarrow> leaf_ok (blks s) a b"
    "tree_ok (tree (blks s))"
  using assms by (auto simp: implements_def fs_ok_def)

lemma file_ok_frame:
  assumes "frame B m m'" "b \<notin> B" "file_ok m b d"
  shows "file_ok m' b d"
proof -
  have "get32 m' (a_mode b) = get32 m (a_mode b)" "get32 m' (a_size b) = get32 m (a_size b)"
    by (rule frame_get32 [OF assms(1,2)]; simp add: layout)+
  moreover have "file_data m' b = file_data m b"
    unfolding file_data_def by (rule frame_peek [OF assms(1,2)]) (simp_all add: layout)
  ultimately show ?thesis using assms(3) by (simp add: file_ok_def file_size_def)
qed

lemma leaf_ok_frame:
  assumes "frame B m m'" "b \<notin> B" "leaf_ok m a b"
    "a_data a' b = a_data a b" "b \<in> a_links a' \<longleftrightarrow> b \<in> a_links a"
  shows "leaf_ok m' a' b"
proof -
  have "get32 m' (a_mode b) = get32 m (a_mode b)"
    by (rule frame_get32 [OF assms(1,2)]) (simp_all add: layout)
  then show ?thesis
    using assms(3-5) file_ok_frame [OF assms(1,2)] by (auto simp: leaf_ok_def)
qed

lemma dom_tree: "dom (tree m) \<subseteq> {0..49}"
  by (auto simp: tree_def is_used_def valid_blk_def MAX_FILE_def split: if_splits)

lemma finite_dom_tree [simp]: "finite (dom (tree m))"
  by (rule finite_subset [OF dom_tree]) simp

lemma S_ISREG_not_dir: "S_ISREG m \<Longrightarrow> \<not> S_ISDIR m"
  by (simp add: S_ISREG_def S_ISDIR_def S_IFREG_def S_IFDIR_def)

lemma S_ISLNK_not: "S_ISLNK m \<Longrightarrow> \<not> S_ISDIR m \<and> \<not> S_ISREG m"
  by (simp add: S_ISREG_def S_ISDIR_def S_ISLNK_def S_IFREG_def S_IFDIR_def S_IFLNK_def)

lemma dir_atI: "tree m p = Some (Dir_node es) \<Longrightarrow> dir_at (tree m) p = es"
  by (simp add: dir_at_def)

lemma settle_simps [simp]:
  "settle [] r = Some r" "settle [Acquire, Touch, Release] r = Some r" "settle [Touch] r = Some r"
  "settle (Touch # t) r = settle t r"
  by (simp_all add: settle_def)

lemma reply_of_simps [simp]: "reply_of (Inr x) = R_ok" "reply_of (Inl e) = R_err e"
  by (simp_all add: reply_of_def)

lemma pass_on_0 [simp]: "pass_on 0 = Inr 0"
  by (simp add: pass_on_def)

text \<open>With fewer than 49 nodes ever made there is a free block.\<close>

lemma free_block:
  assumes "implements s a" "a_made a < 49"
  shows "first_free (blks s) = Some (free_at (a_tree a))"
proof -
  let ?T = "tree (blks s)"
  have "\<exists>j. j \<in> {2..49} \<and> ?T j = None"
  proof (rule ccontr)
    assume "\<not> ?thesis"
    then have "?T j \<noteq> None" if "j \<in> {2..49}" for j using that by metis
    then have "{2..49} \<subseteq> dom ?T" by (intro subsetI) (simp add: domIff)
    moreover have "1 \<in> dom ?T" using tree_okD(1) [OF implementsD(8) [OF assms(1)]] by auto
    ultimately have "insert 1 {2..49} \<subseteq> dom ?T" by blast
    from card_mono [OF finite_dom_tree this] show False
      using implementsD(6) [OF assms(1)] assms(2) by simp
  qed
  moreover have "set [2..MAX_FILE - 1] = {2..49}" unfolding set_upto MAX_FILE_def by simp
  ultimately have "first_free (blks s) \<noteq> None"
    unfolding first_free_tree find_None_iff by blast
  then show ?thesis
    using implementsD(2) [OF assms(1)] by (auto simp: free_at_def first_free_tree)
qed

end
