(* ===== verification/Expfs_Vfs_Refine.thy ===== *)
theory Expfs_Vfs_Refine
  imports Expfs_Vfs
begin

text \<open>
  Each legal system call on \<open>expfs\<close> refines the abstract file system.
\<close>

text \<open>
  The part of the relation that is the same for every call: files outside the changed blocks
  keep their contents.
\<close>

definition same_leaf :: "afs \<Rightarrow> afs \<Rightarrow> int \<Rightarrow> bool" where
  "same_leaf a a' b \<longleftrightarrow> a_data a' b = a_data a b \<and> (b \<in> a_links a' \<longleftrightarrow> b \<in> a_links a)"

lemma implements_frame:
  assumes "implements s a" "fs_ok (blks s')" "a_tree a' = tree (blks s')"
    and "rooted (tree (blks s'))" "tree (blks s') 0 = None"
    and "usedBlks s' = int (a_made a')" "card (dom (tree (blks s'))) \<le> a_made a'"
    and "frame B (blks s) (blks s')"
    and "\<And>b. tree (blks s') b = Some Leaf_node \<Longrightarrow>
      tree (blks s) b = Some Leaf_node \<and> b \<notin> B \<and> same_leaf a a' b \<or>
      leaf_ok (blks s') a' b"
  shows "implements s' a'"
  unfolding implements_def
  using assms(2-7,9) leaf_ok_frame [OF assms(8)] implementsD(7) [OF assms(1)]
  unfolding same_leaf_def by metis

lemma exec_dir:
  assumes "implements s a" "is_dir a p"
  shows "expfs_geti True (blks s) p = Some (inode_of (blks s) p)"
    and "tree (blks s) p = Some (Dir_node (dir_at (a_tree a) p))"
    and "fop_table (i_fop (inode_of (blks s) p)) = expfs_dir_fops"
proof -
  show t: "tree (blks s) p = Some (Dir_node (dir_at (a_tree a) p))"
    using assms implementsD(2) [OF assms(1)] by (auto simp: is_dir_def dir_at_def)
  then show "expfs_geti True (blks s) p = Some (inode_of (blks s) p)"
    by (intro expfs_geti_inode_of) (simp add: tree_Dir)
  show "fop_table (i_fop (inode_of (blks s) p)) = expfs_dir_fops"
    using t by (simp add: tree_Dir inode_of_def)
qed

lemma exec_file:
  assumes "implements s a" "a_tree a b = Some Leaf_node" "b \<notin> a_links a"
  shows "expfs_geti True (blks s) b = Some (inode_of (blks s) b)" "valid_blk b"
    and "fop_table (i_fop (inode_of (blks s) b)) = expfs_fops"
    and "file_ok (blks s) b (a_data a b)" "tree (blks s) b = Some Leaf_node"
proof -
  show t: "tree (blks s) b = Some Leaf_node" using assms implementsD(2) [OF assms(1)] by simp
  then show "valid_blk b" by (simp add: tree_Leaf)
  then show "expfs_geti True (blks s) b = Some (inode_of (blks s) b)" by (rule expfs_geti_inode_of)
  show f: "file_ok (blks s) b (a_data a b)"
    using implementsD(7) [OF assms(1) t] assms(3) by (simp add: leaf_ok_def)
  then show "fop_table (i_fop (inode_of (blks s) b)) = expfs_fops"
    using t by (simp add: inode_of_def file_ok_def tree_Leaf)
qed

lemma exec_lookup:
  assumes "implements s a" "is_dir a p" "c_string n"
  shows "expfs_lookup True s (inode_of (blks s) p) n =
    Some (map_option (inode_of (blks s)) (map_of (dir_at (a_tree a) p) n), [Touch])"
  using lookup_ok [of s "inode_of (blks s) p" "dir_at (a_tree a) p" n]
    exec_dir(2) [OF assms(1,2)] implementsD(1) [OF assms(1)] assms(3) by simp

section \<open>Making nodes\<close>

lemma exec_new:
  assumes "implements s a" "is_dir a p" "has_room a p" "name_free a p n" "a_made a < 49"
    and "type_ok mode"
    and "new_node mode = Leaf_node \<longrightarrow> (if lnk then S_ISLNK (ucast mode) else S_ISREG (ucast mode))"
  shows "\<exists>s' i. expfs_do_create True s (inode_of (blks s) p) \<lparr>d_name = n, d_inode = None\<rparr> mode =
      Some (Inr (), i, s', [Acquire, Touch, Release]) \<and> implements s' (let a' = abs_new p n (new_node mode) a
        in if lnk then a'\<lparr>a_links := insert (free_at (a_tree a)) (a_links a)\<rparr> else a')"
proof -
  let ?i = "free_at (a_tree a)" and ?es = "dir_at (a_tree a) p" and ?T = "tree (blks s)"
  let ?a = "let a' = abs_new p n (new_node mode) a
        in if lnk then a'\<lparr>a_links := insert (free_at (a_tree a)) (a_links a)\<rparr> else a'"
  note p = exec_dir [OF assms(1,2)] and i = free_block [OF assms(1,5)]
  note D = implementsD [OF assms(1)] and I = first_freeD [OF i]
  have n: "name_ok n" "n \<notin> fst ` set ?es"
    using assms(4) by (auto simp: name_free_def map_of_eq_None_iff)
  have "\<exists>s'. expfs_do_create True s (inode_of (blks s) p) \<lparr>d_name = n, d_inode = None\<rparr> mode =
      Some (Inr (), Some (inode_of (blks s') ?i), s', [Acquire, Touch, Release]) \<and>
    usedBlks s' = usedBlks s + 1 \<and> fs_ok (blks s') \<and>
    tree (blks s') = tree_create p n ?i (new_node mode) ?T \<and>
    frame {p, ?i} (blks s) (blks s') \<and> get32 (blks s') (a_mode ?i) = ucast mode \<and>
    (new_node mode = Leaf_node \<longrightarrow> S_ISREG (ucast mode) \<longrightarrow> get32 (blks s') (a_size ?i) = 0)"
    using do_create_ok [of s mode ?i "inode_of (blks s) p" ?es "\<lparr>d_name = n, d_inode = None\<rparr>"]
      D(1,5) assms(3,5,6) i n p(2) by (simp add: has_room_def MAX_FILE_def)
  then obtain s' where s': "expfs_do_create True s (inode_of (blks s) p)
      \<lparr>d_name = n, d_inode = None\<rparr> mode =
      Some (Inr (), Some (inode_of (blks s') ?i), s', [Acquire, Touch, Release])"
    "usedBlks s' = usedBlks s + 1" "fs_ok (blks s')"
    "tree (blks s') = tree_create p n ?i (new_node mode) ?T"
    "frame {p, ?i} (blks s) (blks s')" "get32 (blks s') (a_mode ?i) = ucast mode"
    "new_node mode = Leaf_node \<longrightarrow> S_ISREG (ucast mode) \<longrightarrow> get32 (blks s') (a_size ?i) = 0"
    by blast
  have node: "new_node mode = Dir_node [] \<or> new_node mode = Leaf_node" by (simp add: new_node_def)
  have t: "tree (blks s') = ?T(?i \<mapsto> new_node mode, p \<mapsto> Dir_node (?es @ [(n, ?i)]))"
    using s'(4) p(2) by (simp add: tree_create_def)
  have "implements s' ?a"
  proof (rule implements_frame [OF assms(1) s'(3) _ _ _ _ _ s'(5)])
    show "a_tree ?a = tree (blks s')" by (simp add: abs_new_def Let_def s'(4) D(2))
    show "rooted (tree (blks s'))"
      unfolding s'(4) by (rule rooted_create [OF D(3) p(2) I(4) node])
    show "tree (blks s') 0 = None" using D(4) p(2) I(1) t by auto
    show "usedBlks s' = int (a_made ?a)" using s'(2) D(5) by (simp add: abs_new_def Let_def)
    have "dom (tree (blks s')) = insert ?i (dom ?T)" using p(2) t by auto
    then show "card (dom (tree (blks s'))) \<le> a_made ?a"
      using D(6) I(4) by (simp add: abs_new_def Let_def domIff)
  next
    fix b assume b: "tree (blks s') b = Some Leaf_node"
    show "?T b = Some Leaf_node \<and> b \<notin> {p, ?i} \<and> same_leaf a ?a b \<or> leaf_ok (blks s') ?a b"
    proof (cases "b = ?i")
      case True
      have "p \<noteq> ?i" using p(2) I(4) by auto
      then have "new_node mode = Leaf_node" using b True t by simp
      then show ?thesis
        using True assms(7) s'(6,7) by (auto simp: abs_new_def Let_def leaf_ok_def file_ok_def file_size_def)
    next
      case False
      then show ?thesis using b t by (auto simp: abs_new_def Let_def same_leaf_def split: if_splits)
    qed
  qed
  then show ?thesis using s'(1) by blast
qed

lemma regular_mode: "S_ISREG (ucast (mode :: u16)) \<Longrightarrow> type_ok mode \<and> new_node mode = Leaf_node"
  by (simp add: type_ok_def new_node_def S_ISREG_not_dir)

lemma directory_mode:
  assumes "mode AND 0xF000 = (0 :: u16)"
  shows "type_ok (ucast S_IFDIR OR mode)" "new_node (ucast S_IFDIR OR mode) = Dir_node []"
proof -
  have "ucast mode AND S_IFMT = ucast (mode AND 0xF000)"
    by (rule bit_word_eqI) (auto simp: bit_simps S_IFMT_def dest: bit_imp_le_length)
  then have "ucast mode AND S_IFMT = 0" using assms by simp
  moreover have "ucast (ucast S_IFDIR OR mode) AND S_IFMT = S_IFDIR OR (ucast mode AND S_IFMT)"
    by (simp add: unsigned_or_eq bit.conj_disj_distrib2 S_IFMT_def S_IFDIR_def)
  ultimately have "S_ISDIR (ucast (ucast S_IFDIR OR mode))" by (simp add: S_ISDIR_def)
  then show "type_ok (ucast S_IFDIR OR mode)" "new_node (ucast S_IFDIR OR mode) = Dir_node []"
    by (simp_all add: type_ok_def new_node_def)
qed

lemma exec_create:
  assumes "implements s a" "fs_legal (Fs_create p n mode) a"
  shows "\<exists>s'. exec_call (Fs_create p n mode) s = Some (R_ok, s') \<and>
    implements s' (snd (abs_call (Fs_create p n mode) a))"
  using exec_new [OF assms(1), of p n mode False] regular_mode [of mode] assms(2) exec_dir(1) [OF assms(1)]
  by (auto simp: expfs_iops_def expfs_create_def)

lemma exec_mkdir:
  assumes "implements s a" "fs_legal (Fs_mkdir p n mode) a"
  shows "\<exists>s'. exec_call (Fs_mkdir p n mode) s = Some (R_ok, s') \<and>
    implements s' (snd (abs_call (Fs_mkdir p n mode) a))"
  using exec_new [OF assms(1), of p n "ucast S_IFDIR OR mode" False] directory_mode [of mode] assms(2)
    exec_dir(1) [OF assms(1)]
  by (auto simp: expfs_iops_def expfs_mkdir_def)

lemma link_mode: "type_ok (ucast S_IFLNK)" "new_node (ucast S_IFLNK) = Leaf_node"
  "S_ISLNK (ucast (ucast S_IFLNK :: u16))"
  by (simp_all add: type_ok_def new_node_def S_ISLNK_def S_ISDIR_def S_IFLNK_def S_IFDIR_def S_IFMT_def)

lemma exec_symlink:
  assumes "implements s a" "fs_legal (Fs_symlink p n target) a"
  shows "\<exists>s'. exec_call (Fs_symlink p n target) s = Some (R_ok, s') \<and>
    implements s' (snd (abs_call (Fs_symlink p n target) a))"
  using exec_new [OF assms(1), of p n "ucast S_IFLNK" True] link_mode assms(2) exec_dir(1) [OF assms(1)]
  by (auto simp: expfs_iops_def expfs_symlink_def abs_link_def)

section \<open>Removing nodes\<close>

lemma implements_drop:
  assumes "implements s a" "is_dir a p" "map_of (dir_at (a_tree a) p) n = Some i"
    and "a_tree a i = Some Leaf_node \<or> a_tree a i = Some (Dir_node [])"
    and "fs_ok m" "tree m = tree_remove p n i (tree (blks s))" "frame {p, i} (blks s) m"
  shows "implements (s\<lparr>blks := m\<rparr>) (abs_drop p n i a)"
proof -
  let ?T = "tree (blks s)" and ?es = "dir_at (a_tree a) p"
  note p = exec_dir(2) [OF assms(1,2)] and D = implementsD [OF assms(1)]
  have i: "?T i = Some Leaf_node \<or> ?T i = Some (Dir_node [])" using assms(4) D(2) by simp
  have ne: "i \<noteq> p" using i p assms(3) by auto
  have at: "tree m b = (if b = i then None else if b = p then Some (Dir_node (dir_erase n ?es))
      else ?T b)" for b
    unfolding assms(6) by (rule tree_remove_value [of ?T p ?es, OF p])
  show ?thesis
  proof (rule implements_frame [OF assms(1)])
    show "fs_ok (blks (s\<lparr>blks := m\<rparr>))" "frame {p, i} (blks s) (blks (s\<lparr>blks := m\<rparr>))"
      using assms(5,7) by simp_all
    show "a_tree (abs_drop p n i a) = tree (blks (s\<lparr>blks := m\<rparr>))"
      by (simp add: abs_drop_def assms(6) D(2))
    show "rooted (tree (blks (s\<lparr>blks := m\<rparr>)))"
      using rooted_remove [OF D(3,8) p map_of_SomeD [OF assms(3)] i] by (simp add: assms(6))
    show "tree (blks (s\<lparr>blks := m\<rparr>)) 0 = None" using D(4) p by (auto simp: at)
    show "usedBlks (s\<lparr>blks := m\<rparr>) = int (a_made (abs_drop p n i a))"
      using D(5) by (simp add: abs_drop_def)
    have "dom (tree m) \<subseteq> dom ?T" using p by (auto simp: at split: if_splits)
    then have "card (dom (tree m)) \<le> card (dom ?T)" by (intro card_mono) simp_all
    then show "card (dom (tree (blks (s\<lparr>blks := m\<rparr>)))) \<le> a_made (abs_drop p n i a)"
      using D(6) by (simp add: abs_drop_def)
    show "?T b = Some Leaf_node \<and> b \<notin> {p, i} \<and> same_leaf a (abs_drop p n i a) b \<or>
        leaf_ok (blks (s\<lparr>blks := m\<rparr>)) (abs_drop p n i a) b"
      if "tree (blks (s\<lparr>blks := m\<rparr>)) b = Some Leaf_node" for b
      using that by (auto simp: at abs_drop_def same_leaf_def split: if_splits)
  qed
qed

lemma exec_unlink:
  assumes "implements s a" "fs_legal (Fs_unlink p n) a"
  shows "\<exists>s'. exec_call (Fs_unlink p n) s = Some (R_ok, s') \<and>
    implements s' (snd (abs_call (Fs_unlink p n) a))"
proof -
  let ?es = "dir_at (a_tree a) p" and ?dir = "inode_of (blks s) p"
  obtain i where l: "is_dir a p" "c_string n" "map_of ?es n = Some i" "a_tree a i = Some Leaf_node"
    using assms(2) by auto
  note p = exec_dir [OF assms(1) l(1)] and D = implementsD [OF assms(1)]
  let ?dentry = "\<lparr>d_name = n, d_inode = Some (inode_of (blks s) i)\<rparr>"
  have "\<exists>m. expfs_unlink 0 s ?dir ?dentry = Some (Inr 0, s\<lparr>blks := m\<rparr>, [Acquire, Touch, Release]) \<and>
      fs_ok m \<and> tree m = tree_remove p n i (tree (blks s)) \<and> frame {p, i} (blks s) m"
    using unlink_ok [OF D(1), of ?dir ?es ?dentry "inode_of (blks s) i" 0] p(2) l(2-4) D(2) by simp
  then obtain m where m: "expfs_unlink 0 s ?dir ?dentry =
      Some (Inr 0, s\<lparr>blks := m\<rparr>, [Acquire, Touch, Release])"
    "fs_ok m" "tree m = tree_remove p n i (tree (blks s))" "frame {p, i} (blks s) m" by blast
  have "exec_call (Fs_unlink p n) s = Some (R_ok, s\<lparr>blks := m\<rparr>)"
    using p(1) exec_lookup [OF assms(1) l(1,2)] l(3) m(1) by (simp add: expfs_iops_def)
  moreover have "implements (s\<lparr>blks := m\<rparr>) (abs_drop p n i a)"
    using l(4) by (intro implements_drop [OF assms(1) l(1,3) _ m(2-4)]) simp
  ultimately show ?thesis using l(3) by simp
qed

lemma exec_rmdir:
  assumes "implements s a" "fs_legal (Fs_rmdir p n) a"
  shows "\<exists>s'. exec_call (Fs_rmdir p n) s = Some (fst (abs_call (Fs_rmdir p n) a), s') \<and>
    implements s' (snd (abs_call (Fs_rmdir p n) a))"
proof -
  let ?es = "dir_at (a_tree a) p" and ?dir = "inode_of (blks s) p"
  obtain i where l: "is_dir a p" "c_string n" "map_of ?es n = Some i" "is_dir a i"
    using assms(2) by auto
  note p = exec_dir [OF assms(1) l(1)] and D = implementsD [OF assms(1)]
  note i = exec_dir(2) [OF assms(1) l(4)]
  let ?dentry = "\<lparr>d_name = n, d_inode = Some (inode_of (blks s) i)\<rparr>"
  have call: "exec_call (Fs_rmdir p n) s = Some (reply_of r, s')"
    if "expfs_rmdir 0 s ?dir ?dentry = Some (r, s', [Acquire, Touch, Release])" for r s'
    using p(1) exec_lookup [OF assms(1) l(1,2)] l(3) that by (simp add: expfs_iops_def)
  show ?thesis
  proof (cases "a_tree a i = Some (Dir_node [])")
    case True
    have "\<exists>m. expfs_rmdir 0 s ?dir ?dentry = Some (Inr 0, s\<lparr>blks := m\<rparr>, [Acquire, Touch, Release]) \<and>
        fs_ok m \<and> tree m = tree_remove p n i (tree (blks s)) \<and> frame {p, i} (blks s) m"
      using rmdir_ok [OF D(1), of ?dir ?es ?dentry "inode_of (blks s) i" 0] p(2) l(2,3) D(2) True by simp
    then obtain m where m: "expfs_rmdir 0 s ?dir ?dentry =
        Some (Inr 0, s\<lparr>blks := m\<rparr>, [Acquire, Touch, Release])"
      "fs_ok m" "tree m = tree_remove p n i (tree (blks s))" "frame {p, i} (blks s) m" by blast
    have "implements (s\<lparr>blks := m\<rparr>) (abs_drop p n i a)"
      using True by (intro implements_drop [OF assms(1) l(1,3) _ m(2-4)]) simp
    then show ?thesis using call [OF m(1)] l(3) True by simp
  next
    case False
    then have "dir_at (a_tree a) i \<noteq> []" using i D(2) by auto
    then have "expfs_rmdir 0 s ?dir ?dentry = Some (Inl ENOTEMPTY, s, [Acquire, Touch, Release])"
      using rmdir_not_empty [OF D(1), of ?dentry "inode_of (blks s) i" _ 0 ?dir] i by simp
    from call [OF this] show ?thesis using l(3) False assms(1) by simp
  qed
qed

section \<open>Moving\<close>

lemma exec_rename:
  assumes "implements s a" "fs_legal (Fs_rename p n q n') a"
  shows "\<exists>s'. exec_call (Fs_rename p n q n') s = Some (R_ok, s') \<and>
    implements s' (snd (abs_call (Fs_rename p n q n') a))"
proof -
  let ?es = "dir_at (a_tree a) p" and ?es' = "dir_at (a_tree a) q" and ?T = "tree (blks s)"
  let ?a = "a\<lparr>a_tree := tree_move p n q n' (a_tree a)\<rparr>"
  obtain i where l: "is_dir a p" "is_dir a q" "c_string n" "name_free a q n'"
    "has_room a q \<or> p = q" "map_of ?es n = Some i" "\<not> under (a_tree a) i q"
    using assms(2) by auto
  note p = exec_dir [OF assms(1) l(1)] and q = exec_dir [OF assms(1) l(2)]
  note D = implementsD [OF assms(1)]
  have n': "name_ok n'" "n' \<notin> fst ` set ?es'"
    using l(4) by (auto simp: name_free_def map_of_eq_None_iff)
  let ?old = "\<lparr>d_name = n, d_inode = Some (inode_of (blks s) i)\<rparr>"
  let ?new = "\<lparr>d_name = n', d_inode = None\<rparr>"
  have "\<exists>m. expfs_rename True 0 s (inode_of (blks s) p) ?old (inode_of (blks s) q) ?new =
      Some (Inr 0, s\<lparr>blks := m\<rparr>, [Acquire, Touch, Release]) \<and> fs_ok m \<and>
      tree m = tree_move p n q n' ?T \<and> frame {p, q} (blks s) m"
    using rename_ok [OF D(1), of "inode_of (blks s) p" ?es ?old i "inode_of (blks s) q" ?es' ?new 0]
      p(2) q(2) l(3,5,6) n' by (simp add: has_room_def)
  then obtain m where m: "expfs_rename True 0 s (inode_of (blks s) p) ?old (inode_of (blks s) q) ?new =
      Some (Inr 0, s\<lparr>blks := m\<rparr>, [Acquire, Touch, Release])"
    "fs_ok m" "tree m = tree_move p n q n' ?T" "frame {p, q} (blks s) m" by blast
  have "exec_call (Fs_rename p n q n') s = Some (R_ok, s\<lparr>blks := m\<rparr>)"
    using p(1) q(1) exec_lookup [OF assms(1) l(1,3)] l(6) m(1) by (simp add: expfs_iops_def)
  moreover have "implements (s\<lparr>blks := m\<rparr>) ?a"
  proof -
    note at = tree_move_at [of ?T p ?es n i q ?es' n', OF p(2) l(6) q(2)]
    show ?thesis
    proof (rule implements_frame [OF assms(1)])
      show "fs_ok (blks (s\<lparr>blks := m\<rparr>))" "frame {p, q} (blks s) (blks (s\<lparr>blks := m\<rparr>))"
        using m(2,4) by simp_all
      show "a_tree ?a = tree (blks (s\<lparr>blks := m\<rparr>))" by (simp add: m(3) D(2))
      show "rooted (tree (blks (s\<lparr>blks := m\<rparr>)))"
        using rooted_move [OF D(3,8) p(2) l(6) q(2), of n'] l(7) by (simp add: m(3) D(2))
      show "tree (blks (s\<lparr>blks := m\<rparr>)) 0 = None" using D(4) p(2) q(2) by (auto simp: m(3) at)
      show "usedBlks (s\<lparr>blks := m\<rparr>) = int (a_made ?a)" using D(5) by simp
      have "dom (tree m) = dom ?T" using p(2) q(2) by (auto simp: m(3) at split: if_splits)
      then show "card (dom (tree (blks (s\<lparr>blks := m\<rparr>)))) \<le> a_made ?a" using D(6) by simp
      show "?T b = Some Leaf_node \<and> b \<notin> {p, q} \<and> same_leaf a ?a b \<or> leaf_ok (blks (s\<lparr>blks := m\<rparr>)) ?a b"
        if "tree (blks (s\<lparr>blks := m\<rparr>)) b = Some Leaf_node" for b
        using that by (auto simp: m(3) at same_leaf_def split: if_splits)
    qed
  qed
  ultimately show ?thesis by simp
qed

section \<open>Looking\<close>

lemma exec_look:
  assumes "implements s a" "fs_legal (Fs_lookup p n) a"
  shows "exec_call (Fs_lookup p n) s = Some (R_found (map_of (dir_at (a_tree a) p) n), s)"
  using assms(2) exec_dir(1) [OF assms(1)] exec_lookup [OF assms(1)]
  by (simp add: expfs_iops_def option.map_comp comp_def inode_of_def option.map_ident)

lemma exec_list:
  assumes "implements s a" "fs_legal (Fs_list p) a"
  shows "exec_call (Fs_list p) s = Some (R_names (dir_at (a_tree a) p), s)"
proof -
  have l: "is_dir a p" using assms(2) by simp
  note p = exec_dir [OF assms(1) l]
  obtain out where out: "expfs_iterate s (inode_of (blks s) p) 0 =
      Some (Inr 0, 56 * of_nat (length (dir_at (a_tree a) p)), out, [Acquire, Touch, Release])"
    "map (\<lambda>(n, i). (takeWhile (\<lambda>c. c \<noteq> 0) n, sint i)) out = dir_at (a_tree a) p"
    using iterate_ok [OF implementsD(1) [OF assms(1)], of "inode_of (blks s) p"] p(2) by auto
  then show ?thesis using p(1) by (simp add: p(3) expfs_dir_fops_def)
qed

section \<open>File contents\<close>

lemma exec_write:
  assumes "implements s a" "fs_legal (Fs_write b bs pos) a"
  shows "\<exists>s'. exec_call (Fs_write b bs pos) s = Some (fst (abs_call (Fs_write b bs pos) a), s') \<and>
    implements s' (snd (abs_call (Fs_write b bs pos) a))"
proof -
  let ?d = "a_data a b" and ?k = "min (length bs) (256 - unat pos)" and ?T = "tree (blks s)"
  let ?i = "inode_of (blks s) b" and ?len = "of_nat (length bs) :: u64"
  let ?a = "a\<lparr>a_data := (a_data a)(b := take (unat pos) ?d @ take ?k bs)\<rparr>"
  have l: "a_tree a b = Some Leaf_node" "unat pos \<le> length ?d" "unat pos < 256" "length bs < 2 ^ 32"
    "b \<notin> a_links a"
    using assms(2) by auto
  note f = exec_file [OF assms(1) l(1,5)] and D = implementsD [OF assms(1)]
  have "length bs < 2 ^ 64" using l(4) by (rule less_trans) simp
  then have "unat ?len = length bs" by (simp add: unsigned_of_nat take_bit_nat_eq_self)
  then have "unat (ucast ?len :: u32) = length bs" using unat_ucast_down32 [of ?len] l(4) by simp
  then have c: "unat (clip_count 256 pos (ucast ?len)) = ?k"
    using unat_clip_count [of pos 256 "ucast ?len"] l(3) by (simp add: word_le_nat_alt)
  have "flat_in bs 0 (unat (clip_count 256 pos (ucast ?len))) = (take ?k bs, 0)"
    unfolding c by (simp add: flat_in_def Let_def)
  then obtain m where m: "expfs_write flat_in s ?i bs 0 ?len pos =
      Some (Inr (int ?k), pos + of_nat ?k, s\<lparr>blks := m\<rparr>, [Acquire, Touch, Release])"
    "file_data m b = put_bytes (file_data (blks s) b) (unat pos) (take ?k bs)"
    "file_size m b = int (unat pos + ?k)" "same_except b (blks s) m"
    using write_ok [of ?i pos flat_in bs 0 ?len "take ?k bs" s] f(2) l(3) c by auto
  have "exec_call (Fs_write b bs pos) s = Some (R_count (int ?k), s\<lparr>blks := m\<rparr>)"
    using f(1) m(1) by (simp add: f(3) expfs_fops_def)
  moreover have "implements (s\<lparr>blks := m\<rparr>) ?a"
  proof -
    have d: "dirs_ok (blks s)" using D(1) by (simp add: fs_ok_def)
    have h: "get32 m (a_mode b) = get32 (blks s) (a_mode b)"
      "get32 m (a_used b) = get32 (blks s) (a_used b)"
      using write_keeps_header [OF m(1) l(3)] by simp_all
    then have "tree m b = Some Leaf_node" using f(5) by (simp add: tree_Leaf)
    then have t: "tree m = ?T" using tree_update [OF m(4) d] f(5) by (simp add: fun_upd_idem)
    have dm: "dirs_ok m" using same_except_dirs_ok [OF m(4) d] t f(5) by simp
    have "take (unat pos + ?k) (file_data m b) = take (unat pos) ?d @ take ?k bs"
      using f(4) l(2) unfolding m(2)
      by (simp add: put_bytes_def file_ok_def min_absorb1) (metis min.absorb1 take_take)
    then have fl: "file_ok m b (take (unat pos) ?d @ take ?k bs)"
      using f(4) h(1) m(3) l(2,3) by (simp add: file_ok_def min_absorb1)
    show ?thesis
    proof (rule implements_frame [OF assms(1)])
      show "frame {b} (blks s) (blks (s\<lparr>blks := m\<rparr>))" using same_except_frame [OF m(4)] by simp
      show "?T c = Some Leaf_node \<and> c \<notin> {b} \<and> same_leaf a ?a c \<or> leaf_ok (blks (s\<lparr>blks := m\<rparr>)) ?a c"
        if "tree (blks (s\<lparr>blks := m\<rparr>)) c = Some Leaf_node" for c
        using that fl t l(5) by (cases "c = b") (auto simp: same_leaf_def leaf_ok_def)
    qed (use D dm t in \<open>simp_all add: fs_ok_def\<close>)
  qed
  ultimately show ?thesis by (simp add: Let_def)
qed

lemma exec_read:
  assumes "implements s a" "fs_legal (Fs_read b len pos) a"
  shows "exec_call (Fs_read b len pos) s = Some (R_data (take (unat len) (a_data a b)), s)"
proof -
  let ?d = "a_data a b" and ?k = "min (length (a_data a b)) (unat len)"
  let ?i = "inode_of (blks s) b" and ?us = "replicate (unat len) (0 :: u8)"
  have l: "a_tree a b = Some Leaf_node" "unat pos < length ?d" "b \<notin> a_links a" using assms(2) by auto
  note f = exec_file [OF assms(1) l(1,3)]
  have sz: "file_size (blks s) b = int (length ?d)" "length ?d \<le> 256"
    "take (length ?d) (file_data (blks s) b) = ?d" using f(4) by (simp_all add: file_ok_def)
  have "take ?k (take (length ?d) (file_data (blks s) b)) = take ?k (file_data (blks s) b)"
    unfolding take_take by (simp add: min.absorb1)
  then have "take ?k (file_data (blks s) b) = take ?k ?d" unfolding sz(3) by (rule sym)
  moreover have "sint pos < int (length ?d)"
  proof -
    have "sint pos = int (unat pos)" using l(2) sz(2) by (intro sint_u64_small) simp
    then show ?thesis by (simp only: of_nat_less_iff l(2))
  qed
  moreover have "flat_out ?us 0 (take ?k ?d) = (take ?k ?d @ drop ?k ?us, 0)"
    by (simp add: flat_out_def Let_def)
  ultimately have "expfs_read flat_out s ?i ?us 0 len pos = (let k = ?k in
      Some (Inr (int k), pos + of_nat k, take ?k ?d @ drop ?k ?us, [Acquire, Touch, Release]))"
    using read_ok [of ?i s pos flat_out ?us 0 len "take ?k ?d @ drop ?k ?us"] f(2) sz(1,2) l(2)
    by simp
  moreover have "take ?k ?d = take (unat len) ?d" by (simp add: min_def)
  ultimately show ?thesis using f(1) by (simp add: f(3) expfs_fops_def Let_def)
qed

section \<open>Any legal call, and sessions\<close>

lemma exec_call_ok:
  assumes "implements s a" "fs_legal c a"
  shows "\<exists>s'. exec_call c s = Some (fst (abs_call c a), s') \<and> implements s' (snd (abs_call c a))"
proof (cases c)
  case (Fs_create p n mode)
  then show ?thesis using exec_create [OF assms(1)] assms(2) by (simp del: exec_call.simps)
next
  case (Fs_mkdir p n mode)
  then show ?thesis using exec_mkdir [OF assms(1)] assms(2) by (simp del: exec_call.simps)
next
  case (Fs_unlink p n)
  then show ?thesis using exec_unlink [OF assms(1)] assms(2) by (simp del: exec_call.simps fs_legal.simps)
next
  case (Fs_rmdir p n)
  then show ?thesis using exec_rmdir [OF assms(1)] assms(2) by blast
next
  case (Fs_rename p n q n')
  then show ?thesis
    using exec_rename [OF assms(1)] assms(2) by (simp del: exec_call.simps fs_legal.simps)
next
  case (Fs_symlink p n target)
  then show ?thesis using exec_symlink [OF assms(1)] assms(2) by (simp del: exec_call.simps)
next
  case (Fs_lookup p n)
  then show ?thesis using exec_look [OF assms(1)] assms by (simp del: exec_call.simps fs_legal.simps)
next
  case (Fs_list p)
  then show ?thesis using exec_list [OF assms(1)] assms by (simp del: exec_call.simps fs_legal.simps)
next
  case (Fs_write b bs pos)
  then show ?thesis using exec_write [OF assms(1)] assms(2) by blast
next
  case (Fs_read b len pos)
  then show ?thesis using exec_read [OF assms(1)] assms by (simp del: exec_call.simps fs_legal.simps)
qed

lemma exec_calls_ok:
  "implements s a \<Longrightarrow> fs_legals cs a \<Longrightarrow>
     \<exists>s'. exec_calls cs s = Some (fst (abs_calls cs a), s') \<and> implements s' (snd (abs_calls cs a))"
proof (induction cs arbitrary: s a)
  case (Cons c cs)
  obtain s1 where s1: "exec_call c s = Some (fst (abs_call c a), s1)"
    "implements s1 (snd (abs_call c a))"
    using exec_call_ok [OF Cons.prems(1)] Cons.prems(2) by auto
  then show ?case
    using Cons.IH [OF s1(2)] Cons.prems(2) by (auto simp: split_beta Let_def)
qed simp

end
