(* ===== verification/Expfs_Vfs_Props.thy ===== *)
theory Expfs_Vfs_Props
  imports Expfs_Vfs_Refine
begin

text \<open>
  Properties of \<open>expfs\<close> under the VFS: whole sessions from loading on, the operation tables of
  the inodes, writing inside a file, and mounting a second time.
\<close>

section \<open>Sessions\<close>

text \<open>Loading, then mounting through the file system type, with a kernel whose \<open>mount_nodev\<close> fills the superblock.\<close>

definition expfs_boot :: "expfs option" where
  "expfs_boot =
     do { (_, s) \<leftarrow> expfs_init True 0;
          (_, s) \<leftarrow> fs_mount (expfs_type :: (_, unit) file_system_type) (\<lambda>fill. fill) True s;
          Some s }"

lemma boot_implements: "\<exists>s. expfs_boot = Some s \<and> implements s afs0"
proof -
  obtain s where s: "expfs_fill_super True \<lparr>blks = (\<lambda>x. 0), usedBlks = 0\<rparr> =
      Some (inode_of (blks s) 1, s)" "usedBlks s = 0 + 1" "fs_ok (blks s)"
    "tree (blks s) = [1 \<mapsto> Dir_node []]"
    using fill_super_ok [of 0] by blast
  have "rooted [1 \<mapsto> Dir_node []]" by (auto simp: rooted_def)
  then have "implements s afs0" using s by (simp add: implements_def afs0_def)
  moreover have "expfs_boot = Some s"
    using s(1) by (simp add: expfs_boot_def expfs_init_def expfs_type_def expfs_mount_def)
  ultimately show ?thesis by blast
qed

text \<open>
  C1. From loading and mounting on, every legal sequence of system calls (create, mkdir, unlink,
  rmdir, rename, symlink, lookup, listing, write, read) runs without a fault and without leaving
  \<open>expfs_lock\<close> held, gives the replies of the abstract file system, and ends in a state that
  implements the abstract one: every block in use lies below the root, has exactly one name,
  and every file has the contents its writes gave it.
\<close>

theorem expfs_session_refines:
  assumes "fs_legals cs afs0"
  shows "\<exists>s0 s. expfs_boot = Some s0 \<and> exec_calls cs s0 = Some (fst (abs_calls cs afs0), s) \<and>
    implements s (snd (abs_calls cs afs0))"
  using boot_implements exec_calls_ok [OF _ assms] by blast

lemma free_at_2: "free_at [1 \<mapsto> x] = 2" and free_at_3: "free_at [1 \<mapsto> x, 2 \<mapsto> y] = 3"
  and free_at_4: "free_at [1 \<mapsto> x, 2 \<mapsto> y, 3 \<mapsto> z] = 4"
  by (simp_all add: free_at_def MAX_FILE_def upto_rec1)

definition sample_calls :: "fs_call list" where
  "sample_calls = [Fs_create 1 [97] 0x8000, Fs_write 2 [5, 6, 7] 0, Fs_mkdir 1 [98] 0,
     Fs_rename 1 [97] 3 [99], Fs_lookup 1 [97], Fs_list 3, Fs_read 2 2 1, Fs_rmdir 1 [98],
     Fs_symlink 1 [97] [99], Fs_lookup 1 [97]]"

lemma sample_calls_steps:
  defines "T \<equiv> [1 \<mapsto> Dir_node [([97], 2), ([98], 3)], 2 \<mapsto> Leaf_node, 3 \<mapsto> Dir_node []]"
  shows "\<not> under T 2 3" "tree_move 1 [97] 3 [99] T =
    [1 \<mapsto> Dir_node [([98], 3)], 2 \<mapsto> Leaf_node, 3 \<mapsto> Dir_node [([99], 2)]]"
proof -
  have "\<not> tree_entry T 2 n i" for n i by (simp add: T_def tree_entry_def)
  then show "\<not> under T 2 3" using under_leaf [of T 2 3] by auto
  show "tree_move 1 [97] 3 [99] T =
      [1 \<mapsto> Dir_node [([98], 3)], 2 \<mapsto> Leaf_node, 3 \<mapsto> Dir_node [([99], 2)]]"
    by (simp add: T_def tree_move_def Let_def fun_eq_iff)
qed

lemma expfs_session_refines_witness:
  "\<exists>s0 s. expfs_boot = Some s0 \<and> exec_calls sample_calls s0 =
     Some ([R_ok, R_count 3, R_ok, R_ok, R_found None, R_names [([99], 2)], R_data [5, 6],
       R_err ENOTEMPTY, R_ok, R_found (Some 4)], s)"
proof -
  have bits: "S_ISREG 0x8000" by (simp add: S_ISREG_def S_IFREG_def S_IFMT_def)
  have names: "name_ok [97]" "name_ok [98]" "name_ok [99]" "c_string [97]" "c_string [98]"
    by (simp_all add: name_ok_char c_string_def)
  note ev = sample_calls_def afs0_def abs_new_def Let_def free_at_2 free_at_3 free_at_4 abs_link_def
    tree_create_def
    dir_at_def is_dir_def has_room_def name_free_def fun_upd_twist [of "2 :: int" 1]
    fun_upd_twist [of "3 :: int" 1] fun_upd_twist [of "3 :: int" 2]
  have "fs_legals sample_calls afs0"
    using bits names sample_calls_steps by (simp add: ev)
  moreover have "fst (abs_calls sample_calls afs0) = [R_ok, R_count 3, R_ok, R_ok, R_found None,
      R_names [([99], 2)], R_data [5, 6], R_err ENOTEMPTY, R_ok, R_found (Some 4)]"
    using sample_calls_steps by (simp add: ev)
  ultimately show ?thesis using expfs_session_refines [of sample_calls] by auto
qed

section \<open>Operation tables\<close>

text \<open>
  An inode fits a block when its table of file operations is the one for what the block holds;
  a link has none.
\<close>

definition table_for :: "afs \<Rightarrow> int \<Rightarrow> fop option" where
  "table_for a b =
     (case a_tree a b of
        Some (Dir_node es) \<Rightarrow> Some Expfs_dir_fops
      | Some Leaf_node \<Rightarrow> Some (if b \<in> a_links a then No_fops else Expfs_fops)
      | None \<Rightarrow> None)"

definition inode_typed :: "afs \<Rightarrow> inode \<Rightarrow> bool" where
  "inode_typed a inode \<longleftrightarrow> i_ino inode = word_of_int (i_private inode) \<and>
     table_for a (i_private inode) = Some (i_fop inode)"

lemma inode_of_typed:
  assumes "implements s a" "tree (blks s) b \<noteq> None"
  shows "inode_typed a (inode_of (blks s) b)"
proof (cases "is_dir a b")
  case True
  then obtain es where "tree (blks s) b = Some (Dir_node es)"
    using implementsD(2) [OF assms(1)] by (auto simp: is_dir_def)
  moreover from this have "S_ISDIR (get32 (blks s) (a_mode b))" by (simp add: tree_Dir)
  ultimately show ?thesis
    using implementsD(2) [OF assms(1)] by (simp add: inode_typed_def table_for_def inode_of_def)
next
  case False
  then have t: "tree (blks s) b = Some Leaf_node"
    using assms(2) implementsD(2) [OF assms(1)] by (auto simp: is_dir_def) (metis expfs_node.exhaust)
  then have "leaf_ok (blks s) a b" by (rule implementsD(7) [OF assms(1)])
  then show ?thesis
    using t implementsD(2) [OF assms(1)]
    by (auto simp: inode_typed_def table_for_def inode_of_def leaf_ok_def file_ok_def S_ISREG_not_dir
        S_ISLNK_not split: if_splits)
qed

text \<open>
  No legal call turns a directory, a file or a link into one of the others: a block keeps its
  kind (\<open>True\<close> for a leaf) as long as it is there, and a link stays a link.
\<close>

definition same_kind :: "afs \<Rightarrow> afs \<Rightarrow> int \<Rightarrow> bool" where
  "same_kind a a' b \<longleftrightarrow> a_tree a b = None \<or> a_tree a' b = None \<or>
     (a_tree a b = Some Leaf_node \<longleftrightarrow> a_tree a' b = Some Leaf_node) \<and> (b \<in> a_links a \<longleftrightarrow> b \<in> a_links a')"

lemma same_kind_refl [simp]: "same_kind a a b"
  by (simp add: same_kind_def)

lemma same_kind_data [simp]: "same_kind a (a\<lparr>a_data := d\<rparr>) b"
  by (simp add: same_kind_def)

lemma same_kind_table:
  "same_kind a a' b \<Longrightarrow> a_tree a' b \<noteq> None \<Longrightarrow> table_for a b = Some t \<Longrightarrow> table_for a' b = Some t"
  by (auto simp: same_kind_def table_for_def split: option.splits expfs_node.splits)

lemma same_kind_drop: "same_kind a (abs_drop p n i a) b"
  by (auto simp: same_kind_def abs_drop_def tree_remove_def split: option.splits expfs_node.splits)

lemma same_kind_new:
  assumes "a_tree a (free_at (a_tree a)) = None"
  shows "same_kind a (abs_new p n node a) b" "same_kind a (abs_link p n a) b"
  using assms
  by (auto simp: same_kind_def abs_link_def abs_new_def Let_def tree_create_def
      split: option.splits expfs_node.splits)

lemma same_kind_move: "same_kind a (a\<lparr>a_tree := tree_move p n q n' (a_tree a)\<rparr>) b"
  by (auto simp: same_kind_def tree_move_def Let_def split: option.splits expfs_node.splits if_splits)

lemma abs_call_same_kind:
  assumes "implements s a" "fs_legal c a"
  shows "same_kind a (snd (abs_call c a)) b"
proof -
  have "a_tree a (free_at (a_tree a)) = None" if "a_made a < 49"
    using first_freeD(4) [OF free_block [OF assms(1) that]] implementsD(2) [OF assms(1)] by simp
  then show ?thesis
    using assms(2)
    by (cases c) (auto simp: Let_def same_kind_drop same_kind_move intro: same_kind_new)
qed

text \<open>
  C14. Types of inodes: the inode a lookup attaches to a dentry carries the file operations that
  fit its block (those of directories for a directory, those of files for a file, none for a
  link), and every
  inode that fits still does after any legal call that does not remove its block, so an inode
  cached by the VFS never reaches a handler of the other kind.
\<close>

theorem expfs_inode_types:
  assumes "implements s a" "fs_legal c a" "exec_call c s = Some (r, s')"
    and "is_dir a p" "c_string n"
  shows "(\<exists>i. expfs_lookup True s (inode_of (blks s) p) n = Some (i, [Touch]) \<and>
      (\<forall>x. i = Some x \<longrightarrow> inode_typed a x)) \<and>
    (\<forall>x. inode_typed a x \<longrightarrow> tree (blks s') (i_private x) \<noteq> None \<longrightarrow>
       inode_typed (snd (abs_call c a)) x)"
proof
  let ?m = "map_of (dir_at (a_tree a) p) n"
  have "inode_typed a (inode_of (blks s) i)" if "?m = Some i" for i
  proof (rule inode_of_typed [OF assms(1)])
    have "tree_entry (tree (blks s)) p n i"
      using exec_dir(2) [OF assms(1,4)] map_of_SomeD [OF that] by (simp add: tree_entry_def)
    then show "tree (blks s) i \<noteq> None" using tree_okD(3) [OF implementsD(8) [OF assms(1)]] by blast
  qed
  then have "\<forall>x. map_option (inode_of (blks s)) ?m = Some x \<longrightarrow> inode_typed a x" by auto
  then show "\<exists>i. expfs_lookup True s (inode_of (blks s) p) n = Some (i, [Touch]) \<and>
      (\<forall>x. i = Some x \<longrightarrow> inode_typed a x)"
    using exec_lookup [OF assms(1,4,5)] by blast
next
  have s': "implements s' (snd (abs_call c a))" using exec_call_ok [OF assms(1,2)] assms(3) by auto
  then have "a_tree (snd (abs_call c a)) = tree (blks s')" by (rule implementsD(2))
  then show "\<forall>x. inode_typed a x \<longrightarrow> tree (blks s') (i_private x) \<noteq> None \<longrightarrow>
      inode_typed (snd (abs_call c a)) x"
    using same_kind_table [OF abs_call_same_kind [OF assms(1,2)]] unfolding inode_typed_def by metis
qed

lemma sample_create:
  obtains s s' where "expfs_boot = Some s" "implements s afs0" "fs_legal (Fs_create 1 [97] 0x8000) afs0"
    "exec_call (Fs_create 1 [97] 0x8000) s = Some (R_ok, s')" "implements s' (abs_new 1 [97] Leaf_node afs0)"
    "tree (blks s) = [1 \<mapsto> Dir_node []]"
    "tree (blks s') = [1 \<mapsto> Dir_node [([97], 2)], 2 \<mapsto> Leaf_node]"
proof -
  obtain s where s: "expfs_boot = Some s" "implements s afs0" using boot_implements by blast
  have l: "fs_legal (Fs_create 1 [97] 0x8000) afs0"
    by (simp add: afs0_def is_dir_def has_room_def name_free_def dir_at_def name_ok_char S_ISREG_def
        S_IFREG_def S_IFMT_def)
  obtain s' where s': "exec_call (Fs_create 1 [97] 0x8000) s = Some (R_ok, s')"
    "implements s' (abs_new 1 [97] Leaf_node afs0)"
    using exec_create [OF s(2) l] by auto
  show ?thesis
  proof (rule that [OF s l s'])
    show "tree (blks s) = [1 \<mapsto> Dir_node []]"
      using implementsD(2) [OF s(2)] by (simp add: afs0_def)
    show "tree (blks s') = [1 \<mapsto> Dir_node [([97], 2)], 2 \<mapsto> Leaf_node]"
      using implementsD(2) [OF s'(2)]
      by (simp add: afs0_def abs_new_def Let_def free_at_2 tree_create_def fun_upd_twist)
  qed
qed

lemma expfs_inode_types_witness:
  "\<exists>s s'. expfs_boot = Some s \<and> exec_call (Fs_create 1 [97] 0x8000) s = Some (R_ok, s') \<and>
     inode_typed afs0 root_inode \<and> inode_typed (abs_new 1 [97] Leaf_node afs0) root_inode"
proof -
  obtain s s' where s: "expfs_boot = Some s" "implements s afs0"
    "fs_legal (Fs_create 1 [97] 0x8000) afs0"
    "exec_call (Fs_create 1 [97] 0x8000) s = Some (R_ok, s')"
    "tree (blks s) = [1 \<mapsto> Dir_node []]"
    "tree (blks s') = [1 \<mapsto> Dir_node [([97], 2)], 2 \<mapsto> Leaf_node]"
    by (rule sample_create)
  have r: "inode_typed afs0 root_inode" by (simp add: inode_typed_def root_inode_def table_for_def afs0_def)
  moreover have "inode_typed (abs_new 1 [97] Leaf_node afs0) root_inode"
    using expfs_inode_types [OF s(2,3,4), of 1 "[98]"] r s(6)
    by (auto simp: is_dir_def afs0_def c_string_def)
  ultimately show ?thesis using s(1,4) by blast
qed

section \<open>Mounting again\<close>

text \<open>
  C31. Mounting a second time loses every file: the root directory is emptied, but the blocks
  below it stay allocated, so afterwards they are in use and nothing leads to them.
\<close>

theorem expfs_remount_orphans:
  assumes "implements s a"
  shows "\<exists>root s'. expfs_mount (\<lambda>fill. fill) True s = Some (root, s') \<and>
    dom (tree (blks s')) = dom (tree (blks s)) \<and> {b. under (tree (blks s')) 1 b} = {1} \<and>
    usedBlks s' = usedBlks s + 1"
proof -
  let ?m = "blks s"
  let ?m' = "put32 (put32 (put32 (put32 ?m (a_mode 1) S_IFDIR) (a_size 1) 0) (a_index 1) 1)
      (a_used 1) 1"
  have v: "valid_blk 1" by (simp add: valid_blk_def MAX_FILE_def)
  have d: "dirs_ok ?m" using implementsD(1) [OF assms] by (simp add: fs_ok_def)
  have g: "get32 ?m' (a_used 1) = 1" "get32 ?m' (a_mode 1) = S_IFDIR" "get32 ?m' (a_size 1) = 0"
    by (simp_all add: peek_simps get32_put32_other layout)
  have "same_except 1 ?m ?m'"
    by (intro same_except_trans [OF _ same_except_put32]) (simp_all add: layout)
  moreover have "tree ?m' 1 = Some (Dir_node [])"
    using v g by (simp add: tree_Dir entries_def children_def S_ISDIR_def S_IFDIR_def S_IFMT_def)
  ultimately have t: "tree ?m' = (tree ?m)(1 \<mapsto> Dir_node [])" by (intro tree_update [OF _ d])
  have "{b. under (tree ?m') 1 b} = {1}"
    using under_leaf [of "tree ?m'" 1] t by (auto simp: tree_entry_def)
  moreover have "dom (tree ?m') = dom (tree ?m)"
    using t tree_okD(1) [OF implementsD(8) [OF assms]] by auto
  ultimately show ?thesis
    using v by (simp add: expfs_mount_def expfs_fill_super_def store32_put)
qed

lemma expfs_remount_orphans_witness:
  "\<exists>s root s'. tree (blks s) = [1 \<mapsto> Dir_node [([97], 2)], 2 \<mapsto> Leaf_node] \<and>
     expfs_mount (\<lambda>fill. fill) True s = Some (root, s') \<and>
     dom (tree (blks s')) = {1, 2} \<and> {b. under (tree (blks s')) 1 b} = {1}"
proof -
  obtain s :: expfs where s: "implements s (abs_new 1 [97] Leaf_node afs0)"
    "tree (blks s) = [1 \<mapsto> Dir_node [([97], 2)], 2 \<mapsto> Leaf_node]"
    by (rule sample_create)
  have "dom (tree (blks s)) = {1, 2}" using s(2) by auto
  then show ?thesis using expfs_remount_orphans [OF s(1)] s(2) by auto
qed

text \<open>
  A write inside a file cuts off what lies behind it: the size is set to where the write ends.
\<close>

theorem expfs_write_truncates:
  assumes "implements s a" "fs_legal (Fs_write b bs pos) a"
    and "unat pos + length bs < length (a_data a b)"
  shows "\<exists>s'. exec_call (Fs_write b bs pos) s = Some (R_count (int (length bs)), s') \<and>
    file_size (blks s') b = int (unat pos + length bs) \<and>
    file_size (blks s') b < file_size (blks s) b"
proof -
  let ?a = "snd (abs_call (Fs_write b bs pos) a)"
  have l: "a_tree a b = Some Leaf_node" "b \<notin> a_links a" using assms(2) by simp_all
  have f: "file_ok (blks s) b (a_data a b)" by (rule exec_file(4) [OF assms(1) l])
  then have len: "length (a_data a b) \<le> 256" by (simp add: file_ok_def)
  then have k: "min (length bs) (256 - unat pos) = length bs" using assms(3) by simp
  obtain s' where s': "exec_call (Fs_write b bs pos) s = Some (R_count (int (length bs)), s')"
    "implements s' ?a"
    using exec_call_ok [OF assms(1,2)] by (auto simp: Let_def k simp del: exec_call.simps)
  have "file_ok (blks s') b (a_data ?a b)"
    by (rule exec_file(4) [OF s'(2)]) (simp_all add: Let_def l)
  then have sz: "file_size (blks s') b = int (unat pos + length bs)"
    using assms(3) unfolding file_ok_def by (simp add: Let_def k)
  have old: "file_size (blks s) b = int (length (a_data a b))" using f by (simp add: file_ok_def)
  have "file_size (blks s') b < file_size (blks s) b"
    unfolding sz old using assms(3) by (simp only: of_nat_less_iff)
  then show ?thesis using s'(1) sz by blast
qed

end
