(* ===== verification/Expfs_Faults.thy ===== *)
theory Expfs_Faults
  imports Expfs_Files
begin

text \<open>
  The places where the code of \<open>expfs\<close> leaves its contract: a full disk, a full directory,
  renaming onto an existing name, and paths that return with \<open>expfs_lock\<close> held.
\<close>

section \<open>A full disk\<close>

text \<open>
  C39. When no block is free, creating a node does not fail but writes to \<open>blks[-1]\<close>, outside the
  array: \<open>getblock\<close> says -1 and nobody checks. The guard \<open>usedBlks >= MAX_FILE\<close> does not prevent
  it: the root and 48 children exhaust the blocks \<open>getblock\<close> searches when \<open>usedBlks\<close> is 49.
\<close>

theorem expfs_full_disk_faults:
  assumes "first_free (blks s) = None" "usedBlks s < MAX_FILE" "type_ok mode"
  shows "expfs_create True s dir dentry mode excl = None"
proof -
  have "store32 m (a_index (- 1)) w = None" for m w
    by (simp add: store32_def store_def in_blks_def layout)
  then show ?thesis
    using assms by (auto simp: expfs_create_def expfs_do_create_def getblock_first_free type_ok_def
        Let_def)
qed

lemma expfs_full_disk_faults_witness:
  "expfs_create True \<lparr>blks = (\<lambda>x. 1), usedBlks = 49\<rparr> root_inode (dentry_of [97] None) 0x8000 True = None"
proof (rule expfs_full_disk_faults)
  have "get32 (\<lambda>x. 1) a \<noteq> 0" for a
    by (simp add: get32_def peek_def of_le32_def upt_rec)
  then show "first_free (blks \<lparr>blks = (\<lambda>x. 1), usedBlks = 49\<rparr>) = None"
    by (simp add: first_free_def find_None_iff)
qed (simp_all add: MAX_FILE_def type_bits)

text \<open>
  \<open>usedBlks\<close> counts creations, not used blocks: unlinking frees a block but not the count.
  Once it has reached \<open>MAX_FILE\<close>, creating is refused even directly after an unlink has made a
  block free.
\<close>

theorem expfs_used_count_never_drops:
  assumes "fs_ok (blks s)" "usedBlks s \<ge> MAX_FILE"
    and "tree (blks s) (i_private dir) = Some (Dir_node es)"
    and "c_string (d_name dentry)" "d_inode dentry = Some inode"
    and "map_of es (d_name dentry) = Some (i_private inode)"
    and "tree (blks s) (i_private inode) = Some Leaf_node" "2 \<le> i_private inode"
  shows "\<exists>s'. expfs_unlink ret s dir dentry = Some (pass_on ret, s', [Acquire, Touch, Release]) \<and>
    first_free (blks s') \<noteq> None \<and>
    expfs_create ok s' dir' dentry' mode excl = Some (Inl EINVAL, None, s', [])"
proof -
  obtain m' where m': "expfs_unlink ret s dir dentry =
      Some (pass_on ret, s\<lparr>blks := m'\<rparr>, [Acquire, Touch, Release])"
    "tree m' = tree_remove (i_private dir) (d_name dentry) (i_private inode) (tree (blks s))"
    using unlink_ok [OF assms(1,3-7), of ret] by blast
  have "tree m' (i_private inode) = None" using m'(2) assms(3) by (simp add: tree_remove_def)
  moreover have "valid_blk (i_private inode)" using assms(7) by (simp add: tree_Leaf)
  ultimately have "get32 m' (a_used (i_private inode)) = 0" by (simp add: tree_None)
  then have "first_free m' \<noteq> None"
    using assms(8) \<open>valid_blk (i_private inode)\<close>
    by (auto simp: first_free_def find_None_iff valid_blk_def)
  then show ?thesis
    using m'(1) assms(2)
    by (intro exI [of _ "s\<lparr>blks := m'\<rparr>"]) (simp add: expfs_create_def expfs_do_create_def Let_def)
qed

lemma expfs_used_count_never_drops_example:
  "\<exists>s s'. usedBlks s = 50 \<and>
     expfs_unlink 0 s root_inode (dentry_of [97] (Some (inode_of (blks s) 2))) =
       Some (Inr 0, s', [Acquire, Touch, Release]) \<and>
     first_free (blks s') \<noteq> None \<and>
     expfs_create True s' root_inode (dentry_of [98] None) 0x8000 True = Some (Inl EINVAL, None, s', [])"
proof -
  obtain s :: expfs where s: "fs_ok (blks s)" "usedBlks s = 2"
    "tree (blks s) = [1 \<mapsto> Dir_node [([97], 2)], 2 \<mapsto> new_node 0x8000]"
    by (rule sample_child [OF type_bits(1)])
  let ?s = "s\<lparr>usedBlks := 50\<rparr>"
  have "\<exists>s'. expfs_unlink 0 ?s root_inode (dentry_of [97] (Some (inode_of (blks ?s) 2))) =
       Some (Inr 0, s', [Acquire, Touch, Release]) \<and> first_free (blks s') \<noteq> None \<and>
     expfs_create True s' root_inode (dentry_of [98] None) 0x8000 True = Some (Inl EINVAL, None, s', [])"
    using expfs_used_count_never_drops [of ?s root_inode "[([97], 2)]"
        "dentry_of [97] (Some (inode_of (blks s) 2))" "inode_of (blks s) 2" 0 True root_inode
        "dentry_of [98] None" "0x8000" True] s type_bits
    by (simp add: c_string_def pass_on_def MAX_FILE_def)
  moreover have "usedBlks ?s = 50" by simp
  ultimately show ?thesis by blast
qed

section \<open>A full directory\<close>

text \<open>
  C38. A directory's buffer has room for four entries, but nothing stops a fifth: its block
  number is written over bytes 4 to 7 of the data of the \<^emph>\<open>next\<close> block, whatever that holds.
\<close>

theorem expfs_fifth_entry_overwrites_neighbour:
  assumes "fs_ok (blks s)" "usedBlks s < MAX_FILE" "type_ok mode"
    and "first_free (blks s) = Some idx" "tree (blks s) (i_private dir) = Some (Dir_node es)"
    and "name_ok (d_name dentry)" "length es = 4" "valid_blk (i_private dir + 1)"
  shows "\<exists>s' inode. expfs_create True s dir dentry mode excl =
      Some (Inr (), Some inode, s', [Acquire, Touch, Release]) \<and>
    take 4 (drop 4 (file_data (blks s') (i_private dir + 1))) = le32 (word_of_int idx)"
proof -
  let ?m = "blks s" and ?p = "i_private dir" and ?n = "d_name dentry" and ?i = "word_of_int idx :: u32"
  let ?m1 = "fresh_block ?m idx (ucast mode)"
  note idx = first_freeD [OF assms(4)] and p = fs_okD(1-3) [OF assms(1,5)]
  have ne: "?p \<noteq> idx" using assms(5) idx(4) by auto
  note f = fresh_block_facts [where i = idx and m = ?m and mode = "ucast mode"]
  have c: "sint (get32 ?m1 (a_size ?p)) = 4"
    using same_except_entries(1) [OF f(1) ne p(2)] assms(7) p(2,3) length_entries [of ?m ?p]
    by (simp add: children_def dir_ok_def)
  let ?m2 = "put32 ?m1 (a_size ?p) (get32 ?m1 (a_size ?p) + 1)"
  let ?m3 = "put32 ?m2 (a_entry_index ?p 4) ?i"
  let ?m4 = "poke ?m3 (a_entry ?p 4) (?n @ [0])"
  have n: "length ?n < 50" using assms(6) by (simp add: name_ok_def)
  have v: "0 \<le> ?p" "?p + 1 < 50" using p(1) assms(8) by (auto simp: valid_blk_def MAX_FILE_def)
  have s3: "store32 ?m2 (a_entry_index ?p 4) ?i = Some ?m3"
    using v by (intro store32_put) (simp add: in_blks_def layout MAX_FILE_def)
  have s4: "strcpy ?m3 (a_entry ?p 4) ?n = Some ?m4"
    using v n by (simp add: strcpy_def store_def in_blks_def layout MAX_FILE_def)
  have a: "append_entry ?m1 ?p ?n ?i = Some ?m4"
    using p(1) s3 s4 c by (simp add: append_entry_def load32_get store32_put Let_def)
  have "peek ?m4 (a_entry_index ?p 4) 4 = peek ?m3 (a_entry_index ?p 4) 4"
    using n by (intro peek_poke_other) (simp add: a_entry_index_def)
  then have "peek ?m4 (a_entry_index ?p 4) 4 = le32 ?i" by (simp add: put32_def peek_poke_same)
  moreover have "a_entry_index ?p 4 = a_buffer (?p + 1) + 4" by (simp add: layout)
  moreover have "take 4 (drop 4 (file_data ?m4 (?p + 1))) = peek ?m4 (a_buffer (?p + 1) + 4) 4"
    by (rule nth_equalityI) (auto simp: file_data_def nth_peek algebra_simps)
  ultimately have "take 4 (drop 4 (file_data ?m4 (?p + 1))) = le32 ?i" by simp
  moreover have "\<exists>inode. expfs_do_create True s dir dentry mode =
      Some (Inr (), Some inode, \<lparr>blks = ?m4, usedBlks = usedBlks s + 1\<rparr>, [Acquire, Touch, Release])"
    using assms(2,3) a idx(2)
    by (auto simp: expfs_do_create_def Let_def type_ok_def getblock_first_free assms(4) store32_put
        fresh_block_def)
  ultimately show ?thesis by (auto simp: expfs_create_def)
qed

text \<open>A state whose root directory is full.\<close>

lemma sample_step:
  fixes s :: expfs
  assumes "fs_ok (blks s)" "usedBlks s = u" "tree (blks s) = T" "u < 50"
    and "List.find (\<lambda>j. T j = None) [2..49] = Some i" "T 1 = Some (Dir_node es)"
    and "name_ok n" "n \<notin> fst ` set es" "length es < 4"
  shows "\<exists>s' :: expfs. fs_ok (blks s') \<and> usedBlks s' = u + 1 \<and>
    tree (blks s') = T(1 \<mapsto> Dir_node (es @ [(n, i)]), i \<mapsto> Leaf_node)"
proof -
  have ff: "first_free (blks s) = Some i"
    using assms(3,5) by (simp add: first_free_tree MAX_FILE_def)
  have "i \<noteq> 1" using first_freeD(1) [OF ff] by simp
  then show ?thesis
    using do_create_ok [OF assms(1) _ type_bits(1) ff, of root_inode es "dentry_of n None"] assms
      type_bits(3)
    by (auto simp: MAX_FILE_def tree_create_def fun_upd_twist)
qed

lemma sample_full:
  obtains s :: expfs where "fs_ok (blks s)" "usedBlks s = 5" "first_free (blks s) = Some 6"
    "tree (blks s) 1 = Some (Dir_node [([97], 2), ([98], 3), ([99], 4), ([100], 5)])"
proof -
  note up = upto_rec1 [of 2 49] upto_rec1 [of 3 49] upto_rec1 [of 4 49] upto_rec1 [of 5 49]
    upto_rec1 [of 6 49]
  obtain s0 :: expfs where s0: "fs_ok (blks s0)" "usedBlks s0 = 1"
    "tree (blks s0) = [1 \<mapsto> Dir_node []]" by (rule sample_mounted)
  obtain s1 :: expfs where s1: "fs_ok (blks s1)" "usedBlks s1 = 2"
    "tree (blks s1) = [1 \<mapsto> Dir_node [([97], 2)], 2 \<mapsto> Leaf_node]"
    using sample_step [OF s0, of 2 "[]" "[97]"] name_ok_char [of 97] by (auto simp: up)
  obtain s2 :: expfs where s2: "fs_ok (blks s2)" "usedBlks s2 = 3"
    "tree (blks s2) = [1 \<mapsto> Dir_node [([97], 2), ([98], 3)], 2 \<mapsto> Leaf_node, 3 \<mapsto> Leaf_node]"
    using sample_step [OF s1, of 3 "[([97], 2)]" "[98]"] name_ok_char [of 98]
    by (auto simp: up fun_upd_twist)
  obtain s3 :: expfs where s3: "fs_ok (blks s3)" "usedBlks s3 = 4"
    "tree (blks s3) = [1 \<mapsto> Dir_node [([97], 2), ([98], 3), ([99], 4)], 2 \<mapsto> Leaf_node,
       3 \<mapsto> Leaf_node, 4 \<mapsto> Leaf_node]"
    using sample_step [OF s2, of 4 "[([97], 2), ([98], 3)]" "[99]"] name_ok_char [of 99]
    by (auto simp: up fun_upd_twist)
  obtain s4 :: expfs where s4: "fs_ok (blks s4)" "usedBlks s4 = 5"
    "tree (blks s4) = [1 \<mapsto> Dir_node [([97], 2), ([98], 3), ([99], 4), ([100], 5)], 2 \<mapsto> Leaf_node,
       3 \<mapsto> Leaf_node, 4 \<mapsto> Leaf_node, 5 \<mapsto> Leaf_node]"
    using sample_step [OF s3, of 5 "[([97], 2), ([98], 3), ([99], 4)]" "[100]"] name_ok_char [of 100]
    by (auto simp: up fun_upd_twist)
  have "first_free (blks s4) = Some 6" by (simp add: first_free_tree s4(3) MAX_FILE_def up)
  then show ?thesis using that s4 by simp
qed

lemma expfs_fifth_entry_overwrites_neighbour_witness:
  "\<exists>s s' inode. expfs_create True s root_inode (dentry_of [101] None) 0x8000 True =
       Some (Inr (), Some inode, s', [Acquire, Touch, Release]) \<and>
     take 4 (drop 4 (file_data (blks s') 2)) = [6, 0, 0, 0]"
proof -
  obtain s :: expfs where s: "fs_ok (blks s)" "usedBlks s = 5" "first_free (blks s) = Some 6"
    "tree (blks s) 1 = Some (Dir_node [([97], 2), ([98], 3), ([99], 4), ([100], 5)])"
    by (rule sample_full)
  have l: "le32 6 = [6, 0, 0, 0]" by (simp add: le32_def)
  have "\<exists>s' inode. expfs_create True s root_inode (dentry_of [101] None) 0x8000 True =
       Some (Inr (), Some inode, s', [Acquire, Touch, Release]) \<and>
     take 4 (drop 4 (file_data (blks s') 2)) = [6, 0, 0, 0]"
    using expfs_fifth_entry_overwrites_neighbour [of s "0x8000" 6 root_inode
        "[([97], 2), ([98], 3), ([99], 4), ([100], 5)]" "dentry_of [101] None" True]
      s type_bits name_ok_char [of 101]
    by (simp add: MAX_FILE_def valid_blk_def l)
  then show ?thesis by blast
qed

section \<open>Renaming onto an existing name\<close>

text \<open>
  C40. The VFS allows a rename onto an existing target, which should be replaced. Here the
  target's entry stays and the moved one is added behind it: the call reports success, the
  directory lists the name twice, and looking it up still finds the old target.
\<close>

theorem expfs_rename_keeps_old_target:
  assumes "fs_ok (blks s)" "tree (blks s) (i_private old_dir) = Some (Dir_node es)"
    and "map_of es (d_name old_dentry) = Some i"
    and "tree (blks s) (i_private new_dir) = Some (Dir_node es')"
    and "map_of es' (d_name new_dentry) = Some j" "i_private old_dir \<noteq> i_private new_dir"
    and "length es' < 4" "c_string (d_name old_dentry)" "name_ok (d_name new_dentry)"
  shows "\<exists>m'. expfs_rename True 0 s old_dir old_dentry new_dir new_dentry =
      Some (Inr 0, s\<lparr>blks := m'\<rparr>, [Acquire, Touch, Release]) \<and>
    tree m' (i_private new_dir) = Some (Dir_node (es' @ [(d_name new_dentry, i)])) \<and>
    \<not> distinct (map fst (es' @ [(d_name new_dentry, i)])) \<and>
    map_of (es' @ [(d_name new_dentry, i)]) (d_name new_dentry) = Some j"
proof -
  let ?m = "blks s"
  have d: "dirs_ok ?m" using assms(1) by (simp add: fs_ok_def)
  have v: "valid_blk i" using fs_okD(5) [OF assms(1-3)] by (auto simp: valid_blk_def MAX_FILE_def)
  then have i: "sint (word_of_int i :: u32) = i"
    by (intro sint_word_small) (auto simp: valid_blk_def MAX_FILE_def)
  note f = fs_okD(1-3) [OF assms(1,2)]
  obtain k w where k: "slot_of es (d_name old_dentry) = Some k"
    "load32 ?m (a_entry_index (i_private old_dir) k) = Some w" "sint w = i"
    using slot_of_index [OF f(1,2), of "d_name old_dentry" i] assms(3) by (auto simp: f(3))
  obtain m1 where m1: "erase_entry ?m (i_private old_dir) (d_name old_dentry) = Some (Some k, m1)"
    "dirs_ok m1"
    "tree m1 = (tree ?m)(i_private old_dir \<mapsto> Dir_node (dir_erase (d_name old_dentry) es))"
    using erase_entry_tree [OF d assms(2,8)] k(1) by auto
  have "tree m1 (i_private new_dir) = Some (Dir_node es')" using m1(3) assms(4,6) by simp
  then obtain m' where m': "append_entry m1 (i_private new_dir) (d_name new_dentry) (word_of_int i) = Some m'"
    "tree m' = (tree m1)(i_private new_dir \<mapsto> Dir_node (es' @ [(d_name new_dentry, i)]))"
    using append_entry_tree [OF m1(2) _ assms(9,7), of "i_private new_dir" "word_of_int i"] i by auto
  have r: "expfs_rename True 0 s old_dir old_dentry new_dir new_dentry =
      Some (Inr 0, s\<lparr>blks := m'\<rparr>, [Acquire, Touch, Release])"
    using m1(1) m'(1) v k(2,3)
    by (simp add: expfs_rename_def Let_def expfs_geti_inode_of pass_on_def i_ino_low)
  have "d_name new_dentry \<in> fst ` set es'" using map_of_SomeD [OF assms(5)] by force
  then show ?thesis using r m'(2) assms(5)
    by (intro exI [of _ m']) (simp add: map_add_Some_iff)
qed

lemma expfs_rename_keeps_old_target_witness:
  "\<exists>s m'. tree (blks s) 1 = Some (Dir_node [([97], 2), ([98], 3)]) \<and>
     tree (blks s) 3 = Some (Dir_node [([97], 4)]) \<and>
     expfs_rename True 0 s root_inode (dentry_of [97] None) (inode_of (blks s) 3) (dentry_of [97] None) =
       Some (Inr 0, s\<lparr>blks := m'\<rparr>, [Acquire, Touch, Release]) \<and>
     tree m' 3 = Some (Dir_node [([97], 4), ([97], 2)])"
proof -
  note up = upto_rec1 [of 2 49] upto_rec1 [of 3 49] upto_rec1 [of 4 49]
  obtain s0 :: expfs where s0: "fs_ok (blks s0)" "usedBlks s0 = 2"
    "tree (blks s0) = [1 \<mapsto> Dir_node [([97], 2)], 2 \<mapsto> new_node 0x8000]"
    by (rule sample_child [OF type_bits(1)])
  have f0: "first_free (blks s0) = Some 3" by (simp add: first_free_tree s0(3) MAX_FILE_def up)
  obtain s1 :: expfs where s1: "fs_ok (blks s1)" "usedBlks s1 = 3"
    "tree (blks s1) = tree_create 1 [98] 3 (Dir_node []) (tree (blks s0))"
    using do_create_ok [OF s0(1) _ type_bits(2) f0, of root_inode "[([97], 2)]" "dentry_of [98] None"]
      s0(2,3) type_bits(4) name_ok_char [of 98] by (auto simp: MAX_FILE_def)
  then have t1: "tree (blks s1) = [1 \<mapsto> Dir_node [([97], 2), ([98], 3)], 2 \<mapsto> Leaf_node,
      3 \<mapsto> Dir_node []]"
    using s0(3) type_bits(3) by (simp add: tree_create_def fun_upd_twist)
  have f1: "first_free (blks s1) = Some 4" by (simp add: first_free_tree t1 MAX_FILE_def up)
  obtain s :: expfs where s: "fs_ok (blks s)"
    "tree (blks s) = tree_create 3 [97] 4 Leaf_node (tree (blks s1))"
    using do_create_ok [OF s1(1) _ type_bits(1) f1, of "inode_of (blks s1) 3" "[]" "dentry_of [97] None"]
      s1(2) t1 type_bits(3) name_ok_char [of 97] by (auto simp: MAX_FILE_def)
  have t: "tree (blks s) 1 = Some (Dir_node [([97], 2), ([98], 3)])"
    "tree (blks s) 3 = Some (Dir_node [([97], 4)])"
    using s(2) t1 by (simp_all add: tree_create_def)
  have "\<exists>m'. expfs_rename True 0 s root_inode (dentry_of [97] None) (inode_of (blks s) 3)
        (dentry_of [97] None) = Some (Inr 0, s\<lparr>blks := m'\<rparr>, [Acquire, Touch, Release]) \<and>
      tree m' 3 = Some (Dir_node [([97], 4), ([97], 2)])"
    using expfs_rename_keeps_old_target [OF s(1), of root_inode "[([97], 2), ([98], 3)]"
        "dentry_of [97] None" 2 "inode_of (blks s) 3" "[([97], 4)]" "dentry_of [97] None" 4]
      t name_ok_char [of 97] by (auto simp: c_string_def)
  then show ?thesis using t by blast
qed

section \<open>The lock\<close>

text \<open>
  The handlers that change directories bracket their accesses with \<open>expfs_lock\<close>: however
  the calls of any number of tasks interleave, no two tasks are inside at the same time and the
  system never gets stuck.
\<close>

theorem expfs_directory_calls_exclusive:
  assumes "lock_reach expfs_dir_traces lock_init s"
  shows "(touching s i \<longrightarrow> touching s j \<longrightarrow> i = j) \<and>
    (\<not> idle s \<longrightarrow> (\<exists>s' i. lock_step expfs_dir_traces s s' \<and>
       length (pending s' i) < length (pending s i)))"
  using xl.mutual_exclusion [OF assms, of i j] xl.no_deadlock [OF assms] by blast

lemma create_trace: "[Acquire, Touch, Release] \<in> expfs_dir_traces"
proof -
  obtain s :: expfs where s: "fs_ok (blks s)" "usedBlks s = 1" "tree (blks s) = [1 \<mapsto> Dir_node []]"
    "first_free (blks s) = Some 2" by (rule sample_mounted)
  have "\<exists>s' i. expfs_do_create True s root_inode (dentry_of [97] None) 0x8000 =
      Some (Inr (), i, s', [Acquire, Touch, Release])"
    using do_create_ok [of s "0x8000" 2 root_inode "[]" "dentry_of [97] None"] s type_bits
      name_ok_char [of 97] by (auto simp: MAX_FILE_def)
  then show ?thesis by (blast intro: do_create_in_traces)
qed

lemma expfs_directory_calls_exclusive_example:
  "\<exists>s. lock_reach expfs_dir_traces lock_init s \<and> \<not> idle s \<and>
     (\<exists>s' i. lock_step expfs_dir_traces s s' \<and> length (pending s' i) < length (pending s i))"
proof -
  let ?s = "lock_init\<lparr>pending := (pending lock_init)(0 := [Acquire, Touch, Release])\<rparr>"
  have "lock_step expfs_dir_traces lock_init ?s"
    by (rule lock_step.begin_call) (simp_all add: lock_init_def create_trace)
  then have r: "lock_reach expfs_dir_traces lock_init ?s"
    by (rule lock_reach.step [OF lock_reach.refl])
  moreover have "\<not> idle ?s" by (auto simp: idle_def)
  ultimately show ?thesis using expfs_directory_calls_exclusive [OF r] by blast
qed

text \<open>The shape of every trace: a call begins by taking the lock.\<close>

lemma expfs_traces_start:
  "t \<in> expfs_dir_traces \<union> expfs_file_traces \<Longrightarrow> t = [] \<or> hd t = Acquire"
  using expfs_dir_traces_subset [of t] expfs_file_traces_subset [of t] by auto

text \<open>
  C34. A read at or past the end of a regular file answers 0 and returns with \<open>expfs_lock\<close> still
  held: if the lock was free and a task makes this one call and runs it to its end, then from the
  state it leaves no call that takes the lock ever reaches its data, whatever is called in
  whatever order. Every reader that reads until it gets 0 makes this call.
\<close>

theorem expfs_read_at_end_locks_out:
  assumes "load32 (blks s) (a_size (i_private inode)) = Some filesize" "sint ppos \<ge> sint filesize"
  shows "\<exists>t x. expfs_read ctu s inode us buf len ppos = Some (Inr 0, ppos, us, t) \<and>
    lock_step (expfs_dir_traces \<union> expfs_file_traces) lock_init
      (lock_init\<lparr>pending := (pending lock_init)(0 := t)\<rparr>) \<and>
    lock_reach {} (lock_init\<lparr>pending := (pending lock_init)(0 := t)\<rparr>) x \<and> idle x \<and>
    {x'. lock_reach (expfs_dir_traces \<union> expfs_file_traces) x x' \<and> (\<exists>j. touching x' j)} = {}"
proof -
  let ?C = "expfs_dir_traces \<union> expfs_file_traces"
  have "expfs_read flat_out s inode [] buf len ppos = Some (Inr 0, ppos, [], [Acquire, Touch])"
    using assms by (simp add: expfs_read_def)
  then have t: "[Acquire, Touch] \<in> ?C" by (rule UnI2 [OF read_in_traces])
  let ?s1 = "\<lparr>holder = None, pending = (\<lambda>i. [])(0 := [Acquire, Touch])\<rparr>"
  let ?s2 = "\<lparr>holder = Some 0, pending = (\<lambda>i. [])(0 := [Touch])\<rparr>"
  let ?s3 = "\<lparr>holder = Some 0, pending = (\<lambda>i. [])\<rparr>"
  have e: "?s1 = lock_init\<lparr>pending := (pending lock_init)(0 := [Acquire, Touch])\<rparr>"
    by (simp add: lock_init_def)
  have b: "lock_step ?C lock_init ?s1"
    using lock_step.begin_call [of lock_init 0 "[Acquire, Touch]" ?C] t by (simp add: lock_init_def)
  have "lock_step {} ?s1 ?s2" using lock_step.acquire [of ?s1 0 "[Touch]" "{}"] by simp
  moreover have "lock_step {} ?s2 ?s3"
    using lock_step.touch [of ?s2 0 "[]" "{}"] by (simp add: fun_upd_idem)
  ultimately have r: "lock_reach {} ?s1 ?s3" by (meson lock_reach.refl lock_reach.step)
  have "\<not> touching x' j" if "lock_reach ?C ?s3 x'" for x' j
  proof -
    have "holder x' = Some 0 \<and> (\<forall>j. pending x' j = [] \<or> hd (pending x' j) = Acquire)"
      by (rule leaked_forever [OF that expfs_traces_start]) simp_all
    then have "pending x' j = [] \<or> hd (pending x' j) = Acquire" by blast
    then show ?thesis by (auto simp: touching_def)
  qed
  then have "{x'. lock_reach ?C ?s3 x' \<and> (\<exists>j. touching x' j)} = {}" by blast
  moreover have "expfs_read ctu s inode us buf len ppos = Some (Inr 0, ppos, us, [Acquire, Touch])"
    using assms by (simp add: expfs_read_def)
  moreover have "idle ?s3" by (simp add: idle_def)
  ultimately show ?thesis using b r unfolding e by blast
qed

lemma expfs_read_at_end_locks_out_witness:
  "\<exists>t x. expfs_read flat_out \<lparr>blks = (\<lambda>x. 0), usedBlks = 0\<rparr> \<lparr>i_ino = 2, i_private = 2, i_fop = Expfs_fops\<rparr>
      [9] 0 1 0 = Some (Inr 0, 0, [9], t) \<and>
    lock_reach {} (lock_init\<lparr>pending := (pending lock_init)(0 := t)\<rparr>) x \<and> idle x \<and>
    {x'. lock_reach (expfs_dir_traces \<union> expfs_file_traces) x x' \<and> (\<exists>j. touching x' j)} = {}"
proof -
  let ?s = "\<lparr>blks = (\<lambda>x. 0), usedBlks = 0\<rparr>" and ?i = "\<lparr>i_ino = 2, i_private = 2, i_fop = Expfs_fops\<rparr>"
  have z: "get32 (\<lambda>x. 0) a = 0" for a by (simp add: get32_def peek_def of_le32_def upt_rec)
  have l: "load32 (blks ?s) (a_size (i_private ?i)) = Some 0"
    by (simp add: load32_get valid_blk_def MAX_FILE_def z)
  have p: "sint (0 :: u64) \<ge> sint (0 :: u32)" by simp
  show ?thesis using expfs_read_at_end_locks_out [OF l p, of flat_out "[9]" 0 1] by blast
qed

text \<open>
  \<open>expfs_lookup\<close> reads the directory without the lock, so it can meet a handler that is changing
  it: with lookups among the calls, two tasks can be at their accesses at the same time.
\<close>

lemma expfs_lookup_unprotected:
  assumes "expfs_lookup ok s0 dir name = Some (i, t)"
  shows "\<exists>s. lock_reach (insert t expfs_dir_traces) lock_init s \<and> touching s 0 \<and> touching s 1"
proof -
  have t: "t = [Touch]"
    using assms by (auto simp: expfs_lookup_def Let_def split: bind_splits option.splits)
  let ?C = "insert t expfs_dir_traces"
  let ?s1 = "\<lparr>holder = None, pending = (\<lambda>i. [])(0 := [Acquire, Touch, Release])\<rparr>"
  let ?s2 = "\<lparr>holder = Some 0, pending = (\<lambda>i. [])(0 := [Touch, Release])\<rparr>"
  let ?s3 = "\<lparr>holder = Some 0, pending = (\<lambda>i. [])(0 := [Touch, Release], 1 := [Touch])\<rparr>"
  have "lock_step ?C lock_init ?s1"
    using lock_step.begin_call [of lock_init 0 "[Acquire, Touch, Release]" ?C] create_trace
    by (simp add: lock_init_def)
  moreover have "lock_step ?C ?s1 ?s2"
    using lock_step.acquire [of ?s1 0 "[Touch, Release]" ?C] by simp
  moreover have "lock_step ?C ?s2 ?s3"
    using lock_step.begin_call [of ?s2 1 "[Touch]" ?C] t by simp
  ultimately have "lock_reach ?C lock_init ?s3"
    by (meson lock_reach.refl lock_reach.step)
  moreover have "touching ?s3 0 \<and> touching ?s3 1" by (simp add: touching_def)
  ultimately show ?thesis by blast
qed

section \<open>Mounting\<close>

text \<open>
  Mounting a freshly loaded module gives the file system that consists of an empty root
  directory.
\<close>

theorem expfs_mount_empty:
  "\<exists>s'. expfs_fill_super True (snd (the (expfs_init True 0))) = Some (inode_of (blks s') 1, s') \<and>
     usedBlks s' = 1 \<and> fs_ok (blks s') \<and> tree (blks s') = [1 \<mapsto> Dir_node []]"
  using fill_super_ok [of 0] by (auto simp: expfs_init_def)

text \<open>
  Creating a symbolic link never stores its target: when the node is created,
  \<open>expfs_symlink\<close> returns at once, so what it does is independent of the target.
\<close>

theorem expfs_symlink_ignores_target:
  assumes "expfs_do_create ok s dir dentry (ucast S_IFLNK) = Some (Inr (), inode, s', tr)"
  shows "expfs_symlink ok s dir dentry target = Some (Inr 0, inode, s', tr)"
  using assms by (simp add: expfs_symlink_def)

lemma expfs_symlink_ignores_target_example:
  "\<exists>s s' inode. expfs_symlink True s root_inode (dentry_of [97] None) [98] =
       Some (Inr 0, Some inode, s', [Acquire, Touch, Release]) \<and>
     tree (blks s') = [1 \<mapsto> Dir_node [([97], 2)], 2 \<mapsto> Leaf_node]"
proof -
  obtain s :: expfs where s: "fs_ok (blks s)" "usedBlks s = 1" "tree (blks s) = [1 \<mapsto> Dir_node []]"
    "first_free (blks s) = Some 2" by (rule sample_mounted)
  have m: "type_ok (ucast S_IFLNK)" "new_node (ucast S_IFLNK) = Leaf_node"
    by (simp_all add: type_ok_def new_node_def S_ISDIR_def S_ISREG_def S_ISLNK_def S_IFDIR_def
        S_IFREG_def S_IFLNK_def S_IFMT_def)
  obtain s' inode where s': "expfs_do_create True s root_inode (dentry_of [97] None) (ucast S_IFLNK) =
      Some (Inr (), Some inode, s', [Acquire, Touch, Release])"
    "tree (blks s') = tree_create 1 [97] 2 Leaf_node (tree (blks s))"
    using do_create_ok [of s "ucast S_IFLNK" 2 root_inode "[]" "dentry_of [97] None"] s m
      name_ok_char [of 97] by (auto simp: MAX_FILE_def)
  have "expfs_symlink True s root_inode (dentry_of [97] None) [98] =
      Some (Inr 0, Some inode, s', [Acquire, Touch, Release])"
    by (rule expfs_symlink_ignores_target [OF s'(1)])
  moreover have "tree (blks s') = [1 \<mapsto> Dir_node [([97], 2)], 2 \<mapsto> Leaf_node]"
    using s'(2) s(3) by (simp add: tree_create_def fun_upd_twist)
  ultimately show ?thesis by blast
qed

end
