(* ===== verification/Sbull.thy ===== *)
theory Sbull
  imports Kernel_Prelude
begin

text \<open>
  The RAM disk \<open>src/sbull/sbull.c\<close>: transferring a request, opening and closing, the geometry
  \<open>ioctl\<close>, setting up and removing the devices. The block layer is represented by what the driver
  sees of it: a request is its sector, its direction and the buffers of its segments; whether
  the kernel's allocation functions succeed is a parameter. An access outside an array, through a
  null pointer or a second \<open>vfree\<close> of a pointer is \<open>None\<close>.
\<close>

section \<open>Data\<close>

definition KERNEL_SECTOR_SHIFT :: nat where "KERNEL_SECTOR_SHIFT = 9"
definition KERNEL_SECTOR_SIZE :: u64 where "KERNEL_SECTOR_SIZE = push_bit KERNEL_SECTOR_SHIFT 1"
definition SBULL_MINORS :: nat where "SBULL_MINORS = 16"

text \<open>The pointer \<open>data\<close>: null, pointing to a live array, or to one that was freed.\<close>

datatype data_ptr = Null | Live "u8 list" | Dangling

record gendisk =
  disk_major :: int
  first_minor :: nat
  disk_name :: string
  capacity :: u64

record sbull_dev =
  dev_size :: u32
  data :: data_ptr
  users :: u16
  media_change :: u16
  queue :: bool
  gd :: "gendisk option"
  tags :: bool

text \<open>A request: its position in sectors, its direction, and the buffer of each segment.\<close>

record request =
  rq_pos :: u64
  rq_write :: bool
  rq_segs :: "u8 list list"

section \<open>Transfers\<close>

definition bytes_to_sectors_checked :: "u64 \<Rightarrow> u32" where
  "bytes_to_sectors_checked bytes = ucast (bytes div KERNEL_SECTOR_SIZE)"

text \<open>
  \<open>memcpy\<close> of \<open>n\<close> bytes between a buffer and the array from offset \<open>p\<close> on, in the direction
  \<open>write\<close>; gives the array and the buffer.
\<close>

definition copy_block ::
  "bool \<Rightarrow> u8 list \<Rightarrow> nat \<Rightarrow> u8 list \<Rightarrow> nat \<Rightarrow> (u8 list \<times> u8 list) option" where
  "copy_block write d p buf n =
     (if n \<le> length buf \<and> p + n \<le> length d
      then Some (if write then (put_bytes d p (take n buf), buf)
                 else (d, put_bytes buf 0 (get_bytes d p n)))
      else if n = 0 then Some (d, buf) else None)"

text \<open>\<open>sbull_transfer\<close>, for a device with a live array.\<close>

definition sbull_transfer ::
  "u32 \<Rightarrow> u8 list \<Rightarrow> u64 \<Rightarrow> u64 \<Rightarrow> u8 list \<Rightarrow> bool \<Rightarrow> (u8 list \<times> u8 list) option" where
  "sbull_transfer sz d sector nsect buffer write =
     (let offset = sector * KERNEL_SECTOR_SIZE;
          nbytes = nsect * KERNEL_SECTOR_SIZE
      in if offset + nbytes > ucast sz then Some (d, buffer)
         else copy_block write d (unat offset) buffer (unat nbytes))"

text \<open>
  The loop of \<open>do_simple_request\<close> over the segments: array, segment buffers and \<open>*nr_bytes\<close>
  afterwards. Comparing \<open>pos + b_len\<close> with \<open>dev_size\<close> is unsigned, because \<open>b_len\<close> is.
\<close>

fun segment_loop ::
  "bool \<Rightarrow> u64 \<Rightarrow> u64 \<Rightarrow> u8 list \<Rightarrow> u8 list list \<Rightarrow> u32 \<Rightarrow>
     (u8 list \<times> u8 list list \<times> u32) option" where
  "segment_loop write lim pos d [] nr_bytes = Some (d, [], nr_bytes)"
| "segment_loop write lim pos d (buf # segs) nr_bytes =
     (let b_len = of_nat (length buf);
          b_len = (if pos + b_len > lim then lim - pos else b_len)
      in do {
        (d, buf) \<leftarrow> copy_block write d (unat pos) buf (unat b_len);
        (d, segs, nr_bytes) \<leftarrow>
          segment_loop write lim (pos + b_len) d segs (nr_bytes + ucast b_len);
        Some (d, buf # segs, nr_bytes) })"

text \<open>The first component is the return value, always 0.\<close>

definition do_simple_request ::
  "sbull_dev \<Rightarrow> request \<Rightarrow> u32 \<Rightarrow> (int \<times> sbull_dev \<times> request \<times> u32) option" where
  "do_simple_request dev rq nr_bytes =
     (let pos = rq_pos rq; lim = ucast (dev_size dev)
      in case data dev of
           Live d \<Rightarrow>
             do { (d, segs, nr_bytes) \<leftarrow> segment_loop (rq_write rq) lim pos d (rq_segs rq) nr_bytes;
                  Some (0, dev\<lparr>data := Live d\<rparr>, rq\<lparr>rq_segs := segs\<rparr>, nr_bytes) }
         | _ \<Rightarrow> if concat (rq_segs rq) = [] then Some (0, dev, rq, nr_bytes) else None)"

text \<open>
  \<open>_queue_rq\<close>: besides the new device and request, the status and the byte count handed to
  \<open>blk_update_request\<close>, which answers whether parts of the request are left (then \<open>BUG\<close>).
\<close>

datatype blk_status = BLK_STS_OK | BLK_STS_IOERR

definition queue_rq ::
  "(request \<Rightarrow> blk_status \<Rightarrow> u32 \<Rightarrow> bool) \<Rightarrow> sbull_dev \<Rightarrow> request \<Rightarrow>
     (blk_status \<times> sbull_dev \<times> request \<times> u32) option" where
  "queue_rq blk_update_request dev rq =
     do { (ret, dev, rq, nr_bytes) \<leftarrow> do_simple_request dev rq 0;
          let status = (if ret \<noteq> 0 then BLK_STS_IOERR else BLK_STS_OK);
          if blk_update_request rq status nr_bytes then None
          else Some (BLK_STS_OK, dev, rq, nr_bytes) }"

section \<open>Opening and closing\<close>

text \<open>The second component: whether \<open>check_disk_change\<close> was called.\<close>

definition sbull_open :: "sbull_dev \<Rightarrow> int result \<times> bool \<times> sbull_dev" where
  "sbull_open dev = (Inr 0, users dev = 0, dev\<lparr>users := users dev + 1\<rparr>)"

text \<open>The first component: whether the expiry time of the timer was set.\<close>

definition sbull_release :: "sbull_dev \<Rightarrow> bool \<times> sbull_dev" where
  "sbull_release dev = (let u = users dev - 1 in (u = 0, dev\<lparr>users := u\<rparr>))"

definition sbull_media_changed :: "sbull_dev \<Rightarrow> int" where
  "sbull_media_changed dev = sint (media_change dev)"

section \<open>The geometry\<close>

record hd_geometry =
  heads :: u8
  sectors :: u8
  cylinders :: u16
  geo_start :: u64

definition HDIO_GETGEO :: u32 where "HDIO_GETGEO = 0x0301"

text \<open>Division of an \<open>int\<close> as in C, towards zero.\<close>

definition c_div :: "int \<Rightarrow> int \<Rightarrow> int" where
  "c_div a b = sgn a * sgn b * (\<bar>a\<bar> div \<bar>b\<bar>)"

definition sbull_geometry :: "int \<Rightarrow> sbull_dev \<Rightarrow> hd_geometry" where
  "sbull_geometry hardsect_size dev =
     (let sz = (ucast (dev_size dev * word_of_int (c_div hardsect_size 512)) :: u64)
      in \<lparr>heads = 4, sectors = 16, cylinders = ucast (drop_bit 6 (sz AND NOT 0x3f)), geo_start = 4\<rparr>)"

text \<open>Copying the structure out is a parameter: the new user memory and the bytes not copied.\<close>

definition sbull_ioctl ::
  "('u \<Rightarrow> u64 \<Rightarrow> hd_geometry \<Rightarrow> 'u \<times> u64) \<Rightarrow> int \<Rightarrow> sbull_dev \<Rightarrow> 'u \<Rightarrow> u32 \<Rightarrow> u64 \<Rightarrow>
     int result \<times> 'u" where
  "sbull_ioctl copy_to_user hardsect_size dev us cmd arg =
     (if cmd = HDIO_GETGEO then
        let (us, left) = copy_to_user us arg (sbull_geometry hardsect_size dev)
        in if left \<noteq> 0 then (Inl EFAULT, us) else (Inr 0, us)
      else (Inl ENOTTY, us))"

section \<open>Setting up and removing\<close>

text \<open>
  What the kernel's allocation functions answer for one device: the array of \<open>vmalloc\<close> (if any),
  the return value of \<open>blk_mq_alloc_tag_set\<close>, and whether \<open>blk_mq_init_queue\<close> and \<open>alloc_disk\<close>
  succeed. A failed \<open>blk_mq_alloc_tag_set\<close> leaves no tags.
\<close>

record setup_env =
  vmalloc_ret :: "u8 list option"
  tag_set_ret :: int
  init_queue_ok :: bool
  alloc_disk_ok :: bool

definition setup_device :: "int \<Rightarrow> int \<Rightarrow> int \<Rightarrow> setup_env \<Rightarrow> nat \<Rightarrow> sbull_dev option" where
  "setup_device sbull_major nsectors hardsect_size env which =
     (let dev = \<lparr>dev_size = word_of_int (nsectors * hardsect_size), data = Null, users = 0,
            media_change = 0, queue = False, gd = None, tags = False\<rparr>
      in case vmalloc_ret env of
           None \<Rightarrow> Some dev
         | Some d \<Rightarrow>
             let dev = dev\<lparr>data := Live d\<rparr>;
                 dev = (if tag_set_ret env \<noteq> 0 then dev
                        else let dev = dev\<lparr>tags := True\<rparr>
                             in if \<not> init_queue_ok env then dev else dev\<lparr>queue := True\<rparr>)
             in if \<not> queue dev then None
                else if \<not> alloc_disk_ok env then Some (dev\<lparr>data := Dangling\<rparr>)
                else Some (dev\<lparr>gd := Some \<lparr>disk_major = sbull_major,
                       first_minor = which * SBULL_MINORS,
                       disk_name = ''sbull'' @ [char_of (97 + which)],
                       capacity = word_of_int (nsectors * c_div hardsect_size 512)\<rparr>\<rparr>))"

fun setup_devices :: "int \<Rightarrow> int \<Rightarrow> int \<Rightarrow> setup_env list \<Rightarrow> nat \<Rightarrow> sbull_dev list option" where
  "setup_devices ma ns hs [] i = Some []"
| "setup_devices ma ns hs (env # envs) i =
     do { dev \<leftarrow> setup_device ma ns hs env i;
          devs \<leftarrow> setup_devices ma ns hs envs (i + 1);
          Some (dev # devs) }"

text \<open>
  The calls that take and give back the module's own resources: the major number with its name,
  and the array of devices.
\<close>

datatype blk_call =
    Register_blkdev int string int | Unregister_blkdev int string
  | Kmalloc_devices bool | Kfree_devices

text \<open>
  \<open>sbull_init\<close>: \<open>register_blkdev\<close> gives the return value of that function, \<open>kmalloc_ok\<close> whether
  \<open>kmalloc\<close> succeeds, and there is one environment per device. The result, the value left in
  \<open>sbull_major\<close>, the devices, and the calls.
\<close>

definition sbull_init ::
  "(int \<Rightarrow> string \<Rightarrow> int) \<Rightarrow> bool \<Rightarrow> int \<Rightarrow> int \<Rightarrow> int \<Rightarrow> setup_env list \<Rightarrow>
     (int result \<times> int \<times> sbull_dev list \<times> blk_call list) option" where
  "sbull_init register_blkdev kmalloc_ok sbull_major nsectors hardsect_size envs =
     (let ret = register_blkdev sbull_major ''sbull'';
          tr = [Register_blkdev sbull_major ''sbull'' ret];
          sbull_major = ret
      in if sbull_major \<le> 0 then Some (Inl EBUSY, sbull_major, [], tr)
         else if \<not> kmalloc_ok then
           Some (Inl ENOMEM, sbull_major, [],
             tr @ [Kmalloc_devices False, Unregister_blkdev sbull_major ''sbd''])
         else do { devs \<leftarrow> setup_devices sbull_major nsectors hardsect_size envs 0;
                   Some (Inr 0, sbull_major, devs, tr @ [Kmalloc_devices True]) })"

text \<open>What \<open>sbull_exit\<close> gives back for a device, in order.\<close>

datatype teardown = Del_gendisk | Put_disk | Cleanup_queue | Vfree | Free_tag_set

definition teardown_device :: "sbull_dev \<Rightarrow> teardown list option" where
  "teardown_device dev =
     (let t1 = (if gd dev \<noteq> None then [Del_gendisk, Put_disk] else []);
          t2 = (if queue dev then [Cleanup_queue] else []);
          t4 = (if tags dev then [Free_tag_set] else [])
      in case data dev of
           Null \<Rightarrow> Some (t1 @ t2 @ t4)
         | Live _ \<Rightarrow> Some (t1 @ t2 @ [Vfree] @ t4)
         | Dangling \<Rightarrow> None)"

fun teardown_devices :: "sbull_dev list \<Rightarrow> teardown list list option" where
  "teardown_devices [] = Some []"
| "teardown_devices (dev # devs) =
     do { t \<leftarrow> teardown_device dev; ts \<leftarrow> teardown_devices devs; Some (t # ts) }"

definition sbull_exit :: "int \<Rightarrow> sbull_dev list \<Rightarrow> (teardown list list \<times> blk_call list) option" where
  "sbull_exit sbull_major devs =
     do { ts \<leftarrow> teardown_devices devs;
          Some (ts, [Unregister_blkdev sbull_major ''sbull'', Kfree_devices]) }"

section \<open>The segment loop is one flat transfer\<close>

lemma copy_block_ok:
  "n \<le> length buf \<Longrightarrow> p + n \<le> length d \<Longrightarrow>
     copy_block w d p buf n =
       Some (if w then (put_bytes d p (take n buf), buf) else (d, put_bytes buf 0 (get_bytes d p n)))"
  by (simp add: copy_block_def)

lemma put_bytes_append:
  "p + length a + length b \<le> length d \<Longrightarrow>
     put_bytes (put_bytes d p a) (p + length a) b = put_bytes d p (a @ b)"
  by (simp add: put_bytes_def ac_simps)

lemma put_bytes_prefix: "put_bytes (a @ b) 0 c = (if length c \<le> length a then put_bytes a 0 c @ b
     else c @ drop (length c - length a) b)"
  by (simp add: put_bytes_def)

lemma put_bytes_split:
  "length c = length a \<Longrightarrow> put_bytes (a @ b) 0 (c @ e) = c @ put_bytes b 0 e"
  by (simp add: put_bytes_def)

text \<open>The number of bytes a request of \<open>l\<close> bytes transfers.\<close>

definition clip_len :: "nat \<Rightarrow> nat \<Rightarrow> nat \<Rightarrow> nat" where
  "clip_len lim p l = min l (lim - p)"

lemma clip_len_step:
  assumes "unat pos \<le> unat lim" "unat lim < 2 ^ 63" "l < 2 ^ 63"
  shows "unat (if pos + of_nat l > lim then lim - pos else of_nat l :: u64) =
    clip_len (unat lim) (unat pos) l"
proof -
  have l: "unat (of_nat l :: u64) = l" using assms(3) by (simp add: unsigned_of_nat take_bit_nat_eq_self)
  have s: "unat (pos + of_nat l) = unat pos + l"
    using assms l by (simp add: unat_word_ariths)
  have d: "unat (lim - pos) = unat lim - unat pos"
    using assms(1) by (intro unat_sub_le) (simp add: word_le_nat_alt)
  show ?thesis using l s d assms(1) by (auto simp: clip_len_def word_less_nat_alt)
qed

lemma clip_len_add:
  "clip_len n p (k + l) = clip_len n p k + clip_len n (p + clip_len n p k) l"
  by (auto simp: clip_len_def)

lemma clip_len_short: "clip_len n p k < k \<Longrightarrow> clip_len n (p + clip_len n p k) l = 0"
  by (auto simp: clip_len_def split: if_splits)

lemma take_clip_append:
  "take (clip_len n p (length a + length b)) (a @ b) =
     take (clip_len n p (length a)) a @ take (clip_len n (p + clip_len n p (length a)) (length b)) b"
proof (cases "clip_len n p (length a) < length a")
  case True
  then show ?thesis using clip_len_short [OF True, of "length b"] by (simp add: clip_len_add)
next
  case False
  then have "clip_len n p (length a) = length a" by (simp add: clip_len_def)
  then show ?thesis by (simp add: clip_len_add)
qed

text \<open>One round of the loop, with the clipped length as a natural number.\<close>

lemma segment_loop_Cons:
  fixes lim pos :: u64 and buf d :: "u8 list"
  defines "m \<equiv> clip_len (unat lim) (unat pos) (length buf)"
  assumes "unat pos \<le> unat lim" "unat lim < 2 ^ 63" "length buf < 2 ^ 63" "unat lim \<le> length d"
  shows "segment_loop w lim pos d (buf # segs) nr =
    do { (d', segs', nr') \<leftarrow> segment_loop w lim (pos + of_nat m)
           (if w then put_bytes d (unat pos) (take m buf) else d) segs (nr + of_nat m);
         Some (d', (if w then buf else put_bytes buf 0 (get_bytes d (unat pos) m)) # segs', nr') }"
    and "unat (pos + of_nat m) = unat pos + m" "unat pos + m \<le> unat lim"
proof -
  let ?l = "if pos + of_nat (length buf) > lim then lim - pos else of_nat (length buf) :: u64"
  have u: "unat ?l = m" unfolding m_def by (rule clip_len_step [OF assms(2-4)])
  have l: "?l = of_nat m" using arg_cong [OF u, of "of_nat :: nat \<Rightarrow> u64"] by simp
  have m: "m \<le> length buf" "unat pos + m \<le> unat lim" using assms(2) by (auto simp: m_def clip_len_def)
  show "unat pos + m \<le> unat lim" using m(2) .
  have "m < 2 ^ 63" using m(2) assms(3) by linarith
  then have um: "unat (of_nat m :: u64) = m" by (simp add: unsigned_of_nat take_bit_nat_eq_self)
  show "unat (pos + of_nat m) = unat pos + m"
    using m(2) assms(3) um by (simp add: unat_word_ariths)
  have c: "ucast (of_nat m :: u64) = (of_nat m :: u32)"
    by (rule bit_word_eqI) (simp add: bit_simps)
  have "copy_block w d (unat pos) buf m =
      Some (if w then (put_bytes d (unat pos) (take m buf), buf)
        else (d, put_bytes buf 0 (get_bytes d (unat pos) m)))"
    using m assms(5) by (intro copy_block_ok) auto
  then show "segment_loop w lim pos d (buf # segs) nr =
    do { (d', segs', nr') \<leftarrow> segment_loop w lim (pos + of_nat m)
           (if w then put_bytes d (unat pos) (take m buf) else d) segs (nr + of_nat m);
         Some (d', (if w then buf else put_bytes buf 0 (get_bytes d (unat pos) m)) # segs', nr') }"
    unfolding segment_loop.simps(2) Let_def l um c by simp
qed

lemma segment_loop_write:
  assumes "unat pos \<le> unat lim" "unat lim < 2 ^ 63" "length (concat segs) < 2 ^ 63"
    "unat lim \<le> length d"
  shows "segment_loop True lim pos d segs nr =
    (let n = clip_len (unat lim) (unat pos) (length (concat segs))
     in Some (put_bytes d (unat pos) (take n (concat segs)), segs, nr + of_nat n))"
  using assms
proof (induction segs arbitrary: pos d nr)
  case Nil
  then show ?case by (simp add: clip_len_def put_bytes_Nil Let_def)
next
  case (Cons buf segs)
  define m where "m = clip_len (unat lim) (unat pos) (length buf)"
  define n where "n = clip_len (unat lim) (unat pos + m) (length (concat segs))"
  have lb: "length buf < 2 ^ 63" "length (concat segs) < 2 ^ 63" using Cons.prems(3) by simp_all
  note c = segment_loop_Cons [OF Cons.prems(1,2) lb(1) Cons.prems(4), folded m_def]
  have tm: "length (take m buf) = m" by (simp add: m_def clip_len_def)
  have tn: "length (take n (concat segs)) = n" by (simp add: n_def clip_len_def)
  have ld: "unat pos + m + n \<le> length d" using c(3) Cons.prems(4) by (auto simp: n_def clip_len_def)
  have l1: "length (put_bytes d (unat pos) (take m buf)) = length d"
    using ld tm by (intro length_put_bytes) simp
  have IH: "segment_loop True lim (pos + of_nat m) (put_bytes d (unat pos) (take m buf)) segs (nr + of_nat m) =
      Some (put_bytes (put_bytes d (unat pos) (take m buf)) (unat pos + m) (take n (concat segs)), segs,
        nr + of_nat m + of_nat n)"
    using Cons.IH [of "pos + of_nat m" "put_bytes d (unat pos) (take m buf)" "nr + of_nat m"]
      c(2,3) Cons.prems(2,4) lb(2) l1 by (simp add: Let_def n_def)
  have "put_bytes (put_bytes d (unat pos) (take m buf)) (unat pos + m) (take n (concat segs)) =
      put_bytes d (unat pos) (take m buf @ take n (concat segs))"
    using put_bytes_append [of "unat pos" "take m buf" "take n (concat segs)" d] tm tn ld by simp
  moreover have "clip_len (unat lim) (unat pos) (length (concat (buf # segs))) = m + n"
    by (simp add: clip_len_add m_def n_def)
  moreover have "take (m + n) (concat (buf # segs)) = take m buf @ take n (concat segs)"
    using take_clip_append [of "unat lim" "unat pos" buf "concat segs"]
    by (simp add: clip_len_add m_def n_def)
  ultimately show ?case unfolding c(1) using IH by (simp add: Let_def)
qed

lemma segment_loop_read:
  assumes "unat pos \<le> unat lim" "unat lim < 2 ^ 63" "length (concat segs) < 2 ^ 63"
    "unat lim \<le> length d"
  shows "\<exists>segs'. segment_loop False lim pos d segs nr =
      Some (d, segs', nr + of_nat (clip_len (unat lim) (unat pos) (length (concat segs)))) \<and>
    map length segs' = map length segs \<and>
    concat segs' = put_bytes (concat segs) 0
      (get_bytes d (unat pos) (clip_len (unat lim) (unat pos) (length (concat segs))))"
  using assms
proof (induction segs arbitrary: pos nr)
  case Nil
  then show ?case by (simp add: clip_len_def byte_simps)
next
  case (Cons buf segs)
  define m where "m = clip_len (unat lim) (unat pos) (length buf)"
  define n where "n = clip_len (unat lim) (unat pos + m) (length (concat segs))"
  have lb: "length buf < 2 ^ 63" "length (concat segs) < 2 ^ 63" using Cons.prems(3) by simp_all
  note c = segment_loop_Cons [OF Cons.prems(1,2) lb(1) Cons.prems(4), folded m_def]
  have mb: "m \<le> length buf" by (simp add: m_def clip_len_def)
  have nb: "n \<le> length (concat segs)" by (simp add: n_def clip_len_def)
  have ld: "unat pos + m + n \<le> length d" using c(3) Cons.prems(4) by (auto simp: n_def clip_len_def)
  obtain segs' where IH: "segment_loop False lim (pos + of_nat m) d segs (nr + of_nat m) =
      Some (d, segs', nr + of_nat m + of_nat n)"
    "map length segs' = map length segs"
    "concat segs' = put_bytes (concat segs) 0 (get_bytes d (unat pos + m) n)"
    using Cons.IH [of "pos + of_nat m" "nr + of_nat m"] c(2,3) Cons.prems(2,4) lb(2)
    by (auto simp: n_def)
  let ?buf = "put_bytes buf 0 (get_bytes d (unat pos) m)"
  have g: "length (get_bytes d (unat pos) m) = m" using ld by (simp add: byte_simps)
  have tot: "clip_len (unat lim) (unat pos) (length (concat (buf # segs))) = m + n"
    by (simp add: clip_len_add m_def n_def)
  have r: "segment_loop False lim pos d (buf # segs) nr =
      Some (d, ?buf # segs', nr + of_nat (m + n))"
    unfolding c(1) using IH(1) by simp
  have "concat (?buf # segs') = put_bytes (concat (buf # segs)) 0 (get_bytes d (unat pos) (m + n))"
  proof (cases "m = length buf")
    case True
    then have "?buf = get_bytes d (unat pos) m" using g by (simp add: put_bytes_def)
    moreover have "get_bytes d (unat pos) (m + n) =
        get_bytes d (unat pos) m @ get_bytes d (unat pos + m) n"
      using get_append_get [OF ld] by simp
    ultimately show ?thesis
      using put_bytes_split [of "get_bytes d (unat pos) m" buf] g True IH(3) by simp
  next
    case False
    then have "n = 0" using mb clip_len_short [of "unat lim" "unat pos" "length buf"] 
      by (simp add: n_def m_def)
    then show ?thesis using IH(3) g mb by (simp add: byte_simps put_bytes_def)
  qed
  moreover have "length ?buf = length buf" using g mb by (simp add: put_bytes_def)
  ultimately show ?case unfolding tot using r IH(2) by (intro exI [of _ "?buf # segs'"]) simp
qed

end
