(* ===== verification/Sbull_Props.thy ===== *)
theory Sbull_Props
  imports Sbull
begin

text \<open>
  The properties of the RAM disk: requests as flat transfers, the sector mix-up, what loading and
  unloading do for every outcome of the allocations, the use count and the geometry.
\<close>

section \<open>Requests\<close>

lemma unat_dev_size: "unat (ucast (w :: u32) :: u64) = unat w"
  by (rule unat_ucast_up32)

lemma unat_dev_size_bound: "unat (ucast (w :: u32) :: u64) < 2 ^ 63"
proof -
  have "unat w < 2 ^ 32" using unsigned_less [of w] by simp
  then show ?thesis unfolding unat_dev_size by (rule less_trans) simp
qed

lemma write_request:
  assumes "data dev = Live d" "length d = unat (dev_size dev)" "rq_write rq"
    and "unat (rq_pos rq) \<le> unat (dev_size dev)" "length (concat (rq_segs rq)) < 2 ^ 32"
  defines "n \<equiv> min (length (concat (rq_segs rq))) (unat (dev_size dev) - unat (rq_pos rq))"
  shows "do_simple_request dev rq 0 =
    Some (0, dev\<lparr>data := Live (put_bytes d (unat (rq_pos rq)) (take n (concat (rq_segs rq))))\<rparr>, rq,
      of_nat n)"
proof -
  have l: "length (concat (rq_segs rq)) < 2 ^ 63" by (rule less_trans [OF assms(5)]) simp
  have "segment_loop True (ucast (dev_size dev)) (rq_pos rq) d (rq_segs rq) 0 =
      Some (put_bytes d (unat (rq_pos rq)) (take n (concat (rq_segs rq))), rq_segs rq, of_nat n)"
    using segment_loop_write [OF _ unat_dev_size_bound l, of "rq_pos rq" "dev_size dev" d 0] assms(2,4)
    by (simp add: unat_dev_size clip_len_def n_def Let_def)
  then show ?thesis using assms(1,3) by (simp add: do_simple_request_def Let_def)
qed

lemma read_request:
  assumes "data dev = Live d" "length d = unat (dev_size dev)" "\<not> rq_write rq"
    and "unat (rq_pos rq) \<le> unat (dev_size dev)" "length (concat (rq_segs rq)) < 2 ^ 32"
  defines "n \<equiv> min (length (concat (rq_segs rq))) (unat (dev_size dev) - unat (rq_pos rq))"
  shows "\<exists>segs. do_simple_request dev rq 0 = Some (0, dev, rq\<lparr>rq_segs := segs\<rparr>, of_nat n) \<and>
    map length segs = map length (rq_segs rq) \<and>
    concat segs = put_bytes (concat (rq_segs rq)) 0 (get_bytes d (unat (rq_pos rq)) n)"
proof -
  have l: "length (concat (rq_segs rq)) < 2 ^ 63" by (rule less_trans [OF assms(5)]) simp
  obtain segs where "segment_loop False (ucast (dev_size dev)) (rq_pos rq) d (rq_segs rq) 0 =
      Some (d, segs, of_nat n)" "map length segs = map length (rq_segs rq)"
    "concat segs = put_bytes (concat (rq_segs rq)) 0 (get_bytes d (unat (rq_pos rq)) n)"
    using segment_loop_read [OF _ unat_dev_size_bound l, of "rq_pos rq" "dev_size dev" d 0] assms(2,4)
    by (auto simp: unat_dev_size clip_len_def n_def)
  then show ?thesis using assms(1,3) by (auto simp: do_simple_request_def Let_def)
qed

text \<open>
  C16. How a request is cut into segments does not matter: \<open>do_simple_request\<close> transfers the
  concatenation of its segments as one block between the buffers and the array, clipped to the
  end of the device, and counts the bytes it moved.
\<close>

theorem sbull_request_is_flat_transfer:
  assumes "data dev = Live d" "length d = unat (dev_size dev)"
    and "unat (rq_pos rq) \<le> unat (dev_size dev)" "length (concat (rq_segs rq)) < 2 ^ 32"
    and "n = min (length (concat (rq_segs rq))) (unat (dev_size dev) - unat (rq_pos rq))"
  shows "\<exists>d' segs. do_simple_request dev rq 0 =
      Some (0, dev\<lparr>data := Live d'\<rparr>, rq\<lparr>rq_segs := segs\<rparr>, of_nat n) \<and>
    map length segs = map length (rq_segs rq) \<and>
    (if rq_write rq
     then d' = put_bytes d (unat (rq_pos rq)) (take n (concat (rq_segs rq))) \<and> segs = rq_segs rq
     else d' = d \<and>
       concat segs = put_bytes (concat (rq_segs rq)) 0 (get_bytes d (unat (rq_pos rq)) n))"
proof (cases "rq_write rq")
  case True
  then show ?thesis using write_request [OF assms(1,2) True assms(3,4)] assms(5) by auto
next
  case False
  have "dev = dev\<lparr>data := Live d\<rparr>" using assms(1) by simp
  then show ?thesis using read_request [OF assms(1,2) False assms(3,4)] assms(5) False by metis
qed

definition sample_disk :: "u8 list \<Rightarrow> sbull_dev" where
  "sample_disk d = \<lparr>dev_size = of_nat (length d), data = Live d, users = 1, media_change = 0,
     queue = True, gd = None, tags = True\<rparr>"

lemma sbull_request_is_flat_transfer_witness:
  "\<exists>d segs. do_simple_request (sample_disk [0, 0, 0, 0])
       \<lparr>rq_pos = 1, rq_write = True, rq_segs = [[7], [8, 9, 5]]\<rparr> 0 =
     Some (0, sample_disk d, \<lparr>rq_pos = 1, rq_write = True, rq_segs = segs\<rparr>, 3) \<and> d = [0, 7, 8, 9]"
proof -
  let ?rq = "\<lparr>rq_pos = 1, rq_write = True, rq_segs = [[7], [8, 9, 5]]\<rparr>"
  let ?dev = "sample_disk [0, 0, 0, 0]"
  have f: "data ?dev = Live [0, 0, 0, 0]" "length [0, 0, 0, 0 :: u8] = unat (dev_size ?dev)"
    by (simp_all add: sample_disk_def)
  obtain d segs where r: "do_simple_request ?dev ?rq 0 =
      Some (0, ?dev\<lparr>data := Live d\<rparr>, ?rq\<lparr>rq_segs := segs\<rparr>, of_nat 3)"
    "d = put_bytes [0, 0, 0, 0] 1 [7, 8, 9]"
  proof -
    have "unat (rq_pos ?rq) \<le> unat (dev_size ?dev)" "length (concat (rq_segs ?rq)) < 2 ^ 32"
      "3 = min (length (concat (rq_segs ?rq))) (unat (dev_size ?dev) - unat (rq_pos ?rq))"
      by (simp_all add: sample_disk_def)
    from sbull_request_is_flat_transfer [OF f this] show ?thesis using that by auto
  qed
  have "d = [0, 7, 8, 9]" using r(2) by (simp add: put_bytes_def)
  moreover have "?dev\<lparr>data := Live d\<rparr> = sample_disk d"
    by (simp add: sample_disk_def calculation)
  ultimately show ?thesis using r(1) by auto
qed

text \<open>
  A request that stays within the device is served completely: \<open>_queue_rq\<close> reports every byte
  to the block layer, which therefore has nothing left of the request (no \<open>BUG\<close>); and reading the
  same range afterwards, in segments of any lengths, delivers what was written.
\<close>

theorem sbull_write_then_read:
  assumes "data dev = Live d" "length d = unat (dev_size dev)"
    and "\<And>rq st k. upd rq st k \<longleftrightarrow> unat k < length (concat (rq_segs rq))"
    and "unat pos + length (concat segs) \<le> unat (dev_size dev)" "length (concat segs) < 2 ^ 32"
    and "length (concat segs') = length (concat segs)"
  shows "\<exists>dev' segs''. queue_rq upd dev \<lparr>rq_pos = pos, rq_write = True, rq_segs = segs\<rparr> =
      Some (BLK_STS_OK, dev', \<lparr>rq_pos = pos, rq_write = True, rq_segs = segs\<rparr>,
        of_nat (length (concat segs))) \<and>
    queue_rq upd dev' \<lparr>rq_pos = pos, rq_write = False, rq_segs = segs'\<rparr> =
      Some (BLK_STS_OK, dev', \<lparr>rq_pos = pos, rq_write = False, rq_segs = segs''\<rparr>,
        of_nat (length (concat segs))) \<and>
    concat segs'' = concat segs"
proof -
  let ?l = "length (concat segs)" and ?p = "unat pos"
  let ?w = "\<lparr>rq_pos = pos, rq_write = True, rq_segs = segs\<rparr>"
  let ?r = "\<lparr>rq_pos = pos, rq_write = False, rq_segs = segs'\<rparr>"
  let ?d = "put_bytes d ?p (concat segs)"
  let ?dev = "dev\<lparr>data := Live ?d\<rparr>"
  have n: "min ?l (unat (dev_size dev) - ?p) = ?l" using assms(4) by simp
  have w: "do_simple_request dev ?w 0 = Some (0, ?dev, ?w, of_nat ?l)"
    using write_request [OF assms(1,2), of ?w] assms(4,5) n by simp
  have ld: "length ?d = unat (dev_size ?dev)"
    using assms(2,4) by (simp add: length_put_bytes)
  obtain segs'' where r: "do_simple_request ?dev ?r 0 = Some (0, ?dev, ?r\<lparr>rq_segs := segs''\<rparr>, of_nat ?l)"
    "concat segs'' = put_bytes (concat segs') 0 (get_bytes ?d ?p ?l)"
    using read_request [of ?dev ?d ?r] ld assms(4-6) n by auto
  have "get_bytes ?d ?p ?l = concat segs" using assms(2,4) by (intro get_put_same) simp
  then have c: "concat segs'' = concat segs"
    using r(2) assms(6) by (simp add: put_bytes_def)
  have u: "unat (of_nat ?l :: u32) = ?l"
    using assms(5) by (simp add: unsigned_of_nat take_bit_nat_eq_self)
  have "queue_rq upd dev ?w = Some (BLK_STS_OK, ?dev, ?w, of_nat ?l)"
    unfolding queue_rq_def w using assms(3) u by simp
  moreover have "queue_rq upd ?dev ?r = Some (BLK_STS_OK, ?dev, ?r\<lparr>rq_segs := segs''\<rparr>, of_nat ?l)"
    unfolding queue_rq_def r(1) using assms(3) u c by simp
  ultimately show ?thesis using c by (intro exI conjI) (assumption | simp)+
qed

lemma sbull_write_then_read_example:
  "\<exists>dev segs. queue_rq (\<lambda>rq st k. unat k < length (concat (rq_segs rq))) dev
       \<lparr>rq_pos = 1, rq_write = False, rq_segs = [[0, 0], [0]]\<rparr> =
     Some (BLK_STS_OK, dev, \<lparr>rq_pos = 1, rq_write = False, rq_segs = segs\<rparr>, 3) \<and>
     concat segs = [7, 8, 9]"
  using sbull_write_then_read [of "sample_disk [0, 0, 0, 0]" "[0, 0, 0, 0]"
      "\<lambda>rq st k. unat k < length (concat (rq_segs rq))" 1 "[[7], [8, 9]]" "[[0, 0], [0]]"]
  by (auto simp: sample_disk_def)

text \<open>A second block of 512 bytes put one byte further.\<close>

lemma get_overlap:
  assumes "length a = 512" "length b = 512" "p + 1024 \<le> length d"
  shows "get_bytes (put_bytes (put_bytes d p a) (Suc p) b) p 512 = take 1 a @ take 511 b"
proof (rule nth_equalityI)
  let ?d1 = "put_bytes d p a"
  let ?d2 = "put_bytes ?d1 (Suc p) b"
  have l1: "length ?d1 = length d" using assms by (simp add: length_put_bytes)
  have l2: "length ?d2 = length d" using assms l1 by (simp add: length_put_bytes)
  show "length (get_bytes ?d2 p 512) = length (take 1 a @ take 511 b)"
    using assms l2 by (simp add: length_get_bytes)
  fix i assume "i < length (get_bytes ?d2 p 512)"
  then have i: "i < 512" using assms l2 by (simp add: length_get_bytes)
  have "get_bytes ?d2 p 512 ! i = ?d2 ! (p + i)"
    using i assms(3) l2 by (intro nth_get_bytes) simp_all
  also have "\<dots> = (if i = 0 then a ! 0 else b ! (i - 1))"
    using assms l1 i by (cases "i = 0") (simp_all add: nth_put_bytes)
  finally show "get_bytes ?d2 p 512 ! i = (take 1 a @ take 511 b) ! i"
    using i assms(1,2) by (simp add: nth_append)
qed

text \<open>
  C35. The position of a request counts sectors of 512 bytes, but the loop uses it as a byte
  offset (unlike \<open>sbull_transfer\<close>, which multiplies): two sectors written one after the other
  overlap, and reading the first one back yields its first byte followed by the first 511 bytes
  of its neighbour.
\<close>

theorem sbull_adjacent_sectors_overlap:
  assumes "data dev = Live d" "length d = unat (dev_size dev)"
    and "length a = 512" "length b = 512" "unat sec + 1024 \<le> unat (dev_size dev)"
  shows "\<exists>dev1 dev2. do_simple_request dev \<lparr>rq_pos = sec, rq_write = True, rq_segs = [a]\<rparr> 0 =
      Some (0, dev1, \<lparr>rq_pos = sec, rq_write = True, rq_segs = [a]\<rparr>, 512) \<and>
    do_simple_request dev1 \<lparr>rq_pos = sec + 1, rq_write = True, rq_segs = [b]\<rparr> 0 =
      Some (0, dev2, \<lparr>rq_pos = sec + 1, rq_write = True, rq_segs = [b]\<rparr>, 512) \<and>
    do_simple_request dev2 \<lparr>rq_pos = sec, rq_write = False, rq_segs = [a]\<rparr> 0 =
      Some (0, dev2, \<lparr>rq_pos = sec, rq_write = False, rq_segs = [take 1 a @ take 511 b]\<rparr>, 512)"
proof -
  let ?p = "unat sec"
  let ?d1 = "put_bytes d ?p a"
  let ?d2 = "put_bytes ?d1 (Suc ?p) b"
  let ?dev1 = "dev\<lparr>data := Live ?d1\<rparr>" and ?dev2 = "dev\<lparr>data := Live ?d2\<rparr>"
  have sz: "unat (dev_size dev) < 2 ^ 32" using unsigned_less [of "dev_size dev"] by simp
  have p1: "unat (sec + 1) = Suc ?p"
    using assms(5) sz by (simp add: unat_word_ariths)
  have l1: "length ?d1 = unat (dev_size dev)" using assms by (simp add: length_put_bytes)
  have l2: "length ?d2 = unat (dev_size dev)" using assms l1 by (simp add: length_put_bytes)
  have w1: "do_simple_request dev \<lparr>rq_pos = sec, rq_write = True, rq_segs = [a]\<rparr> 0 =
      Some (0, ?dev1, \<lparr>rq_pos = sec, rq_write = True, rq_segs = [a]\<rparr>, 512)"
    using write_request [OF assms(1,2), of "\<lparr>rq_pos = sec, rq_write = True, rq_segs = [a]\<rparr>"] assms(3,5)
    by (simp add: min_absorb1)
  have w2: "do_simple_request ?dev1 \<lparr>rq_pos = sec + 1, rq_write = True, rq_segs = [b]\<rparr> 0 =
      Some (0, ?dev2, \<lparr>rq_pos = sec + 1, rq_write = True, rq_segs = [b]\<rparr>, 512)"
    using write_request [of ?dev1 ?d1 "\<lparr>rq_pos = sec + 1, rq_write = True, rq_segs = [b]\<rparr>"]
      l1 assms(4,5) p1 by (simp add: min_absorb1)
  have g: "get_bytes ?d2 ?p 512 = take 1 a @ take 511 b"
    using get_overlap [of a b ?p d] assms l1 by simp
  obtain segs where r: "do_simple_request ?dev2 \<lparr>rq_pos = sec, rq_write = False, rq_segs = [a]\<rparr> 0 =
      Some (0, ?dev2, \<lparr>rq_pos = sec, rq_write = False, rq_segs = segs\<rparr>, 512)"
    "map length segs = [512]" "concat segs = put_bytes a 0 (take 1 a @ take 511 b)"
    using read_request [of ?dev2 ?d2 "\<lparr>rq_pos = sec, rq_write = False, rq_segs = [a]\<rparr>"] l2 assms(3,5) g
    by (auto simp: min_absorb1)
  have "segs = [take 1 a @ take 511 b]"
    using r(2,3) assms(3,4) by (auto simp: put_bytes_def)
  then show ?thesis using w1 w2 r(1) by blast
qed

lemma sbull_adjacent_sectors_overlap_witness:
  "\<exists>dev. do_simple_request dev \<lparr>rq_pos = 0, rq_write = False, rq_segs = [replicate 512 1]\<rparr> 0 =
     Some (0, dev, \<lparr>rq_pos = 0, rq_write = False, rq_segs = [1 # replicate 511 2]\<rparr>, 512)"
  using sbull_adjacent_sectors_overlap [of "sample_disk (replicate 1024 0)" "replicate 1024 0"
      "replicate 512 1" "replicate 512 2" 0]
  by (auto simp: sample_disk_def)

section \<open>Transfers by sector\<close>

lemma sector_bytes:
  assumes "512 * (unat sector + unat nsect) \<le> unat (sz :: u32)"
  shows "unat (sector * KERNEL_SECTOR_SIZE) = 512 * unat sector"
    "unat (nsect * KERNEL_SECTOR_SIZE) = 512 * unat nsect"
    "\<not> sector * KERNEL_SECTOR_SIZE + nsect * KERNEL_SECTOR_SIZE > ucast sz"
proof -
  have k: "KERNEL_SECTOR_SIZE = 512"
    by (simp add: KERNEL_SECTOR_SIZE_def KERNEL_SECTOR_SHIFT_def push_bit_eq_mult)
  have "unat sz < 2 ^ 32" using unsigned_less [of sz] by simp
  then have b: "512 * unat sector + 512 * unat nsect < 2 ^ 32" using assms by simp
  show s: "unat (sector * KERNEL_SECTOR_SIZE) = 512 * unat sector"
    using b by (simp add: k unat_word_ariths)
  show n: "unat (nsect * KERNEL_SECTOR_SIZE) = 512 * unat nsect"
    using b by (simp add: k unat_word_ariths)
  have "unat (sector * KERNEL_SECTOR_SIZE + nsect * KERNEL_SECTOR_SIZE) =
      512 * (unat sector + unat nsect)"
    using b s n by (simp add: unat_word_ariths(1))
  then show "\<not> sector * KERNEL_SECTOR_SIZE + nsect * KERNEL_SECTOR_SIZE > ucast sz"
    using assms by (simp add: word_less_nat_alt unat_dev_size)
qed

text \<open>
  \<open>sbull_transfer\<close> addresses whole sectors: after a write to a range of sectors, reading that
  range delivers what was written and reading any range beside it what was there before.
\<close>

theorem sbull_transfer_by_sector:
  assumes "length d = unat sz" "512 * (unat s + unat n) \<le> unat sz" "512 * (unat t + unat k) \<le> unat sz"
    and "length buf = 512 * unat n" "length out = 512 * unat k"
    and "t = s \<and> k = n \<or> unat t + unat k \<le> unat s \<or> unat s + unat n \<le> unat t"
  shows "\<exists>d'. sbull_transfer sz d s n buf True = Some (d', buf) \<and> length d' = length d \<and>
    sbull_transfer sz d' t k out False =
      Some (d', if t = s \<and> k = n then buf else get_bytes d (512 * unat t) (512 * unat k))"
proof -
  let ?d = "put_bytes d (512 * unat s) buf"
  note w = sector_bytes [OF assms(2)] and r = sector_bytes [OF assms(3)]
  have l: "length ?d = length d" using assms(1,2,4) by (simp add: length_put_bytes)
  have "sbull_transfer sz d s n buf True = Some (?d, buf)"
    using w assms(1,2,4) by (simp add: sbull_transfer_def Let_def copy_block_ok)
  moreover have "sbull_transfer sz ?d t k out False =
      Some (?d, get_bytes ?d (512 * unat t) (512 * unat k))"
  proof -
    have "length (get_bytes ?d (512 * unat t) (512 * unat k)) = length out"
      using assms(1,3,5) l by (simp add: length_get_bytes)
    then have "put_bytes out 0 (get_bytes ?d (512 * unat t) (512 * unat k)) =
        get_bytes ?d (512 * unat t) (512 * unat k)"
      by (simp add: put_bytes_def)
    then show ?thesis
      using r assms(1,3,5) l by (simp add: sbull_transfer_def Let_def copy_block_ok)
  qed
  moreover have "get_bytes ?d (512 * unat t) (512 * unat k) =
      (if t = s \<and> k = n then buf else get_bytes d (512 * unat t) (512 * unat k))"
  proof (cases "t = s \<and> k = n")
    case True
    then show ?thesis using get_put_same [of "512 * unat s" d buf] assms(1,2,4) by simp
  next
    case False
    then have "512 * unat t + 512 * unat k \<le> 512 * unat s \<or>
        512 * unat s + length buf \<le> 512 * unat t"
      using assms(4,6) by auto
    then have e: "get_bytes ?d (512 * unat t) (512 * unat k) = get_bytes d (512 * unat t) (512 * unat k)"
      using assms(1-4) by (intro get_put_disjoint) simp_all
    show ?thesis unfolding e if_not_P [OF False] ..
  qed
  ultimately show ?thesis using l by auto
qed

lemma sbull_transfer_by_sector_example:
  "\<exists>d'. sbull_transfer 1024 (replicate 1024 5) 0 1 (replicate 512 7) True = Some (d', replicate 512 7) \<and>
     sbull_transfer 1024 d' 1 1 (replicate 512 0) False = Some (d', replicate 512 5)"
  using sbull_transfer_by_sector [of "replicate 1024 5" 1024 0 1 1 1 "replicate 512 7" "replicate 512 0"]
  by (auto simp: get_bytes_def)

section \<open>The use count\<close>

text \<open>Opens (\<open>True\<close>) and releases (\<open>False\<close>) in sequence; the open calls that check the medium.\<close>

fun open_close :: "bool list \<Rightarrow> sbull_dev \<Rightarrow> bool list \<times> sbull_dev" where
  "open_close [] dev = ([], dev)"
| "open_close (True # cs) dev =
     (let (_, chk, dev) = sbull_open dev; (chks, dev) = open_close cs dev in (chk # chks, dev))"
| "open_close (False # cs) dev = (let (_, dev) = sbull_release dev in open_close cs dev)"

fun balance :: "bool list \<Rightarrow> int \<Rightarrow> int" where
  "balance [] n = n"
| "balance (c # cs) n = balance cs (if c then n + 1 else n - 1)"

fun first_opens :: "bool list \<Rightarrow> int \<Rightarrow> bool list" where
  "first_opens [] n = []"
| "first_opens (True # cs) n = (n = 0) # first_opens cs (n + 1)"
| "first_opens (False # cs) n = first_opens cs (n - 1)"

fun within_short :: "bool list \<Rightarrow> int \<Rightarrow> bool" where
  "within_short [] n = (0 \<le> n \<and> n < 2 ^ 16)"
| "within_short (c # cs) n = (0 \<le> n \<and> n < 2 ^ 16 \<and> within_short cs (if c then n + 1 else n - 1))"

lemma within_shortD: "within_short cs n \<Longrightarrow> 0 \<le> n \<and> n < 2 ^ 16"
  by (cases cs) auto

lemma word_of_int_u16_0: "0 \<le> n \<Longrightarrow> n < 2 ^ 16 \<Longrightarrow> (word_of_int n :: u16) = 0 \<longleftrightarrow> n = 0"
  by (simp add: word_of_int_eq_0_iff dvd_eq_mod_eq_0)

text \<open>
  As long as fewer than \<open>2^16\<close> users have the device open and none closes it more often than
  it was opened, \<open>users\<close> is the number of users, and the medium is checked exactly by the opens
  that find nobody else.
\<close>

theorem sbull_use_count:
  assumes "users dev = word_of_int n" "within_short cs n"
  shows "open_close cs dev = (first_opens cs n, dev\<lparr>users := word_of_int (balance cs n)\<rparr>)"
  using assms
proof (induction cs arbitrary: dev n)
  case Nil
  then show ?case by simp
next
  case (Cons c cs)
  have n: "0 \<le> n" "n < 2 ^ 16" using Cons.prems(2) by simp_all
  show ?case
  proof (cases c)
    case True
    have "open_close cs (dev\<lparr>users := users dev + 1\<rparr>) =
        (first_opens cs (n + 1), dev\<lparr>users := word_of_int (balance cs (n + 1))\<rparr>)"
      using Cons.IH [of "dev\<lparr>users := users dev + 1\<rparr>" "n + 1"] Cons.prems True by simp
    then show ?thesis
      using True Cons.prems(1) word_of_int_u16_0 [OF n] by (simp add: sbull_open_def)
  next
    case False
    have "open_close cs (dev\<lparr>users := users dev - 1\<rparr>) =
        (first_opens cs (n - 1), dev\<lparr>users := word_of_int (balance cs (n - 1))\<rparr>)"
      using Cons.IH [of "dev\<lparr>users := users dev - 1\<rparr>" "n - 1"] Cons.prems False by simp
    then show ?thesis using False by (simp add: sbull_release_def)
  qed
qed

lemma sbull_use_count_example:
  "open_close [True, True, False, False, True] ((sample_disk [])\<lparr>users := 0\<rparr>) =
     ([True, False, True], (sample_disk [])\<lparr>users := 1\<rparr>)"
  using sbull_use_count [of "(sample_disk [])\<lparr>users := 0\<rparr>" 0 "[True, True, False, False, True]"]
  by simp

section \<open>The geometry\<close>

lemma ucast_of_nat_16: "ucast (of_nat m :: u64) = (of_nat m :: u16)"
  by (rule bit_word_eqI) (simp add: bit_simps)

text \<open>
  C24. The geometry the driver reports: 4 heads, 16 sectors, and as many cylinders as if \<open>size\<close>
  were a number of sectors. But \<open>size\<close> counts bytes, so for a disk of \<open>n\<close> sectors of 512 bytes
  whose \<open>8 * n\<close> cylinders fit the 16-bit field, the geometry describes 512 times the capacity
  that was set for the disk.
\<close>

theorem sbull_geometry_overstates:
  assumes "setup_device ma (int n) 512 env i = Some dev" "gd dev = Some disk" "n < 2 ^ 13"
  shows "sbull_geometry 512 dev =
      \<lparr>heads = 4, sectors = 16, cylinders = of_nat (8 * n), geo_start = 4\<rparr> \<and>
    4 * 16 * unat (cylinders (sbull_geometry 512 dev)) = 512 * unat (capacity disk)"
proof -
  have c: "c_div 512 512 = 1" by (simp add: c_div_def)
  have d: "dev_size dev = of_nat (n * 512)" "capacity disk = of_nat n"
    using assms(1,2) by (auto simp: setup_device_def Let_def c split: option.splits if_splits)
  have n32: "n * 512 < 2 ^ 32" using assms(3) by simp
  have us: "unat (ucast (of_nat (n * 512) :: u32) :: u64) = n * 512"
    using n32 by (simp add: unat_ucast_up32 unsigned_of_nat take_bit_nat_eq_self del: of_nat_mult)
  have sz: "(ucast (of_nat (n * 512) :: u32) :: u64) = of_nat (n * 512)"
    using arg_cong [OF us, of "of_nat :: nat \<Rightarrow> u64"] by (simp del: of_nat_mult)
  have "of_nat (n * 512) AND NOT 0x3f = (of_nat (n * 512) :: u64)"
  proof (rule bit_word_eqI)
    fix k assume "k < LENGTH(64)"
    have "(of_nat (n * 512) :: u64) = push_bit 9 (of_nat n)" by (simp add: push_bit_eq_mult)
    moreover have "(NOT 0x3f :: u64) = NOT (mask 6)" by (simp add: mask_eq_exp_minus_1)
    ultimately show "bit (of_nat (n * 512) AND NOT 0x3f :: u64) k = bit (of_nat (n * 512) :: u64) k"
      using \<open>k < LENGTH(64)\<close> by (simp only: bit_and_iff bit_not_iff bit_push_bit_iff bit_mask_iff) auto
  qed
  moreover have "drop_bit 6 (of_nat (n * 512) :: u64) = of_nat (8 * n)"
  proof -
    have "unat (of_nat (n * 512) :: u64) = n * 512"
      using assms(3) by (simp add: unsigned_of_nat take_bit_nat_eq_self del: of_nat_mult)
    then have "unat (drop_bit 6 (of_nat (n * 512) :: u64)) = 8 * n"
      by (simp only: unat_drop_bit_eq) (simp add: drop_bit_eq_div)
    then have "of_nat (unat (drop_bit 6 (of_nat (n * 512) :: u64))) = (of_nat (8 * n) :: u64)"
      by (simp only:)
    then show ?thesis by (simp only: of_nat_unat ucast_id)
  qed
  moreover have "ucast (of_nat (8 * n) :: u64) = (of_nat (8 * n) :: u16)" by (rule ucast_of_nat_16)
  ultimately have g: "sbull_geometry 512 dev =
      \<lparr>heads = 4, sectors = 16, cylinders = of_nat (8 * n), geo_start = 4\<rparr>"
    unfolding sbull_geometry_def Let_def d c using sz by simp
  have "unat (of_nat (8 * n) :: u16) = 8 * n" "unat (of_nat n :: u64) = n"
    using assms(3) by (simp_all add: unsigned_of_nat take_bit_nat_eq_self del: of_nat_mult)
  then show ?thesis unfolding g d by (simp del: of_nat_mult)
qed

lemma sbull_geometry_overstates_witness:
  "\<exists>dev disk. setup_device 252 1024 512 \<lparr>vmalloc_ret = Some [], tag_set_ret = 0, init_queue_ok = True,
       alloc_disk_ok = True\<rparr> 0 = Some dev \<and> gd dev = Some disk \<and> unat (capacity disk) = 1024 \<and>
     4 * 16 * unat (cylinders (sbull_geometry 512 dev)) = 512 * 1024"
proof -
  let ?e = "\<lparr>vmalloc_ret = Some [], tag_set_ret = 0, init_queue_ok = True, alloc_disk_ok = True\<rparr>"
  obtain dev disk where d: "setup_device 252 1024 512 ?e 0 = Some dev" "gd dev = Some disk"
    "unat (capacity disk) = 1024"
    by (simp add: setup_device_def Let_def c_div_def)
  show ?thesis using sbull_geometry_overstates [of 252 1024 ?e 0 dev disk] d by auto
qed

end
