(* ===== verification/Sbull_Load.thy ===== *)
theory Sbull_Load
  imports Sbull
begin

text \<open>
  Loading and unloading the RAM disk: what the module holds for every outcome of the kernel's
  allocations, and what a failed load leaves behind.
\<close>

section \<open>Loading and unloading\<close>

text \<open>The outcomes of one device's allocations.\<close>

definition setup_oops :: "setup_env \<Rightarrow> bool" where
  "setup_oops e \<longleftrightarrow> vmalloc_ret e \<noteq> None \<and> (tag_set_ret e \<noteq> 0 \<or> \<not> init_queue_ok e)"

definition setup_no_disk :: "setup_env \<Rightarrow> bool" where
  "setup_no_disk e \<longleftrightarrow> vmalloc_ret e \<noteq> None \<and> \<not> setup_oops e \<and> \<not> alloc_disk_ok e"

definition setup_complete :: "setup_env \<Rightarrow> bool" where
  "setup_complete e \<longleftrightarrow> vmalloc_ret e \<noteq> None \<and> \<not> setup_oops e \<and> alloc_disk_ok e"

lemma setup_device_cases:
  "setup_device ma ns hs e i = None \<longleftrightarrow> setup_oops e"
  "setup_device ma ns hs e i = Some dev \<Longrightarrow> teardown_device dev = None \<longleftrightarrow> setup_no_disk e"
  "setup_device ma ns hs e i = Some dev \<Longrightarrow> \<not> setup_no_disk e \<Longrightarrow>
     teardown_device dev = Some (if setup_complete e
       then [Del_gendisk, Put_disk, Cleanup_queue, Vfree, Free_tag_set] else [])"
  by (auto simp: setup_device_def setup_oops_def setup_no_disk_def setup_complete_def
      teardown_device_def Let_def split: option.splits if_splits)

lemma setup_devices_None: "setup_devices ma ns hs envs i = None \<longleftrightarrow> (\<exists>e\<in>set envs. setup_oops e)"
proof (induction envs arbitrary: i)
  case (Cons e envs)
  show ?case
    using setup_device_cases(1) [of ma ns hs e i] Cons [of "i + 1"]
    by (cases "setup_device ma ns hs e i"; cases "setup_devices ma ns hs envs (i + 1)") auto
qed simp

lemma setup_devices_exit:
  "setup_devices ma ns hs envs i = Some devs \<Longrightarrow>
     teardown_devices devs =
       (if \<exists>e\<in>set envs. setup_no_disk e then None
        else Some (map (\<lambda>e. if setup_complete e
          then [Del_gendisk, Put_disk, Cleanup_queue, Vfree, Free_tag_set] else []) envs))"
proof (induction envs arbitrary: i devs)
  case (Cons e envs)
  then obtain dev devs' where d: "setup_device ma ns hs e i = Some dev"
    "setup_devices ma ns hs envs (i + 1) = Some devs'" "devs = dev # devs'"
    by (auto split: bind_splits)
  then show ?case
    using Cons.IH [OF d(2)] setup_device_cases(2,3) [OF d(1)]
    by (cases "setup_no_disk e") (auto split: bind_splits)
qed simp

lemma setup_devices_length: "setup_devices ma ns hs envs i = Some devs \<Longrightarrow> length devs = length envs"
  by (induction envs arbitrary: i devs) (auto split: bind_splits)

text \<open>
  The major numbers held, with their names: \<open>register_blkdev\<close> takes the number it is given, or a
  free one, its return value, when it is given 0; \<open>unregister_blkdev\<close> gives a number back if it is
  registered under the same name.
\<close>

fun blk_step :: "(int \<times> string) set \<Rightarrow> blk_call \<Rightarrow> (int \<times> string) set" where
  "blk_step S (Register_blkdev m n r) =
     (if r < 0 then S else insert (if m = 0 then r else m, n) S)"
| "blk_step S (Unregister_blkdev m n) = S - {(m, n)}"
| "blk_step S _ = S"

definition blk_held :: "(int \<times> string) set \<Rightarrow> blk_call list \<Rightarrow> (int \<times> string) set" where
  "blk_held = foldl blk_step"

text \<open>
  Documented behaviour of \<open>register_blkdev\<close>: for a major number other than 0 it answers 0 or an error;
  for 0 it answers a number that was free, or an error.
\<close>

definition register_blkdev_ok :: "(int \<Rightarrow> string \<Rightarrow> int) \<Rightarrow> bool" where
  "register_blkdev_ok reg \<longleftrightarrow> (\<forall>m n. if m = 0 then reg m n \<noteq> 0 else reg m n \<le> 0)"

lemma setup_devices_None_oops:
  assumes "setup_devices ma ns hs envs i = None"
  shows "\<exists>e\<in>set envs. setup_oops e"
  using assms setup_devices_None by simp

lemma setup_devices_Some_fine:
  "setup_devices ma ns hs envs i = Some devs \<Longrightarrow> \<forall>e\<in>set envs. \<not> setup_oops e"
  using setup_devices_None [of ma ns hs envs i] by auto

lemmas setup_devices_facts =
  setup_devices_None_oops setup_devices_Some_fine setup_devices_length setup_devices_exit

text \<open>
  C26. Loading and unloading, for every major number asked for and every outcome of the calls to
  \<open>register_blkdev\<close>, \<open>kmalloc\<close> and the allocations of each device. Loading crashes on a null
  pointer exactly when the array of devices was allocated and the tag set or the queue of some
  device was not. It fails with \<open>EBUSY\<close> if \<open>register_blkdev\<close> did not answer a positive number and
  with \<open>ENOMEM\<close> if only \<open>kmalloc\<close> failed; then the major number stays held for ever, unless
  \<open>register_blkdev\<close> refused it: asked for a fixed number it answers 0, so such a load always fails
  and keeps the number. Otherwise loading succeeds, with as many devices as asked for, and
  unloading gives back exactly what each complete device holds, and the major number, unless
  \<open>alloc_disk\<close> failed for one device, whose array is then freed twice.
\<close>

theorem sbull_load_unload:
  assumes "register_blkdev_ok reg" and ret: "ret = reg m ''sbull''"
  shows "case sbull_init reg kmalloc_ok m ns hs envs of
      None \<Rightarrow> 0 < ret \<and> kmalloc_ok \<and> (\<exists>e\<in>set envs. setup_oops e)
    | Some (Inl e, m', devs, tr) \<Rightarrow> devs = [] \<and> e = (if ret \<le> 0 then EBUSY else ENOMEM) \<and>
        (0 < ret \<longrightarrow> \<not> kmalloc_ok) \<and>
        blk_held {} tr = (if ret < 0 then {} else {(if m = 0 then ret else m, ''sbull'')})
    | Some (Inr k, m', devs, tr) \<Rightarrow> k = 0 \<and> m = 0 \<and> 0 < ret \<and> m' = ret \<and> kmalloc_ok \<and>
        length devs = length envs \<and> (\<forall>e\<in>set envs. \<not> setup_oops e) \<and>
        (case sbull_exit m' devs of
           None \<Rightarrow> (\<exists>e\<in>set envs. setup_no_disk e)
         | Some (ts, tr') \<Rightarrow> (\<forall>e\<in>set envs. \<not> setup_no_disk e) \<and>
             ts = map (\<lambda>e. if setup_complete e
               then [Del_gendisk, Put_disk, Cleanup_queue, Vfree, Free_tag_set] else []) envs \<and>
             blk_held {} (tr @ tr') = {})"
proof (cases "0 < ret \<and> kmalloc_ok")
  case False
  then show ?thesis by (auto simp: sbull_init_def ret blk_held_def Let_def)
next
  case True
  then have "m = 0" using assms(1) unfolding ret register_blkdev_ok_def by (metis leD)
  then show ?thesis
    using True setup_devices_facts [of ret ns hs envs 0] ret [symmetric]
    by (cases "setup_devices ret ns hs envs 0")
       (auto simp: sbull_init_def sbull_exit_def blk_held_def Let_def)
qed

lemma sbull_load_unload_witness:
  "\<exists>reg. register_blkdev_ok reg \<and>
     sbull_init reg True 0 1024 512
       [\<lparr>vmalloc_ret = Some [], tag_set_ret = -12, init_queue_ok = True, alloc_disk_ok = True\<rparr>] = None \<and>
     (\<exists>m' devs tr. sbull_init reg False 0 1024 512 [] = Some (Inl ENOMEM, m', devs, tr) \<and>
       blk_held {} tr = {(252, ''sbull'')})"
proof -
  let ?reg = "\<lambda>m n. if m = 0 then 252 else 0 :: int"
  let ?envs = "[\<lparr>vmalloc_ret = Some [], tag_set_ret = -12, init_queue_ok = True, alloc_disk_ok = True\<rparr>]"
  have ok: "register_blkdev_ok ?reg" and r: "252 = ?reg 0 ''sbull''" by (simp_all add: register_blkdev_ok_def)
  have "sbull_init ?reg True 0 1024 512 ?envs = None"
    using sbull_load_unload [OF ok r, where kmalloc_ok = True and ns = 1024 and hs = 512 and envs = ?envs]
    by (cases "sbull_init ?reg True 0 1024 512 ?envs"; force simp: setup_oops_def split: sum.splits)
  moreover have "\<exists>m' devs tr. sbull_init ?reg False 0 1024 512 [] = Some (Inl ENOMEM, m', devs, tr) \<and>
      blk_held {} tr = {(252, ''sbull'')}"
    using sbull_load_unload [OF ok r, where kmalloc_ok = False and ns = 1024 and hs = 512 and envs = "[]"]
    by (cases "sbull_init ?reg False 0 1024 512 []"; force split: sum.splits)
  ultimately show ?thesis using ok by blast
qed

text \<open>
  A failed load never gives the major number back: with a fixed major number
  \<open>register_blkdev\<close> answers 0, which is taken for a failure although the number is now held, and
  when \<open>kmalloc\<close> fails the number is given back under another name than it was taken.
\<close>

theorem sbull_failed_load_leaks_major:
  assumes "sbull_init reg kmalloc_ok m ns hs envs = Some (Inl e, m', devs, tr)"
    and "0 \<le> reg m ''sbull''"
  shows "blk_held {} tr = {(if m = 0 then reg m ''sbull'' else m, ''sbull'')}"
  using assms by (auto simp: sbull_init_def blk_held_def Let_def split: if_splits bind_splits)

lemma sbull_failed_load_leaks_major_example:
  "\<exists>tr. sbull_init (\<lambda>m n. if m = 0 then 252 else 0) True 240 1024 512 [] = Some (Inl EBUSY, 0, [], tr) \<and>
     blk_held {} tr = {(240, ''sbull'')}"
  using sbull_failed_load_leaks_major [of "\<lambda>m n. if m = 0 then 252 else 0" True 240 1024 512 "[]" EBUSY 0
      "[]" "[Register_blkdev 240 ''sbull'' 0]"]
  by (simp add: sbull_init_def Let_def)

section \<open>The default load\<close>

text \<open>The module parameters with their default values, and loading with them.\<close>

record sbull_params =
  p_major :: int
  p_hardsect_size :: int
  p_nsectors :: int
  p_ndevices :: nat

definition sbull_params0 :: sbull_params where
  "sbull_params0 = \<lparr>p_major = 0, p_hardsect_size = 512, p_nsectors = 1024, p_ndevices = 4\<rparr>"

definition sbull_load ::
  "(int \<Rightarrow> string \<Rightarrow> int) \<Rightarrow> bool \<Rightarrow> sbull_params \<Rightarrow> (nat \<Rightarrow> setup_env) \<Rightarrow>
     (int result \<times> int \<times> sbull_dev list \<times> blk_call list) option" where
  "sbull_load register_blkdev kmalloc_ok p env =
     sbull_init register_blkdev kmalloc_ok (p_major p) (p_nsectors p) (p_hardsect_size p)
       (map env [0..<p_ndevices p])"

lemma setup_device_disk:
  assumes "setup_complete e"
  shows "\<exists>dev. setup_device ma ns hs e i = Some dev \<and>
    gd dev = Some \<lparr>disk_major = ma, first_minor = 16 * i, disk_name = ''sbull'' @ [char_of (97 + i)],
      capacity = word_of_int (ns * c_div hs 512)\<rparr>"
  using assms
  by (auto simp: setup_device_def setup_complete_def setup_oops_def SBULL_MINORS_def Let_def)

text \<open>
  Loaded with the default parameters and all allocations granted, the module provides four disks
  \<open>sbulla\<close> to \<open>sbulld\<close> of 1024 sectors, each with its own 16 minor numbers.
\<close>

theorem sbull_default_disks:
  assumes "0 < reg 0 ''sbull''" "\<And>i. setup_complete (env i)"
  shows "\<exists>devs tr. sbull_load reg True sbull_params0 env = Some (Inr 0, reg 0 ''sbull'', devs, tr) \<and>
    map (\<lambda>dev. map_option (\<lambda>d. (disk_name d, first_minor d, capacity d)) (gd dev)) devs =
      [Some (''sbulla'', 0, 1024), Some (''sbullb'', 16, 1024), Some (''sbullc'', 32, 1024),
       Some (''sbulld'', 48, 1024)]"
proof -
  let ?ma = "reg 0 ''sbull''"
  have disk: "\<exists>dev. setup_device ?ma 1024 512 (env i) i = Some dev \<and>
      map_option (\<lambda>d. (disk_name d, first_minor d, capacity d)) (gd dev) =
        Some (''sbull'' @ [char_of (97 + i)], 16 * i, 1024)" for i
    using setup_device_disk [OF assms(2), of ?ma 1024 512 i i] by (auto simp: c_div_def)
  obtain d0 d1 d2 d3 where d: "setup_device ?ma 1024 512 (env 0) 0 = Some d0"
    "setup_device ?ma 1024 512 (env 1) 1 = Some d1" "setup_device ?ma 1024 512 (env 2) 2 = Some d2"
    "setup_device ?ma 1024 512 (env 3) 3 = Some d3"
    "map (\<lambda>dev. map_option (\<lambda>d. (disk_name d, first_minor d, capacity d)) (gd dev)) [d0, d1, d2, d3] =
      [Some (''sbulla'', 0, 1024), Some (''sbullb'', 16, 1024), Some (''sbullc'', 32, 1024),
       Some (''sbulld'', 48, 1024)]"
    using disk [of 0] disk [of 1] disk [of 2] disk [of 3] by (auto simp: char_of_def bit_Suc_0_iff)
  have "[0..<4] = [0, 1, 2, 3 :: nat]" by (simp add: upt_rec)
  then have "\<exists>tr. sbull_load reg True sbull_params0 env = Some (Inr 0, ?ma, [d0, d1, d2, d3], tr)"
    using d(1-4) assms(1)
    by (simp add: sbull_load_def sbull_params0_def sbull_init_def numeral_2_eq_2 numeral_3_eq_3 Let_def)
  then show ?thesis
    using d(5) by (elim exE) (intro exI conjI)
qed

end
