(* ===== verification/Second.thy ===== *)
theory Second
  imports Chrdev
begin

text \<open>
  The seconds counter \<open>src/second/second.c\<close>: a character device that starts a kernel timer when it
  is opened; the timer's handler re-arms the timer and increments a counter that \<open>read\<close> hands
  out. First the operations, then a session seen as time passing, then the interleaving of the
  handler with \<open>release\<close> and with unloading the module.
\<close>

section \<open>State\<close>

text \<open>The counter is an \<open>atomic_t\<close>; \<open>s_armed\<close> says whether \<open>s_timer\<close> is pending.\<close>

record second_dev =
  counter :: u32
  s_armed :: bool

record second_module =
  second_major :: int
  devp :: "second_dev option"

definition second_module0 :: second_module where
  "second_module0 = \<lparr>second_major = 300, devp = None\<rparr>"

section \<open>Operations\<close>

text \<open>
  The two halves of \<open>second_timer_handler\<close>, which other code can come between: re-arming, and
  counting.
\<close>

definition handler_rearm :: "second_dev \<Rightarrow> second_dev" where
  "handler_rearm dev = dev\<lparr>s_armed := True\<rparr>"

definition handler_count :: "second_dev \<Rightarrow> second_dev" where
  "handler_count dev = dev\<lparr>counter := counter dev + 1\<rparr>"

definition second_timer_handler :: "second_dev \<Rightarrow> second_dev" where
  "second_timer_handler dev = handler_count (handler_rearm dev)"

text \<open>
  \<open>timer_setup\<close> must not be called on a pending timer; opening the device again while it is open
  does so, which is \<open>None\<close>.
\<close>

definition second_open :: "second_dev \<Rightarrow> (int \<times> second_dev) option" where
  "second_open dev =
     (if s_armed dev then None
      else let dev = dev\<lparr>s_armed := True\<rparr>; dev = dev\<lparr>counter := 0\<rparr> in Some (0, dev))"

definition second_release :: "second_dev \<Rightarrow> int \<times> second_dev" where
  "second_release dev = (0, dev\<lparr>s_armed := False\<rparr>)"

text \<open>\<open>put_user\<close> is a parameter: the changed user memory and whether it failed.\<close>

definition second_read ::
  "('u \<Rightarrow> u64 \<Rightarrow> u32 \<Rightarrow> 'u \<times> bool) \<Rightarrow> second_dev \<Rightarrow> 'u \<Rightarrow> u64 \<Rightarrow> u64 \<Rightarrow> u64 \<Rightarrow> int result \<times> 'u" where
  "second_read put_user dev us buf sz pos =
     (let counter = counter dev; (us, failed) = put_user us buf counter
      in if failed then (Inl EFAULT, us) else (Inr 4, us))"

section \<open>Loading and unloading\<close>

definition second_init :: "kenv \<Rightarrow> second_module \<Rightarrow> unit result \<times> second_module \<times> kcall list" where
  "second_init k m =
     (let devno = MKDEV (second_major m) 0;
          (ret, devno, m, tr) =
            (if second_major m \<noteq> 0 then
               (register_ret k, devno, m, [Register_chrdev_region devno 1 (register_ret k)])
             else
               (alloc_ret k, alloc_dev k, m\<lparr>second_major := MAJOR (alloc_dev k)\<rparr>,
                [Alloc_chrdev_region 0 1 (alloc_ret k) (alloc_dev k)]))
      in
        if ret < 0 then (Inl (Code ret), m, tr)
        else if \<not> kmalloc_ok k then
          (Inl ENOMEM, m\<lparr>devp := None\<rparr>, tr @ [Kmalloc 1 False, Unregister_chrdev_region devno 1])
        else
          let devno = MKDEV (second_major m) 0
          in (Inr (), m\<lparr>devp := Some \<lparr>counter = 0, s_armed = False\<rparr>\<rparr>,
              tr @ [Kmalloc 1 True, Cdev_init 0, Cdev_add 0 devno 1 (cdev_add_ret k 0)]))"

definition second_exit :: "second_module \<Rightarrow> kcall list" where
  "second_exit m = [Cdev_del 0, Kfree, Unregister_chrdev_region (MKDEV (second_major m) 0) 1]"

interpretation sec_load: chrdev_clean second_init second_exit second_major 1
  by unfold_locales
    (auto simp: second_init_def second_exit_def Let_def kenv_ok_def numbers_def split: if_splits)

section \<open>A session\<close>

text \<open>
  What happens to an open device: a second passes (a pending timer fires and its handler runs),
  or the counter is read.
\<close>

datatype second_event = Second_passes | Read_counter

fun second_session :: "second_event list \<Rightarrow> second_dev \<Rightarrow> u32 list \<times> second_dev" where
  "second_session [] dev = ([], dev)"
| "second_session (Second_passes # es) dev =
     (if s_armed dev then second_session es (second_timer_handler (dev\<lparr>s_armed := False\<rparr>))
      else second_session es dev)"
| "second_session (Read_counter # es) dev =
     (let (_, out) = second_read (\<lambda>us a v. (us @ [v], False)) dev [] 0 4 0;
          (outs, dev) = second_session es dev
      in (out @ outs, dev))"

text \<open>The seconds passed before each read.\<close>

fun seconds_read :: "nat \<Rightarrow> second_event list \<Rightarrow> nat list" where
  "seconds_read n [] = []"
| "seconds_read n (Second_passes # es) = seconds_read (n + 1) es"
| "seconds_read n (Read_counter # es) = n # seconds_read n es"

lemma session_armed:
  "s_armed dev \<Longrightarrow> counter dev = of_nat n \<Longrightarrow>
     fst (second_session es dev) = map of_nat (seconds_read n es) \<and> s_armed (snd (second_session es dev))"
proof (induction es arbitrary: dev n)
  case (Cons e es)
  show ?case
  proof (cases e)
    case Second_passes
    let ?dev = "second_timer_handler (dev\<lparr>s_armed := False\<rparr>)"
    have "s_armed ?dev" "counter ?dev = of_nat (n + 1)"
      using Cons.prems by (simp_all add: second_timer_handler_def handler_rearm_def handler_count_def)
    from Cons.IH [OF this] show ?thesis using Second_passes Cons.prems by simp
  next
    case Read_counter
    then show ?thesis
      using Cons.IH [OF Cons.prems] Cons.prems
      by (cases "second_session es dev") (simp add: second_read_def)
  qed
qed simp

lemma session_stopped:
  "\<not> s_armed dev \<Longrightarrow> snd (second_session es dev) = dev \<and> set (fst (second_session es dev)) \<subseteq> {counter dev}"
proof (induction es)
  case (Cons e es)
  then show ?case by (cases e; cases "second_session es dev") (simp_all add: second_read_def)
qed simp

text \<open>
  From opening on, every read delivers the number of seconds that have passed since, modulo
  \<open>2^32\<close>, whatever the counter held before; after \<open>release\<close> the counter stands still.
\<close>

theorem second_counts_seconds:
  assumes "second_open dev = Some (r, dev')"
  shows "fst (second_session es dev') = map of_nat (seconds_read 0 es) \<and>
    snd (second_session es' (snd (second_release (snd (second_session es dev'))))) =
      snd (second_release (snd (second_session es dev')))"
proof -
  have "s_armed dev'" "counter dev' = of_nat 0"
    using assms by (auto simp: second_open_def Let_def split: if_splits)
  then show ?thesis using session_armed session_stopped by (simp add: second_release_def)
qed

lemma second_counts_seconds_example:
  "fst (second_session [Second_passes, Read_counter, Second_passes, Second_passes, Read_counter]
     \<lparr>counter = 0, s_armed = True\<rparr>) = [1, 3]"
proof -
  have "second_open \<lparr>counter = 9, s_armed = False\<rparr> = Some (0, \<lparr>counter = 0, s_armed = True\<rparr>)"
    by (simp add: second_open_def)
  from second_counts_seconds [OF this, THEN conjunct1] show ?thesis
    by (simp del: second_session.simps)
qed

section \<open>The handler against release and unloading\<close>

datatype handler_phase = Idle | Fired | Rearmed

record second_sys =
  sdev :: second_dev
  handler :: handler_phase
  opens :: nat
  freed :: bool

definition second_sys0 :: second_sys where
  "second_sys0 = \<lparr>sdev = \<lparr>counter = 0, s_armed = False\<rparr>, handler = Idle, opens = 0, freed = False\<rparr>"

text \<open>
  The handler runs in interrupt context between any other steps. \<open>second_release\<close> calls
  \<open>del_timer\<close>, which does not wait for a running handler; with \<open>sync\<close> the relation describes a
  release that does wait, as \<open>del_timer_sync\<close> would. The module can be unloaded, which frees the
  device, when no file is open.
\<close>

inductive second_step :: "bool \<Rightarrow> second_sys \<Rightarrow> second_sys \<Rightarrow> bool" for sync where
  open_dev: "\<not> freed s \<Longrightarrow> second_open (sdev s) = Some (r, dev) \<Longrightarrow>
    second_step sync s (s\<lparr>sdev := dev, opens := opens s + 1\<rparr>)"
| release_dev: "0 < opens s \<Longrightarrow> (sync \<longrightarrow> handler s = Idle) \<Longrightarrow>
    second_step sync s (s\<lparr>sdev := snd (second_release (sdev s)), opens := opens s - 1\<rparr>)"
| fire: "s_armed (sdev s) \<Longrightarrow> handler s = Idle \<Longrightarrow>
    second_step sync s (s\<lparr>sdev := (sdev s)\<lparr>s_armed := False\<rparr>, handler := Fired\<rparr>)"
| rearm: "handler s = Fired \<Longrightarrow>
    second_step sync s (s\<lparr>sdev := handler_rearm (sdev s), handler := Rearmed\<rparr>)"
| count: "handler s = Rearmed \<Longrightarrow>
    second_step sync s (s\<lparr>sdev := handler_count (sdev s), handler := Idle\<rparr>)"
| unload: "opens s = 0 \<Longrightarrow> \<not> freed s \<Longrightarrow> second_step sync s (s\<lparr>freed := True\<rparr>)"

inductive second_reach :: "bool \<Rightarrow> second_sys \<Rightarrow> bool" for sync where
  start: "second_reach sync second_sys0"
| step: "second_reach sync s \<Longrightarrow> second_step sync s s' \<Longrightarrow> second_reach sync s'"

definition second_inv :: "second_sys \<Rightarrow> bool" where
  "second_inv s \<longleftrightarrow> (opens s = 0 \<longrightarrow> \<not> s_armed (sdev s) \<and> handler s = Idle) \<and>
     (freed s \<longrightarrow> opens s = 0)"

lemma second_inv_reach: "second_reach True s \<Longrightarrow> second_inv s"
proof (induction rule: second_reach.induct)
  case start
  show ?case by (simp add: second_inv_def second_sys0_def)
next
  case (step s s')
  from step.hyps(2) step.IH show ?case
    by cases (auto simp: second_inv_def second_release_def handler_rearm_def handler_count_def)
qed

text \<open>
  C27. The timer outlives the module: the handler can re-arm the timer after \<open>release\<close> has deleted
  it and the module can be unloaded then, so a state is reachable in which the device is freed,
  no handler is running and the timer is still pending in the freed memory. If \<open>release\<close>
  waited for the handler, neither the timer nor the handler could be active on a freed device.
\<close>

theorem second_release_race:
  "(\<exists>s. second_reach False s \<and> freed s \<and> handler s = Idle \<and> s_armed (sdev s)) \<and>
   {s. second_reach True s \<and> freed s \<and> (s_armed (sdev s) \<or> handler s \<in> {Fired, Rearmed})} = {}"
proof
  let ?d = "\<lambda>a. \<lparr>counter = 0, s_armed = a\<rparr>"
  let ?s = "\<lambda>a h n. \<lparr>sdev = ?d a, handler = h, opens = n, freed = False\<rparr>"
  let ?c = "\<lparr>sdev = \<lparr>counter = 1, s_armed = True\<rparr>, handler = Idle, opens = 0, freed = False\<rparr>"
  have 1: "second_step False second_sys0 (?s True Idle 1)"
    using open_dev [of second_sys0 0 "?d True" False] by (simp add: second_sys0_def second_open_def)
  have 2: "second_step False (?s True Idle 1) (?s False Fired 1)"
    using fire [of "?s True Idle 1" False] by simp
  have 3: "second_step False (?s False Fired 1) (?s False Fired 0)"
    using release_dev [of "?s False Fired 1" False] by (simp add: second_release_def)
  have 4: "second_step False (?s False Fired 0) (?s True Rearmed 0)"
    using rearm [of "?s False Fired 0" False] by (simp add: handler_rearm_def)
  have 5: "second_step False (?s True Rearmed 0) ?c"
    using count [of "?s True Rearmed 0" False] by (simp add: handler_count_def)
  have 6: "second_step False ?c (?c\<lparr>freed := True\<rparr>)"
    using unload [of ?c False] by simp
  have "second_reach False (?c\<lparr>freed := True\<rparr>)"
    by (rule second_reach.step [OF second_reach.step [OF second_reach.step [OF second_reach.step
        [OF second_reach.step [OF second_reach.step [OF second_reach.start 1] 2] 3] 4] 5] 6])
  then show "\<exists>s. second_reach False s \<and> freed s \<and> handler s = Idle \<and> s_armed (sdev s)"
    by (intro exI [of _ "?c\<lparr>freed := True\<rparr>"]) simp
  show "{s. second_reach True s \<and> freed s \<and> (s_armed (sdev s) \<or> handler s \<in> {Fired, Rearmed})} = {}"
    by (auto dest!: second_inv_reach simp: second_inv_def)
qed

end
