(* ===== verification/Small_Modules.thy ===== *)
theory Small_Modules
  imports Kernel_Prelude
begin

text \<open>
  The small modules of the repository: \<open>src/add_sub\<close> and \<open>src/test\<close> (exported arithmetic),
  \<open>src/unload\<close> (resetting a stuck module), \<open>src/kern_thread\<close> (two kernel threads) and
  \<open>src/hack_thread\<close> (walking the process list). Log output that is the purpose of a module is
  part of its result.
\<close>

section \<open>add_sub and test\<close>

definition add_integer :: "u64 \<Rightarrow> u64 \<Rightarrow> u64" where
  "add_integer a b = a + b"

definition sub_integer :: "u64 \<Rightarrow> u64 \<Rightarrow> u64" where
  "sub_integer a b = a - b"

text \<open>What \<open>test_init\<close> logs: whether it added, and the result.\<close>

definition test_init :: "u64 \<Rightarrow> u64 \<Rightarrow> u32 \<Rightarrow> int \<times> bool \<times> u64" where
  "test_init a b add_or_sub =
     (let result = (if 1 = add_or_sub then add_integer a b else sub_integer a b)
      in (0, add_or_sub = 1, result))"

text \<open>The module parameters and their defaults, and what is logged with them.\<close>

record test_params =
  test_a :: u64
  test_b :: u64
  AddOrSub :: u32

definition test_params0 :: test_params where
  "test_params0 = \<lparr>test_a = 1, test_b = 1, AddOrSub = 1\<rparr>"

lemma test_init_default:
  "test_init (test_a test_params0) (test_b test_params0) (AddOrSub test_params0) = (0, True, 2)"
  by (simp add: test_init_def test_params0_def add_integer_def)

lemma sub_add_integer: "sub_integer (add_integer a b) b = a"
  by (simp add: add_integer_def sub_integer_def)

section \<open>unload\<close>

text \<open>An entry of the kernel's module list, as far as \<open>unload_init\<close> uses it.\<close>

datatype module_state = MODULE_STATE_LIVE | MODULE_STATE_COMING | MODULE_STATE_GOING

record kmodule =
  name :: string
  state :: module_state
  refcnt :: u32

text \<open>The loop keeps the last entry with the name (its index), starting from a null pointer.\<close>

fun find_module :: "string \<Rightarrow> nat \<Rightarrow> kmodule list \<Rightarrow> nat option \<Rightarrow> nat option" where
  "find_module module_name i [] m = m"
| "find_module module_name i (list_mod # ms) m =
     find_module module_name (i + 1) ms (if name list_mod = module_name then Some i else m)"

text \<open>\<open>None\<close>: no such module, so that \<open>mod\<close> is a null pointer when its state is written.\<close>

definition unload_init :: "string \<Rightarrow> kmodule list \<Rightarrow> (int \<times> kmodule list) option" where
  "unload_init module_name modules =
     (case find_module module_name 0 modules None of
        None \<Rightarrow> None
      | Some i \<Rightarrow>
          Some (0, modules[i := (modules ! i)\<lparr>state := MODULE_STATE_LIVE, refcnt := 1\<rparr>]))"

lemma find_module_absent:
  "module_name \<notin> name ` set ms \<Longrightarrow> find_module module_name i ms m = m"
  by (induction ms arbitrary: i) auto

lemma find_module_split:
  "name x = module_name \<Longrightarrow> module_name \<notin> name ` set ys \<Longrightarrow>
     find_module module_name i (xs @ x # ys) m = Some (i + length xs)"
  by (induction xs arbitrary: i m) (auto simp: find_module_absent)

text \<open>
  \<open>unload_init\<close> changes exactly one entry, the last of that name: it becomes live with a
  reference count of one, so that it can be removed. If no module has the name, the module
  dereferences a null pointer.
\<close>

theorem unload_resets_last:
  assumes "name x = module_name" "module_name \<notin> name ` set ys"
  shows "unload_init module_name (xs @ x # ys) =
      Some (0, xs @ x\<lparr>state := MODULE_STATE_LIVE, refcnt := 1\<rparr> # ys) \<and>
    unload_init module_name ys = None"
  using assms
  by (simp add: unload_init_def find_module_split find_module_absent list_update_append)

lemma unload_resets_last_example:
  "unload_init ''b'' [\<lparr>name = ''a'', state = MODULE_STATE_LIVE, refcnt = 3\<rparr>,
      \<lparr>name = ''b'', state = MODULE_STATE_GOING, refcnt = 0\<rparr>] =
    Some (0, [\<lparr>name = ''a'', state = MODULE_STATE_LIVE, refcnt = 3\<rparr>,
      \<lparr>name = ''b'', state = MODULE_STATE_LIVE, refcnt = 1\<rparr>])"
  using unload_resets_last [of "\<lparr>name = ''b'', state = MODULE_STATE_GOING, refcnt = 0\<rparr>" "''b''" "[]"
      "[\<lparr>name = ''a'', state = MODULE_STATE_LIVE, refcnt = 3\<rparr>]"] by simp

text \<open>
  The parameters: the address of the kernel's list of modules, which the user reads off
  \<open>/proc/kallsyms\<close>, and a name. \<open>list_at\<close> is the list whose head lies at an address, if any;
  following a head that is none is undefined, as with the default address.
\<close>

record unload_params =
  unload_addr :: u64
  unload_name :: string

definition unload_params0 :: unload_params where
  "unload_params0 = \<lparr>unload_addr = 0, unload_name = ''globalmem''\<rparr>"

definition unload_load ::
  "(u64 \<Rightarrow> kmodule list option) \<Rightarrow> unload_params \<Rightarrow> (int \<times> kmodule list) option" where
  "unload_load list_at p =
     (case list_at (unload_addr p) of
        None \<Rightarrow> None
      | Some modules \<Rightarrow> unload_init (unload_name p) modules)"

lemma unload_default_faults: "list_at 0 = None \<Longrightarrow> unload_load list_at unload_params0 = None"
  by (simp add: unload_load_def unload_params0_def)

lemma unload_load_unchanged_names:
  "unload_load list_at p = Some (r, ms) \<Longrightarrow>
     \<exists>ms0. list_at (unload_addr p) = Some ms0 \<and> r = 0 \<and> map name ms = map name ms0"
  by (auto simp: unload_load_def unload_init_def map_update nth_list_update list_update_id
      split: option.splits) (metis list_update_id map_update kmodule.select_convs kmodule.update_convs)

section \<open>kern_thread\<close>

text \<open>
  \<open>init_func\<close> with the results of the two \<open>kthread_run\<close> calls (a negative error number or 0):
  what it returns and which threads are running then.
\<close>

definition kern_thread_init :: "int \<Rightarrow> int \<Rightarrow> int result \<times> nat set" where
  "kern_thread_init r1 r2 =
     (if r1 < 0 then (Inl (Code r1), {})
      else let threads = {1}
           in if r2 < 0 then (Inl (Code r2), threads)
              else (Inr 0, threads \<union> {2}))"

text \<open>The thread function: \<open>schedule ()\<close> forever. Not returning is \<open>None\<close>.\<close>

partial_function (option) kthread_func :: "nat \<Rightarrow> int option" where
  "kthread_func scheduled = kthread_func (scheduled + 1)"

definition kern_thread_exit :: "nat set \<Rightarrow> nat set" where
  "kern_thread_exit threads = threads"

lemma kthread_func_never_returns: "kthread_func n = None"
proof -
  have "\<And>r. kthread_func n = Some r \<Longrightarrow> False"
    by (rule kthread_func.raw_induct [of "\<lambda>_ _. False"]) auto
  then show ?thesis by (cases "kthread_func n") auto
qed

lemma kern_thread_failed_load:
  "fst (kern_thread_init r1 r2) = Inl e \<Longrightarrow> 0 \<le> r1 \<Longrightarrow> snd (kern_thread_init r1 r2) = {1}"
  by (auto simp: kern_thread_init_def Let_def split: if_splits)

section \<open>hack_thread\<close>

text \<open>The processes \<open>hack_thread_init\<close> logs, with the loop's counter \<open>i\<close>.\<close>

fun hack_loop :: "int \<Rightarrow> 'p list \<Rightarrow> 'p list" where
  "hack_loop i [] = []"
| "hack_loop i (task # tasks) =
     (if i < 10 then task # hack_loop (i + 1) tasks else hack_loop (i + 1) tasks)"

definition hack_thread_init :: "'p \<Rightarrow> 'p list \<Rightarrow> int \<times> 'p list" where
  "hack_thread_init init_task tasks = (0, init_task # hack_loop 0 tasks)"

lemma hack_loop_take: "hack_loop i tasks = take (nat (10 - i)) tasks"
proof (induction tasks arbitrary: i)
  case (Cons task tasks)
  show ?case
  proof (cases "i < 10")
    case True
    then have "nat (10 - i) = Suc (nat (10 - (i + 1)))" by simp
    then show ?thesis using True Cons [of "i + 1"] by simp
  next
    case False
    then show ?thesis using Cons [of "i + 1"] by simp
  qed
qed simp

lemma hack_thread_logs_ten: "snd (hack_thread_init t ts) = t # take 10 ts"
  by (simp add: hack_thread_init_def hack_loop_take)

end
