(* ===== verification/User_Memory.thy ===== *)
theory User_Memory
  imports Globalmem Globalmem_Lock
begin

text \<open>
  The user-space programs of the two memory drivers, composed with the drivers:
  \<open>src/globalmem/test1.c\<close> and \<open>src/globalmem_lock/test1.c\<close> (a menu), \<open>src/globalmem/test.c\<close>
  (write, seek, read) and \<open>src/globalmem_lock/test2.c\<close> (a benchmark). A program sees the
  device through \<open>char_dev\<close>. Its standard input is a list of tokens.
\<close>

section \<open>The device as a program sees it\<close>

text \<open>
  The system calls on an open descriptor. The user's buffer starts at address 0 of a flat
  memory that goes on behind it.
\<close>

record 'd char_dev =
  cd_read :: "'d \<Rightarrow> u8 list \<Rightarrow> u64 \<Rightarrow> int result \<times> 'd \<times> u8 list"
  cd_write :: "'d \<Rightarrow> u8 list \<Rightarrow> u64 \<Rightarrow> int result \<times> 'd"
  cd_lseek :: "'d \<Rightarrow> u64 \<Rightarrow> int \<Rightarrow> int result \<times> 'd"
  cd_ioctl :: "'d \<Rightarrow> u32 \<Rightarrow> int result \<times> 'd"

definition dev_ops ::
  "('d, u8 list) read_op \<Rightarrow> ('d, u8 list) write_op \<Rightarrow> seek_op \<Rightarrow>
     ('d \<Rightarrow> u32 \<Rightarrow> int result \<times> 'd) \<Rightarrow> ('d \<times> u64) char_dev" where
  "dev_ops rd wr sk io = \<lparr>
     cd_read = (\<lambda>(d, pos) um sz. let (r, pos, um) = rd flat_out d um 0 sz pos in (r, (d, pos), um)),
     cd_write = (\<lambda>(d, pos) um sz. let (r, pos, d) = wr flat_in d um 0 sz pos in (r, (d, pos))),
     cd_lseek = (\<lambda>(d, pos) off wh. let (r, pos) = sk pos off wh in (r, (d, pos))),
     cd_ioctl = (\<lambda>(d, pos) cmd. let (r, d) = io d cmd in (r, (d, pos)))\<rparr>"

text \<open>
  The drivers. The table of \<open>globalmem\<close> has only \<open>compat_ioctl\<close>, which the kernel uses for
  32-bit processes; for a 64-bit process \<open>ioctl\<close> fails with \<open>ENOTTY\<close>.
\<close>

definition globalmem_ioctl64 :: "globalmem_dev \<Rightarrow> u32 \<Rightarrow> int result \<times> globalmem_dev" where
  "globalmem_ioctl64 d cmd = (Inl ENOTTY, d)"

definition globalmem_ops :: "bool \<Rightarrow> (globalmem_dev \<times> u64) char_dev" where
  "globalmem_ops is32 = dev_ops globalmem_read globalmem_write globalmem_llseek
     (if is32 then globalmem_compat_ioctl else globalmem_ioctl64)"

definition globalmem_lock_ops ::
  "timespec \<times> timespec \<Rightarrow> (globalmem_lock_dev \<times> u64) char_dev" where
  "globalmem_lock_ops clk = dev_ops
     (\<lambda>ctu d us buf sz pos. fst (globalmem_lock_read clk ctu d us buf sz pos))
     (\<lambda>cfu d us buf sz pos. fst (globalmem_lock_write clk cfu d us buf sz pos))
     globalmem_lock_llseek (\<lambda>d cmd. fst (globalmem_lock_ioctl d cmd))"

section \<open>Standard input and output\<close>

text \<open>
  A token is a maximal run of characters that are not white space; \<open>token_num\<close> is its value
  when it is a decimal number (a token that only starts with one is left out). \<open>scanf "%d"\<close>
  leaves the variable alone and the token in the input when there is no number; at the end of
  the input both conversions leave their variable alone.
\<close>

datatype token = Token (token_text: "u8 list") (token_num: "int option")

fun scanf_d :: "token list \<Rightarrow> int \<Rightarrow> int \<times> token list" where
  "scanf_d [] n = (n, [])"
| "scanf_d (t # ts) n = (case token_num t of Some k \<Rightarrow> (k, ts) | None \<Rightarrow> (n, t # ts))"

fun scanf_s :: "token list \<Rightarrow> u8 list \<Rightarrow> u8 list \<times> token list" where
  "scanf_s [] buf = (buf, [])"
| "scanf_s (t # ts) buf = (token_text t, ts)"

text \<open>The C string at the start of a buffer.\<close>

definition cstr :: "u8 list \<Rightarrow> u8 list" where
  "cstr buf = takeWhile (\<lambda>c. c \<noteq> 0) buf"

text \<open>What a system call returns to the program: -1 for every error.\<close>

definition sys_ret :: "int result \<Rightarrow> int" where
  "sys_ret r = (case r of Inl _ \<Rightarrow> -1 | Inr k \<Rightarrow> k)"

datatype console =
  Print_dev int | Print_prompt | Print_menu | Print_read "u8 list" | Print_ret int | Print_loop | Print_str "u8 list"
  | Print_failure | Print_finished nat | Print_times int int int

section \<open>The menu\<close>

text \<open>
  The variables of \<open>main\<close>: the string in \<open>sendbuf\<close> and the bytes of \<open>recvbuf\<close>, both
  uninitialised at the start, and \<open>n\<close>.
\<close>

record 'd menu =
  m_dev :: 'd
  m_in :: "token list"
  m_n :: int
  m_send :: "u8 list"
  m_recv :: "u8 list"
  m_out :: "console list"

text \<open>A program ends by returning from \<open>main\<close>, or with a buffer overrun.\<close>

datatype 'p prog_end = Exited 'p | Overrun

text \<open>
  A \<open>read\<close> of \<open>sz\<close> bytes into a buffer; \<open>None\<close> when more bytes come than the buffer holds.
\<close>

definition read_into ::
  "'d char_dev \<Rightarrow> u64 \<Rightarrow> 'd \<Rightarrow> u8 list \<Rightarrow> (int result \<times> 'd \<times> u8 list) option" where
  "read_into ops sz d buf =
     (let (r, d, um) = cd_read ops d (buf @ replicate (unat sz) 0) sz in
      if sys_ret r > int (length buf) then None else Some (r, d, take (length buf) um))"

text \<open>
  One round of the loop; \<open>rsz\<close> is the size given to \<open>read\<close>, \<open>ssz\<close> the size of \<open>sendbuf\<close>. The
  result is \<open>Inl\<close> when the loop goes on.
\<close>

definition menu_iter ::
  "'d char_dev \<Rightarrow> u64 \<Rightarrow> nat \<Rightarrow> 'd menu \<Rightarrow> 'd menu + 'd menu prog_end" where
  "menu_iter ops rsz ssz p =
     (let (n, input) = scanf_d (m_in p) (m_n p);
          p = p\<lparr>m_n := n, m_in := input, m_out := m_out p @ [Print_menu]\<rparr> in
      if n = 0 then Inr (Exited p)
      else if n = 1 then
        (case read_into ops rsz (m_dev p) (m_recv p) of
           None \<Rightarrow> Inr Overrun
         | Some (r, d, recv) \<Rightarrow>
             if 0 \<notin> set recv then Inr Overrun
             else Inl (p\<lparr>m_dev := d, m_recv := recv,
               m_out := m_out p @ [Print_read (cstr recv), Print_loop]\<rparr>))
      else if n = 2 then
        (let (send, input) = scanf_s (m_in p) (m_send p) in
         if length send \<ge> ssz then Inr Overrun
         else
           let (ret, d) = cd_write ops (m_dev p) send (of_nat (length (cstr send))) in
           Inl (p\<lparr>m_dev := d, m_in := input, m_send := send,
             m_out := m_out p @ [Print_ret (sys_ret ret), Print_loop]\<rparr>))
      else if n = 3 then
        (let (_, d) = cd_ioctl ops (m_dev p) 1 in
         Inl (p\<lparr>m_dev := d, m_out := m_out p @ [Print_loop]\<rparr>))
      else if n = 4 then
        (let (_, d) = cd_lseek ops (m_dev p) 0 0 in
         Inl (p\<lparr>m_dev := d, m_out := m_out p @ [Print_loop]\<rparr>))
      else Inl (p\<lparr>m_out := m_out p @ [Print_loop]\<rparr>))"

text \<open>The loop; \<open>None\<close> when it never ends.\<close>

partial_function (option) menu_loop ::
  "'d char_dev \<Rightarrow> u64 \<Rightarrow> nat \<Rightarrow> 'd menu \<Rightarrow> 'd menu prog_end option" where
  "menu_loop ops rsz ssz p =
     (case menu_iter ops rsz ssz p of Inl p' \<Rightarrow> menu_loop ops rsz ssz p' | Inr e \<Rightarrow> Some e)"

text \<open>
  The state before the loop, with the descriptor \<open>fd\<close> that \<open>open\<close> returned. The program does
  not look whether \<open>open\<close> failed; the definitions below are for the case that it succeeds.
\<close>

definition menu_start :: "int \<Rightarrow> 'd \<Rightarrow> token list \<Rightarrow> u8 list \<Rightarrow> u8 list \<Rightarrow> 'd menu" where
  "menu_start fd d input send recv =
     \<lparr>m_dev = d, m_in = input, m_n = 0, m_send = send, m_recv = recv, m_out = [Print_dev fd]\<rparr>"

definition globalmem_menu ::
  "bool \<Rightarrow> int \<Rightarrow> globalmem_dev \<times> u64 \<Rightarrow> token list \<Rightarrow> u8 list \<Rightarrow> u8 list \<Rightarrow>
     (globalmem_dev \<times> u64) menu prog_end option" where
  "globalmem_menu is32 fd d input send recv =
     menu_loop (globalmem_ops is32) 100 1024 (menu_start fd d input send recv)"

definition globalmem_lock_menu ::
  "timespec \<times> timespec \<Rightarrow> int \<Rightarrow> globalmem_lock_dev \<times> u64 \<Rightarrow> token list \<Rightarrow> u8 list \<Rightarrow> u8 list \<Rightarrow>
     (globalmem_lock_dev \<times> u64) menu prog_end option" where
  "globalmem_lock_menu clk fd d input send recv =
     menu_loop (globalmem_lock_ops clk) 1024000 1024000 (menu_start fd d input send recv)"

section \<open>The write and read test\<close>

text \<open>
  \<open>src/globalmem/test.c\<close>: what the program prints. \<open>dev\<close> is \<open>None\<close> when the device cannot be
  opened.
\<close>

definition globalmem_test ::
  "'d char_dev \<Rightarrow> int \<Rightarrow> 'd option \<Rightarrow> token list \<Rightarrow> u8 list \<Rightarrow> u8 list \<Rightarrow> console list prog_end" where
  "globalmem_test ops fd dev input str str2 =
     (case dev of
        None \<Rightarrow> Exited [Print_dev fd, Print_failure]
      | Some d \<Rightarrow>
          let (str, input) = scanf_s input str in
          if length str \<ge> 1024 then Overrun
          else
            let (_, d) = cd_ioctl ops d 1;
                (ret, d) = cd_write ops d str (of_nat (length (cstr str)));
                (_, d) = cd_lseek ops d 0 0;
                (stop, input) = scanf_d input 0
            in case read_into ops 100 d str2 of
                 None \<Rightarrow> Overrun
               | Some (_, d, str2) \<Rightarrow>
                   if 0 \<notin> set str2 then Overrun
                   else Exited [Print_dev fd, Print_prompt, Print_str (cstr str), Print_ret (sys_ret ret),
                     Print_read (cstr str2)])"

section \<open>The benchmark\<close>

text \<open>
  \<open>src/globalmem_lock/test2.c\<close>. \<open>clk k\<close> is what the \<open>k\<close>-th call of \<open>gettimeofday\<close> gives, in
  seconds and microseconds; \<open>res\<close> is the array \<open>res[3]\<close>, which the program does not
  initialise. The results of the writes are kept although the program ignores them.
\<close>

definition bench_text :: "u8 list" where
  "bench_text = replicate 20 49 @ replicate 2 50 @ replicate 14 97 @ replicate 19 98 @ replicate 11 99"

definition elapsed :: "int \<times> int \<Rightarrow> int \<times> int \<Rightarrow> int" where
  "elapsed start stop = (fst stop - fst start) * 1000000 + (snd stop - snd start)"

record 'd bench =
  b_dev :: 'd
  b_recv :: "u8 list"
  b_res :: "int \<times> int \<times> int"
  b_rets :: "int result list"
  b_out :: "console list"

definition bench_iter ::
  "'d char_dev \<Rightarrow> (nat \<Rightarrow> int \<times> int) \<Rightarrow> nat \<Rightarrow> 'd bench \<Rightarrow> 'd bench option" where
  "bench_iter ops clk i p =
     (let (ret, d) = cd_write ops (b_dev p) bench_text (of_nat (length (cstr bench_text)));
          writetime = elapsed (clk (6 * i)) (clk (6 * i + 1));
          (_, d) = cd_lseek ops d 0 0
      in case read_into ops 102400 d (b_recv p) of
           None \<Rightarrow> None
         | Some (_, d, recv) \<Rightarrow>
             let readtime = elapsed (clk (6 * i + 2)) (clk (6 * i + 3));
                 (_, d) = cd_ioctl ops d 1;
                 ioctltime = elapsed (clk (6 * i + 4)) (clk (6 * i + 5));
                 (r0, r1, r2) = b_res p
             in Some (p\<lparr>b_dev := d, b_recv := recv,
                  b_res := (r0 + writetime, r1 + readtime, r2 + ioctltime),
                  b_rets := b_rets p @ [ret],
                  b_out := b_out p @ (if i mod 100 = 0 then [Print_finished (i + 1)] else [])\<rparr>))"

text \<open>The iterations from \<open>i\<close> on, \<open>k\<close> of them.\<close>

fun bench_loop ::
  "'d char_dev \<Rightarrow> (nat \<Rightarrow> int \<times> int) \<Rightarrow> nat \<Rightarrow> nat \<Rightarrow> 'd bench \<Rightarrow> 'd bench option" where
  "bench_loop ops clk i 0 p = Some p"
| "bench_loop ops clk i (Suc k) p =
     (case bench_iter ops clk i p of None \<Rightarrow> None | Some p \<Rightarrow> bench_loop ops clk (Suc i) k p)"

text \<open>\<open>main\<close>, with the buffer \<open>recvbuf\<close> as a parameter.\<close>

definition bench_main ::
  "'d char_dev \<Rightarrow> (nat \<Rightarrow> int \<times> int) \<Rightarrow> int \<Rightarrow> 'd \<Rightarrow> u8 list \<Rightarrow> int \<times> int \<times> int \<Rightarrow>
     'd bench prog_end" where
  "bench_main ops clk fd d recv res =
     (case bench_loop ops clk 0 10
         \<lparr>b_dev = d, b_recv = recv, b_res = res, b_rets = [], b_out = [Print_dev fd]\<rparr> of
        None \<Rightarrow> Overrun
      | Some p \<Rightarrow>
          Exited (case b_res p of (r0, r1, r2) \<Rightarrow> p\<lparr>b_out := b_out p @ [Print_times r0 r1 r2]\<rparr>))"

end
