(* ===== verification/User_Memory_Props.thy ===== *)
theory User_Memory_Props
  imports User_Memory
begin

text \<open>
  What the programs of the memory drivers do: when the menu ends, that what is written is
  printed, and where the programs of the locked driver overrun their buffers.
\<close>

section \<open>System calls on a device that keeps the contract\<close>

lemma flat_out_0: "length bs \<le> length um \<Longrightarrow> flat_out um 0 bs = (bs @ drop (length bs) um, 0)"
  by (simp add: flat_out_def Let_def)

lemma flat_in_0: "k \<le> length um \<Longrightarrow> flat_in um 0 k = (take k um, 0)"
  by (simp add: flat_in_def Let_def)

text \<open>
  The contract of the drivers as the programs use it: a seekable device with an \<open>ioctl\<close> that
  keeps its size, read and written through flat user memory.
\<close>

locale user_device = seekable_device lim bytes dread dwrite dseek
  for lim and bytes :: "'d \<Rightarrow> u8 list" and dread :: "('d, u8 list) read_op" and dwrite and dseek +
  fixes io :: "'d \<Rightarrow> u32 \<Rightarrow> int result \<times> 'd"
  assumes io_keeps: "length (bytes d) = lim \<Longrightarrow> length (bytes (snd (io d cmd))) = lim"
    and lim_pos: "0 < lim"
begin

abbreviation ops :: "('d \<times> u64) char_dev" where
  "ops \<equiv> dev_ops dread dwrite dseek io"

lemma ops_read:
  assumes "length (bytes d) = lim" "unat pos < lim"
  defines "k sz \<equiv> min (request sz) (lim - unat pos)"
  assumes "k sz \<le> length um"
  shows "\<exists>pos'. cd_read ops (d, pos) um sz =
      (Inr (int (k sz)), (d, pos'), get_bytes (bytes d) (unat pos) (k sz) @ drop (k sz) um) \<and>
    unat pos' = unat pos + k sz"
proof -
  have l: "length (get_bytes (bytes d) (unat pos) (k sz)) = k sz"
    using assms(1,2) by (intro length_get_bytes) (simp add: k_def)
  have "map_prod id (map_prod unat id) (dread flat_out d um 0 sz pos) =
      (Inr (int (k sz)), unat pos + k sz, get_bytes (bytes d) (unat pos) (k sz) @ drop (k sz) um)"
    using read_refines [OF assms(1), of flat_out um 0 sz pos] assms(2,4) l
      flat_out_0 [of "get_bytes (bytes d) (unat pos) (k sz)" um]
    by (simp add: spec_read_def Let_def k_def)
  then show ?thesis
    by (cases "dread flat_out d um 0 sz pos") (auto simp: dev_ops_def)
qed

lemma ops_write:
  assumes "length (bytes d) = lim" "unat pos < lim"
  defines "k sz \<equiv> min (request sz) (lim - unat pos)"
  assumes "k sz \<le> length um"
  shows "\<exists>pos' d'. cd_write ops (d, pos) um sz =
      (Inr (int (k sz)), (d', pos')) \<and>
    bytes d' = put_bytes (bytes d) (unat pos) (take (k sz) um) \<and> unat pos' = unat pos + k sz"
proof -
  have "map_prod id (map_prod unat bytes) (dwrite flat_in d um 0 sz pos) =
      (Inr (int (k sz)), unat pos + k sz, put_bytes (bytes d) (unat pos) (take (k sz) um))"
    using write_refines [OF assms(1), of flat_in um 0 sz pos] assms(2,4) flat_in_0 [of "k sz" um]
    by (simp add: spec_write_def Let_def k_def)
  then show ?thesis
    by (cases "dwrite flat_in d um 0 sz pos") (auto simp: dev_ops_def)
qed

lemma ops_write_end:
  assumes "length (bytes d) = lim" "lim \<le> unat pos" "request sz \<noteq> 0"
  shows "\<exists>pos' d'. cd_write ops (d, pos) um sz = (Inl ENXIO, (d', pos')) \<and>
    bytes d' = bytes d \<and> unat pos' = unat pos"
proof -
  have "map_prod id (map_prod unat bytes) (dwrite flat_in d um 0 sz pos) =
      (Inl ENXIO, unat pos, bytes d)"
    using write_refines [OF assms(1), of flat_in um 0 sz pos] assms(2,3) by (simp add: spec_write_def)
  then show ?thesis
    by (cases "dwrite flat_in d um 0 sz pos") (auto simp: dev_ops_def)
qed

lemma ops_keep_size:
  assumes "length (bytes d) = lim"
  shows "length (bytes (fst (snd (cd_write ops (d, pos) um sz)))) = lim"
    "length (bytes (fst (snd (cd_ioctl ops (d, pos) cmd)))) = lim"
    "fst (snd (cd_lseek ops (d, pos) off wh)) = d"
  using io_keeps [OF assms, of cmd] write_parts(3) [OF assms, of flat_in um 0 sz pos]
    spec_write_length [OF copy_in_fills_flat assms, of um 0 "request sz" "unat pos"]
  by (simp_all add: dev_ops_def split_beta)

lemma ops_rewind: "\<exists>r. cd_lseek ops (d, pos) 0 0 = (r, (d, 0))"
  using seek_set [of 0 pos] by (simp add: dev_ops_def)

text \<open>A read into a buffer: it overruns the buffer exactly when the device delivers more.\<close>

lemma ops_read_into:
  assumes "length (bytes d) = lim" "unat pos < lim" "unat sz < 2 ^ 32"
  defines "k \<equiv> min (unat sz) (lim - unat pos)"
  shows "\<exists>pos'. read_into ops sz (d, pos) buf =
      (if k > length buf then None
       else Some (Inr (int k), (d, pos'), get_bytes (bytes d) (unat pos) k @ drop k buf)) \<and>
    unat pos' = unat pos + k"
proof -
  have r: "request sz = unat sz" using assms(3) by (rule unat_ucast_down32)
  have kb: "k \<le> length (buf @ replicate (unat sz) 0)" by (simp add: k_def)
  have l: "length (get_bytes (bytes d) (unat pos) k) = k"
    using assms(1,2) by (intro length_get_bytes) (simp add: k_def)
  obtain pos' where "cd_read ops (d, pos) (buf @ replicate (unat sz) 0) sz =
      (Inr (int k), (d, pos'), get_bytes (bytes d) (unat pos) k @ drop k (buf @ replicate (unat sz) 0))"
    "unat pos' = unat pos + k"
    using ops_read [OF assms(1,2), of sz "buf @ replicate (unat sz) 0"] kb
    unfolding r k_def [symmetric] by blast
  then show ?thesis by (auto simp: read_into_def sys_ret_def l)
qed

text \<open>Any read into a buffer at least as large as the request.\<close>

lemma ops_read_into_fits:
  assumes "length (bytes d) = lim" "unat sz < 2 ^ 32" "unat sz \<le> length buf"
  shows "\<exists>r pos' buf'. read_into ops sz (d, pos) buf = Some (r, (d, pos'), buf') \<and>
    length buf' = length buf \<and> drop (unat sz) buf' = drop (unat sz) buf"
proof (cases "unat pos < lim")
  case True
  let ?k = "min (unat sz) (lim - unat pos)"
  have l: "length (get_bytes (bytes d) (unat pos) ?k) = ?k"
    using assms(1) True by (intro length_get_bytes) simp
  show ?thesis using ops_read_into [OF assms(1) True assms(2), of buf] assms(3) l by auto
next
  case False
  have "request sz = unat sz" using assms(2) by (rule unat_ucast_down32)
  then have "map_prod id (map_prod unat id) (dread flat_out d um 0 sz pos) =
      (if unat sz = 0 then Inr 0 else Inl ENXIO, unat pos, um)" for um
    using read_refines [OF assms(1), of flat_out um 0 sz pos] False by (simp add: spec_read_def)
  from this [of "buf @ replicate (unat sz) 0"] show ?thesis
    by (cases "dread flat_out d (buf @ replicate (unat sz) 0) 0 sz pos")
       (auto simp: read_into_def dev_ops_def sys_ret_def split: if_splits)
qed

end

section \<open>When the menu ends\<close>

text \<open>The loop with a bound on the rounds.\<close>

fun menu_rounds ::
  "'d char_dev \<Rightarrow> u64 \<Rightarrow> nat \<Rightarrow> nat \<Rightarrow> 'd menu \<Rightarrow> 'd menu prog_end option" where
  "menu_rounds ops rsz ssz 0 p = None"
| "menu_rounds ops rsz ssz (Suc k) p =
     (case menu_iter ops rsz ssz p of Inl p' \<Rightarrow> menu_rounds ops rsz ssz k p' | Inr e \<Rightarrow> Some e)"

lemma menu_rounds_unfold:
  assumes "\<And>p'. menu_iter ops rsz ssz p = Inl p' \<Longrightarrow> \<exists>k. menu_rounds ops rsz ssz k p' = Some e"
    and "\<And>e'. menu_iter ops rsz ssz p = Inr e' \<Longrightarrow> e' = e"
  shows "\<exists>k. menu_rounds ops rsz ssz k p = Some e"
proof (cases "menu_iter ops rsz ssz p")
  case (Inl p')
  then obtain k where "menu_rounds ops rsz ssz k p' = Some e" using assms(1) by blast
  then have "menu_rounds ops rsz ssz (Suc k) p = Some e" using Inl by simp
  then show ?thesis by blast
next
  case (Inr e')
  then have "menu_rounds ops rsz ssz (Suc 0) p = Some e" using assms(2) by simp
  then show ?thesis by blast
qed

lemma menu_loop_step:
  "menu_iter ops rsz ssz p = Inl p' \<Longrightarrow> menu_loop ops rsz ssz p = menu_loop ops rsz ssz p'"
  "menu_iter ops rsz ssz p = Inr e \<Longrightarrow> menu_loop ops rsz ssz p = Some e"
  by (subst menu_loop.simps; simp)+

lemma menu_loop_rounds:
  "menu_loop ops rsz ssz p = Some e \<longleftrightarrow> (\<exists>k. menu_rounds ops rsz ssz k p = Some e)"
proof
  show "\<exists>k. menu_rounds ops rsz ssz k p = Some e" if "menu_loop ops rsz ssz p = Some e"
  proof (rule menu_loop.raw_induct [OF _ that])
    fix loop :: "'a char_dev \<Rightarrow> u64 \<Rightarrow> nat \<Rightarrow> 'a menu \<Rightarrow> 'a menu prog_end option"
    fix ops rsz ssz p e
    assume IH: "\<And>ops rsz ssz p e. loop ops rsz ssz p = Some e \<Longrightarrow>
        \<exists>k. menu_rounds ops rsz ssz k p = Some e"
      and l: "(case menu_iter ops rsz ssz p of Inl p' \<Rightarrow> loop ops rsz ssz p' | Inr e \<Rightarrow> Some e) = Some e"
    show "\<exists>k. menu_rounds ops rsz ssz k p = Some e"
      by (rule menu_rounds_unfold) (use IH l in auto)
  qed
  show "menu_loop ops rsz ssz p = Some e" if "\<exists>k. menu_rounds ops rsz ssz k p = Some e"
  proof -
    from that obtain k where "menu_rounds ops rsz ssz k p = Some e" ..
    then show ?thesis
      by (induction k arbitrary: p) (auto simp: menu_loop_step split: sum.splits)
  qed
qed

text \<open>
  How the input controls the loop: the value of \<open>n\<close> and the input before the next round, or
  \<open>None\<close> when the program leaves the loop. \<open>ends_in\<close> says, reading the input once, whether a
  round with \<open>n = 0\<close> is ever reached.
\<close>

definition control :: "int \<Rightarrow> token list \<Rightarrow> (int \<times> token list) option" where
  "control n ts =
     (let (n, ts) = scanf_d ts n in
      if n = 0 then None else Some (n, if n = 2 then snd (scanf_s ts []) else ts))"

fun ends_in :: "int \<Rightarrow> token list \<Rightarrow> bool" where
  "ends_in n [] \<longleftrightarrow> n = 0"
| "ends_in n (t # ts) \<longleftrightarrow>
     (case token_num t of
        None \<Rightarrow> n = 0 \<or> n = 2 \<and> ends_in 2 ts
      | Some k \<Rightarrow>
          k = 0 \<or> (if k = 2 then (case ts of [] \<Rightarrow> False | w # us \<Rightarrow> ends_in 2 us) else ends_in k ts))"

lemma snd_scanf_s [simp]: "snd (scanf_s ts buf) = tl ts"
  by (cases ts) simp_all

lemma ends_in_control:
  "ends_in n ts \<Longrightarrow> control n ts = Some (m, us) \<Longrightarrow> ends_in m us \<and> length us < length ts"
  by (cases ts; cases "tl ts")
     (auto simp: control_def Let_def split: option.splits if_splits)

lemma stays_control:
  "\<not> ends_in n ts \<Longrightarrow> \<exists>m us. control n ts = Some (m, us) \<and> \<not> ends_in m us"
  by (cases ts; cases "tl ts")
     (auto simp: control_def Let_def split: option.splits if_splits)

lemma rounds_control:
  assumes step: "\<And>p. I p \<Longrightarrow> (case control (m_n p) (m_in p) of
        None \<Rightarrow> \<exists>q. menu_iter ops rsz ssz p = Inr (Exited q)
      | Some (n, ts) \<Rightarrow>
          \<exists>q. menu_iter ops rsz ssz p = Inl q \<and> m_n q = n \<and> m_in q = ts \<and> I q)"
    and "I p"
  shows "if ends_in (m_n p) (m_in p) then \<exists>q. menu_loop ops rsz ssz p = Some (Exited q)
    else menu_loop ops rsz ssz p = None"
proof (cases "ends_in (m_n p) (m_in p)")
  case True
  then have "\<exists>q. menu_loop ops rsz ssz p = Some (Exited q)"
    using assms(2)
  proof (induction "length (m_in p)" arbitrary: p rule: less_induct)
    case less
    show ?case
    proof (cases "control (m_n p) (m_in p)")
      case None
      then show ?thesis using step [OF less.prems(2)] menu_loop_step(2) [of ops rsz ssz p] by auto
    next
      case (Some c)
      obtain n ts where c: "c = (n, ts)" by (cases c)
      then obtain q where q: "menu_iter ops rsz ssz p = Inl q" "m_n q = n" "m_in q = ts" "I q"
        using step [OF less.prems(2)] Some by auto
      have "ends_in n ts" "length ts < length (m_in p)"
        using ends_in_control [of "m_n p" "m_in p"] less.prems(1) Some c by auto
      then show ?thesis using less.hyps [of q] q menu_loop_step(1) [OF q(1)] by simp
    qed
  qed
  then show ?thesis using True by simp
next
  case False
  have "menu_rounds ops rsz ssz k p = None" for k
    using False assms(2)
  proof (induction k arbitrary: p)
    case (Suc k)
    obtain n ts where c: "control (m_n p) (m_in p) = Some (n, ts)" "\<not> ends_in n ts"
      using stays_control Suc.prems(1) by blast
    then obtain q where "menu_iter ops rsz ssz p = Inl q" "m_n q = n" "m_in q = ts" "I q"
      using step [OF Suc.prems(2)] by auto
    then show ?case using Suc.IH [of q] c(2) by simp
  qed simp
  then have "menu_loop ops rsz ssz p = None"
    using menu_loop_rounds [of ops rsz ssz p] by (cases "menu_loop ops rsz ssz p") auto
  then show ?thesis using False by simp
qed

text \<open>
  What the program needs so that it does not overrun a buffer: tokens and the string in
  \<open>sendbuf\<close> fit, and \<open>recvbuf\<close> has a zero byte behind the part that is read into.
\<close>

definition menu_safe :: "u64 \<Rightarrow> nat \<Rightarrow> 'd menu \<Rightarrow> bool" where
  "menu_safe rsz ssz p \<longleftrightarrow> unat rsz \<le> length (m_recv p) \<and> 0 \<in> set (drop (unat rsz) (m_recv p)) \<and>
     length (m_send p) < ssz \<and> (\<forall>t \<in> set (m_in p). length (token_text t) < ssz)"

lemma set_scanf_d: "scanf_d ts n = (k, us) \<Longrightarrow> set us \<subseteq> set ts"
  by (cases ts) (auto split: option.splits)

context user_device
begin

lemma menu_iter_control:
  fixes p :: "('d \<times> u64) menu"
  assumes "length (bytes (fst (m_dev p))) = lim" "menu_safe rsz ssz p" "unat rsz < 2 ^ 32"
  shows "case control (m_n p) (m_in p) of
        None \<Rightarrow> \<exists>q. menu_iter ops rsz ssz p = Inr (Exited q)
      | Some (n, ts) \<Rightarrow>
          \<exists>q. menu_iter ops rsz ssz p = Inl q \<and> m_n q = n \<and> m_in q = ts \<and>
            length (bytes (fst (m_dev q))) = lim \<and> menu_safe rsz ssz q"
proof -
  obtain n ts where s: "scanf_d (m_in p) (m_n p) = (n, ts)" by fastforce
  obtain d pos where d: "m_dev p = (d, pos)" by (cases "m_dev p")
  have l: "length (bytes d) = lim" using assms(1) d by simp
  have ts: "set ts \<subseteq> set (m_in p)" using s by (rule set_scanf_d)
  note keep = ops_keep_size [OF l, of pos]
  consider "n = 0" | "n = 1" | "n = 2" | "n = 3" | "n = 4" | "n \<notin> {0, 1, 2, 3, 4}" by auto
  then show ?thesis
  proof cases
    case 2
    obtain r pos' buf where r: "read_into ops rsz (d, pos) (m_recv p) = Some (r, (d, pos'), buf)"
      "length buf = length (m_recv p)" "drop (unat rsz) buf = drop (unat rsz) (m_recv p)"
      using ops_read_into_fits [OF l assms(3), of "m_recv p" pos] assms(2)
      by (auto simp: menu_safe_def)
    have "0 \<in> set buf"
      using r(3) assms(2) by (metis in_set_dropD menu_safe_def)
    then show ?thesis using 2 s r d l ts assms(2) by (auto simp: control_def menu_iter_def Let_def menu_safe_def)
  next
    case 3
    obtain send input where w: "scanf_s ts (m_send p) = (send, input)" by fastforce
    have i: "input = tl ts" using w by (metis snd_conv snd_scanf_s)
    have "length send < ssz" "set (tl ts) \<subseteq> set (m_in p)"
      using w ts assms(2) by (cases ts; auto simp: menu_safe_def)+
    then show ?thesis
      using 3 s w i d keep(1) [of send "of_nat (length (cstr send))"] assms(2)
      by (auto simp: control_def menu_iter_def Let_def menu_safe_def split_beta)
  next
    case 4
    then show ?thesis using s d keep(2) [of 1] ts assms(2)
      by (auto simp: control_def menu_iter_def Let_def menu_safe_def split_beta)
  next
    case 5
    then show ?thesis using s d keep(3) [of 0 0] l ts assms(2)
      by (auto simp: control_def menu_iter_def Let_def menu_safe_def split_beta)
  qed (use s l ts assms in \<open>auto simp: control_def menu_iter_def Let_def menu_safe_def\<close>)
qed

lemma menu_ends:
  fixes p :: "('d \<times> u64) menu"
  assumes "length (bytes (fst (m_dev p))) = lim" "menu_safe rsz ssz p" "unat rsz < 2 ^ 32"
  shows "if ends_in (m_n p) (m_in p) then \<exists>q. menu_loop ops rsz ssz p = Some (Exited q)
    else menu_loop ops rsz ssz p = None"
  using assms menu_iter_control
  by (intro rounds_control [where I = "\<lambda>p. length (bytes (fst (m_dev p))) = lim \<and> menu_safe rsz ssz p"])
     auto

end

section \<open>Writing, rewinding, reading\<close>

lemma cstr_id: "0 \<notin> set w \<Longrightarrow> cstr w = w"
  by (auto simp: cstr_def takeWhile_eq_all_conv)

lemma cstr_text: "0 \<notin> set w \<Longrightarrow> cstr (w @ 0 # x) = w"
  unfolding cstr_def by (subst takeWhile_append2) auto

lemma read_text:
  assumes "length w < n" "n \<le> lim"
  shows "get_bytes (put_bytes (replicate lim (0 :: u8)) 0 w) 0 n = w @ 0 # replicate (n - length w - 1) 0"
proof -
  have "n - length w = Suc (n - length w - 1)" using assms(1) by simp
  then have "replicate (n - length w) (0 :: u8) = 0 # replicate (n - length w - 1) 0"
    by (metis replicate_Suc)
  then show ?thesis using assms by (simp add: get_bytes_def put_bytes_def min_absorb1)
qed

context user_device
begin

text \<open>A text written to a fresh device from the start.\<close>

lemma ops_write_text:
  assumes "bytes d = replicate lim 0" "length w < lim"
  shows "\<exists>d' pos'. cd_write ops (d, 0) w (of_nat (length w)) = (Inr (int (length w)), (d', pos')) \<and>
    bytes d' = put_bytes (replicate lim 0) 0 w"
proof -
  have "length w < 2 ^ 31" using assms(2) lim_small by simp
  then have n: "length w < 2 ^ 32" "length w < 2 ^ 64" by simp_all
  then have "unat (of_nat (length w) :: u64) = length w"
    by (simp add: unsigned_of_nat take_bit_nat_eq_self)
  then have "request (of_nat (length w)) = length w" using unat_ucast_down32 n(1) by metis
  then show ?thesis
    using ops_write [of d 0 "of_nat (length w)" w] assms lim_pos by auto
qed

lemma ops_read_text:
  assumes "bytes d = put_bytes (replicate lim 0) 0 w" "length w < unat sz" "unat sz \<le> lim"
    "unat sz \<le> length buf" "0 \<notin> set w"
  shows "\<exists>r pos' buf'. read_into ops sz (d, 0) buf = Some (r, (d, pos'), buf') \<and>
    0 \<in> set buf' \<and> cstr buf' = w \<and> length buf' = length buf"
proof -
  have b: "length (bytes d) = lim" using assms(1,2,3) by (simp add: put_bytes_def)
  have sz: "unat sz < 2 ^ 32" using assms(3) lim_small by simp
  have k: "min (unat sz) (lim - unat 0) = unat sz" using assms(3) by simp
  let ?buf = "(w @ 0 # replicate (unat sz - length w - 1) 0) @ drop (unat sz) buf"
  obtain pos' where "read_into ops sz (d, 0) buf =
      Some (Inr (int (unat sz)), (d, pos'), get_bytes (bytes d) 0 (unat sz) @ drop (unat sz) buf)"
    using ops_read_into [OF b _ sz, of 0 buf] lim_pos assms(4) unfolding k by auto
  then have "read_into ops sz (d, 0) buf = Some (Inr (int (unat sz)), (d, pos'), ?buf)"
    unfolding assms(1) read_text [OF assms(2,3)] .
  moreover have "cstr ?buf = w" using cstr_text [OF assms(5)] by simp
  moreover have "length ?buf = length buf" using assms(2,4) by simp
  ultimately show ?thesis by auto
qed

end

text \<open>The token a user types for choice \<open>k\<close>.\<close>

definition choice :: "nat \<Rightarrow> token" where
  "choice k = Token [48 + of_nat k] (Some (int k))"

definition menu_echo_input :: "u8 list \<Rightarrow> token list" where
  "menu_echo_input w = [choice 2, Token w None, choice 3, choice 4, choice 1, choice 0]"

context user_device
begin

lemma menu_echo:
  assumes "bytes d = replicate lim 0" "0 \<notin> set w" "length w < 100" "100 \<le> lim" "unat rsz = 100"
    and "100 \<le> length recv" "100 \<le> ssz"
    and "\<And>d. length (bytes d) = lim \<Longrightarrow>
      bytes (snd (io d 1)) = (if clr then replicate lim 0 else bytes d)"
  shows "\<exists>q. menu_loop ops rsz ssz (menu_start fd (d, 0) (menu_echo_input w) send recv) =
      Some (Exited q) \<and>
    m_out q = [Print_dev fd, Print_menu, Print_ret (int (length w)), Print_loop, Print_menu, Print_loop,
      Print_menu, Print_loop, Print_menu, Print_read (if clr then [] else w), Print_loop, Print_menu]"
proof -
  let ?w = "if clr then [] else w"
  obtain d1 p1 where w: "cd_write ops (d, 0) w (of_nat (length w)) = (Inr (int (length w)), (d1, p1))"
    "bytes d1 = put_bytes (replicate lim 0) 0 w"
    using ops_write_text [OF assms(1), of w] assms(3,4) by auto
  have l1: "length (bytes d1) = lim" using w(2) assms(3,4) by (simp add: put_bytes_def)
  obtain r2 d2 where io: "cd_ioctl ops (d1, p1) 1 = (r2, (d2, p1))" "d2 = snd (io d1 1)"
    by (simp add: dev_ops_def split_beta)
  have d2: "bytes d2 = put_bytes (replicate lim 0) 0 ?w"
    using assms(8) [OF l1] io(2) w(2) by (simp add: put_bytes_def)
  obtain r3 where sk: "cd_lseek ops (d2, p1) 0 0 = (r3, (d2, 0))" using ops_rewind by blast
  have "length ?w < unat rsz" "unat rsz \<le> lim" "unat rsz \<le> length recv" "0 \<notin> set ?w"
    using assms(2-6) by auto
  from ops_read_text [OF d2 this] obtain r4 p4 buf where
    rd: "read_into ops rsz (d2, 0) recv = Some (r4, (d2, p4), buf)" "0 \<in> set buf" "cstr buf = ?w"
    by blast
  have ssz: "length w < ssz" using assms(3,7) by simp
  have "\<exists>q. menu_rounds ops rsz ssz (Suc (Suc (Suc (Suc (Suc 0)))))
        (menu_start fd (d, 0) (menu_echo_input w) send recv) = Some (Exited q) \<and>
      m_out q = [Print_dev fd, Print_menu, Print_ret (int (length w)), Print_loop, Print_menu, Print_loop,
        Print_menu, Print_loop, Print_menu, Print_read ?w, Print_loop, Print_menu]"
    using ssz by (simp add: menu_start_def menu_echo_input_def menu_iter_def Let_def choice_def w(1)
        cstr_id [OF assms(2)] io(1) sk rd sys_ret_def del: if_split)
  then show ?thesis using menu_loop_rounds by blast
qed

end

section \<open>The drivers\<close>

interpretation gmu: user_device 65536 mem globalmem_read globalmem_write globalmem_llseek
  "if is32 then globalmem_compat_ioctl else globalmem_ioctl64" for is32
  by unfold_locales
     (simp_all add: globalmem_compat_ioctl_def globalmem_ioctl64_def unat_GLOBALMEM_SIZE)

interpretation glu: user_device 4096 lock_mem
  "\<lambda>ctu d us buf sz pos. fst (globalmem_lock_read clk ctu d us buf sz pos)"
  "\<lambda>cfu d us buf sz pos. fst (globalmem_lock_write clk cfu d us buf sz pos)"
  globalmem_lock_llseek "\<lambda>d cmd. fst (globalmem_lock_ioctl d cmd)" for clk
  by unfold_locales (simp_all add: globalmem_lock_ioctl_def unat_GLOBALMEM_LOCK_SIZE)

section \<open>Properties\<close>

text \<open>
  C21. The menu program of \<open>globalmem\<close> ends exactly when its input leads it to a round with
  \<open>n = 0\<close>, which \<open>ends_in\<close> decides from the input alone: a 0 among the choices ends it (as does
  an input that starts with something else than a number, because \<open>n\<close> is 0 at first), whereas at
  the end of the input, or at a word where a choice is expected, it repeats the last choice for
  ever. It never overruns a buffer, provided the tokens are shorter than \<open>sendbuf\<close> and
  \<open>recvbuf\<close> happens to contain a zero byte behind the part that is read.
\<close>

theorem globalmem_menu_terminates:
  assumes "length (mem d) = 65536" "length send < 1024" "\<forall>t \<in> set input. length (token_text t) < 1024"
    and "100 \<le> length recv" "0 \<in> set (drop 100 recv)"
  shows "((\<exists>e. globalmem_menu is32 fd (d, pos) input send recv = Some e) \<longleftrightarrow> ends_in 0 input) \<and>
    globalmem_menu is32 fd (d, pos) input send recv \<noteq> Some Overrun"
proof -
  have "menu_safe 100 1024 (menu_start fd (d, pos) input send recv)"
    using assms(2-5) by (simp add: menu_safe_def menu_start_def)
  from gmu.menu_ends [OF _ this, of is32] show ?thesis
    using assms(1) by (auto simp: globalmem_menu_def globalmem_ops_def menu_start_def split: if_splits)
qed

lemma globalmem_menu_terminates_witness:
  "(\<exists>e. globalmem_menu False 3 (\<lparr>mem = replicate 65536 0\<rparr>, 0) [choice 1, choice 0] [] (replicate 1024 0) =
      Some e) \<and>
   globalmem_menu False 3 (\<lparr>mem = replicate 65536 0\<rparr>, 0) [choice 1, Token [120] None] []
     (replicate 1024 0) = None"
proof -
  have r: "0 \<in> set (drop 100 (replicate 1024 (0 :: u8)))" by simp
  note t = globalmem_menu_terminates [of "\<lparr>mem = replicate 65536 0\<rparr>" "[]" _ "replicate 1024 0" False 3 0,
      OF _ _ _ _ r]
  show ?thesis
    using t [of "[choice 1, choice 0]"] t [of "[choice 1, Token [120] None]"]
    by (auto simp: choice_def)
qed

text \<open>
  C22. A text entered through the menu, then read back from the start, is printed again. The
  choice \<open>clear\<close> in between has an effect only for a 32-bit process: the driver has no
  \<open>unlocked_ioctl\<close>, so for a 64-bit one \<open>ioctl\<close> fails, which the program does not notice.
\<close>

theorem globalmem_menu_echoes:
  assumes "mem d = replicate 65536 0" "0 \<notin> set w" "length w < 100" "100 \<le> length recv"
  shows "\<exists>q. globalmem_menu is32 fd (d, 0) (menu_echo_input w) send recv = Some (Exited q) \<and>
    m_out q = [Print_dev fd, Print_menu, Print_ret (int (length w)), Print_loop, Print_menu, Print_loop,
      Print_menu, Print_loop, Print_menu, Print_read (if is32 then [] else w), Print_loop,
      Print_menu]"
  unfolding globalmem_menu_def globalmem_ops_def
  by (rule gmu.menu_echo)
     (use assms in \<open>simp_all add: globalmem_compat_ioctl_def globalmem_ioctl64_def
        unat_GLOBALMEM_SIZE MEM_CLEAR_def\<close>)

lemma globalmem_menu_echoes_witness:
  "\<exists>q. globalmem_menu False 3 (\<lparr>mem = replicate 65536 0\<rparr>, 0) (menu_echo_input [104, 105]) []
      (replicate 1024 0) = Some (Exited q) \<and> m_out q ! 9 = Print_read [104, 105]"
  using globalmem_menu_echoes [of "\<lparr>mem = replicate 65536 0\<rparr>" "[104, 105]" "replicate 1024 0" False 3 "[]"]
  by auto

text \<open>
  C33. The copy of the menu program for the locked driver asks for 1024000 bytes into a buffer of
  1024: with more than 1024 bytes left on the device the first \<open>read\<close> overruns the buffer. The
  benchmark does the same in its first round, whatever the clock and the contents of the device.
\<close>

theorem globalmem_lock_programs_overrun:
  assumes "length (lock_mem d) = 4096" "length recv = 1024" "unat pos + 1024 < 4096"
  shows "globalmem_lock_menu clk fd (d, pos) (choice 1 # input) send recv = Some Overrun \<and>
    bench_main (globalmem_lock_ops clk) time fd (d, pos) recv res = Overrun"
proof
  have "read_into (globalmem_lock_ops clk) 1024000 (d, pos) recv = None"
    using glu.ops_read_into [where clk = clk and d = d and pos = pos and sz = 1024000 and buf = recv] assms by (auto simp: globalmem_lock_ops_def)
  then have "menu_iter (globalmem_lock_ops clk) 1024000 1024000
      (menu_start fd (d, pos) (choice 1 # input) send recv) = Inr Overrun"
    by (simp add: menu_iter_def menu_start_def choice_def Let_def)
  then show "globalmem_lock_menu clk fd (d, pos) (choice 1 # input) send recv = Some Overrun"
    unfolding globalmem_lock_menu_def by (rule menu_loop_step(2))
next
  let ?len = "of_nat (length (cstr bench_text)) :: u64"
  obtain r d1 p1 where w: "cd_write (globalmem_lock_ops clk) (d, pos) bench_text ?len = (r, (d1, p1))"
    by (metis prod.collapse)
  then have l1: "length (lock_mem d1) = 4096"
    using glu.ops_keep_size(1) [OF assms(1), of clk pos bench_text ?len]
    by (simp add: globalmem_lock_ops_def)
  obtain r' where s: "cd_lseek (globalmem_lock_ops clk) (d1, p1) 0 0 = (r', (d1, 0))"
    using glu.ops_rewind [where d = d1 and pos = p1 and clk = clk] by (auto simp: globalmem_lock_ops_def)
  have "read_into (globalmem_lock_ops clk) 102400 (d1, 0) recv = None"
    using glu.ops_read_into [where clk = clk and d = d1 and pos = 0 and sz = 102400 and buf = recv] l1 assms(2) by (auto simp: globalmem_lock_ops_def)
  then have "bench_iter (globalmem_lock_ops clk) time 0
      \<lparr>b_dev = (d, pos), b_recv = recv, b_res = res, b_rets = [], b_out = [Print_dev fd]\<rparr> = None"
    using w s by (simp add: bench_iter_def Let_def split_beta)
  then show "bench_main (globalmem_lock_ops clk) time fd (d, pos) recv res = Overrun"
    by (simp add: bench_main_def numeral_eq_Suc)
qed

definition zero_clock :: "timespec \<times> timespec" where
  "zero_clock = (\<lparr>tv_sec = 0, tv_nsec = 0\<rparr>, \<lparr>tv_sec = 0, tv_nsec = 0\<rparr>)"

lemma globalmem_lock_programs_overrun_witness:
  "globalmem_lock_menu zero_clock 3 (\<lparr>lock_mem = replicate 4096 0\<rparr>, 0) [choice 1] []
      (replicate 1024 0) = Some Overrun \<and>
   bench_main (globalmem_lock_ops zero_clock) (\<lambda>k. (0, 0)) 3 (\<lparr>lock_mem = replicate 4096 0\<rparr>, 0)
      (replicate 1024 0) (0, 0, 0) = Overrun"
  using globalmem_lock_programs_overrun [of "\<lparr>lock_mem = replicate 4096 0\<rparr>" "replicate 1024 0" 0
      zero_clock 3 "[]" "[]" "\<lambda>k. (0, 0)" "(0, 0, 0)"] by simp

text \<open>
  With a large enough buffer the benchmark would measure failing writes: the first round's
  \<open>read\<close> moves the position to the end of the device, so every later \<open>write\<close> returns \<open>ENXIO\<close>.
\<close>

lemma length_bench_text: "length (cstr bench_text) = 66"
  by (subst cstr_id) (simp_all add: bench_text_def)

lemma bench_iter_rets:
  assumes "length (lock_mem (fst (b_dev p))) = 4096" "4096 \<le> length (b_recv p)"
  shows "\<exists>q. bench_iter (globalmem_lock_ops clk) time i p = Some q \<and>
    length (lock_mem (fst (b_dev q))) = 4096 \<and> length (b_recv q) = length (b_recv p) \<and>
    unat (snd (b_dev q)) = 4096 \<and>
    b_rets q = b_rets p @ [fst (cd_write (globalmem_lock_ops clk) (b_dev p) bench_text
      (of_nat (length (cstr bench_text))))]"
proof -
  let ?ops = "globalmem_lock_ops clk" and ?len = "of_nat (length (cstr bench_text)) :: u64"
  obtain d pos where d: "b_dev p = (d, pos)" by (cases "b_dev p")
  have l: "length (lock_mem d) = 4096" using assms(1) d by simp
  obtain r d1 p1 where w: "cd_write ?ops (d, pos) bench_text ?len = (r, (d1, p1))"
    by (metis prod.collapse)
  then have l1: "length (lock_mem d1) = 4096"
    using glu.ops_keep_size(1) [OF l, of clk pos bench_text ?len] by (simp add: globalmem_lock_ops_def)
  obtain r' where s: "cd_lseek ?ops (d1, p1) 0 0 = (r', (d1, 0))"
    using glu.ops_rewind [where d = d1 and pos = p1 and clk = clk] by (auto simp: globalmem_lock_ops_def)
  have g: "length (get_bytes (lock_mem d1) 0 4096) = 4096"
    using l1 by (intro length_get_bytes) simp
  obtain p2 where rd: "read_into ?ops 102400 (d1, 0) (b_recv p) =
      Some (Inr 4096, (d1, p2), get_bytes (lock_mem d1) 0 4096 @ drop 4096 (b_recv p))"
    "unat p2 = 4096"
    using glu.ops_read_into [where clk = clk and d = d1 and pos = 0 and sz = 102400 and buf = "b_recv p"] l1 g assms(2)
    by (auto simp: globalmem_lock_ops_def)
  obtain r3 d3 where io: "cd_ioctl ?ops (d1, p2) 1 = (r3, (d3, p2))" "length (lock_mem d3) = 4096"
    using glu.ops_keep_size(2) [OF l1, of clk p2 1]
    by (simp add: globalmem_lock_ops_def dev_ops_def split_beta)
  show ?thesis
    using w s rd io d g assms(2) by (simp add: bench_iter_def Let_def split: prod.split)
qed

lemma bench_loop_rets:
  assumes "length (lock_mem (fst (b_dev p))) = 4096" "4096 \<le> length (b_recv p)"
    "unat (snd (b_dev p)) = 4096"
  shows "\<exists>q. bench_loop (globalmem_lock_ops clk) time i k p = Some q \<and>
    b_rets q = b_rets p @ replicate k (Inl ENXIO)"
  using assms
proof (induction k arbitrary: i p)
  case (Suc k)
  let ?len = "of_nat (length (cstr bench_text)) :: u64"
  have "request ?len \<noteq> 0" by (simp add: length_bench_text)
  then have "fst (cd_write (globalmem_lock_ops clk) (b_dev p) bench_text ?len) = Inl ENXIO"
    using glu.ops_write_end [OF Suc.prems(1), of "snd (b_dev p)" ?len clk bench_text] Suc.prems(3)
    by (auto simp: globalmem_lock_ops_def)
  then obtain q where q: "bench_iter (globalmem_lock_ops clk) time i p = Some q"
    "length (lock_mem (fst (b_dev q))) = 4096" "length (b_recv q) = length (b_recv p)"
    "unat (snd (b_dev q)) = 4096" "b_rets q = b_rets p @ [Inl ENXIO]"
    using bench_iter_rets [OF Suc.prems(1,2), of clk time i] by auto
  then show ?case using Suc.IH [of q "Suc i"] Suc.prems(2) by simp
qed simp

theorem bench_writes_fail:
  assumes "length (lock_mem d) = 4096" "4096 \<le> length recv"
  shows "\<exists>q r. bench_main (globalmem_lock_ops clk) time fd (d, 0) recv res = Exited q \<and>
    b_rets q = r # replicate 9 (Inl ENXIO)"
proof -
  let ?p = "\<lparr>b_dev = (d, 0), b_recv = recv, b_res = res, b_rets = [], b_out = [Print_dev fd]\<rparr>"
  obtain p1 where p1: "bench_iter (globalmem_lock_ops clk) time 0 ?p = Some p1"
    "length (lock_mem (fst (b_dev p1))) = 4096" "length (b_recv p1) = length recv"
    "unat (snd (b_dev p1)) = 4096" "\<exists>r. b_rets p1 = [r]"
    using bench_iter_rets [of ?p clk time 0] assms by auto
  obtain q where q: "bench_loop (globalmem_lock_ops clk) time 1 9 p1 = Some q"
    "b_rets q = b_rets p1 @ replicate 9 (Inl ENXIO)"
    using bench_loop_rets [OF p1(2) _ p1(4), of clk time 1 9] p1(3) assms(2) by auto
  have "bench_loop (globalmem_lock_ops clk) time 0 10 ?p = Some q"
    using bench_loop.simps(2) [of "globalmem_lock_ops clk" time 0 9 ?p] p1(1) q(1) by simp
  then show ?thesis using q(2) p1(5) by (auto simp: bench_main_def split: prod.split)
qed

text \<open>The write and read test prints what was entered.\<close>

theorem globalmem_test_prints:
  assumes "mem d = replicate 65536 0" "0 \<notin> set w" "length w < 100" "100 \<le> length str2"
  shows "globalmem_test (globalmem_ops is32) fd (Some (d, 0)) (Token w None # input) str str2 =
    Exited [Print_dev fd, Print_prompt, Print_str w, Print_ret (int (length w)), Print_read w]"
proof -
  let ?ops = "globalmem_ops is32"
  obtain r0 d0 where io: "cd_ioctl ?ops (d, 0) 1 = (r0, (d0, 0))" "mem d0 = replicate 65536 0"
    using assms(1) by (cases is32) (simp_all add: globalmem_ops_def dev_ops_def
      globalmem_compat_ioctl_def globalmem_ioctl64_def MEM_CLEAR_def unat_GLOBALMEM_SIZE)
  obtain d1 p1 where w: "cd_write ?ops (d0, 0) w (of_nat (length w)) = (Inr (int (length w)), (d1, p1))"
    "mem d1 = put_bytes (replicate 65536 0) 0 w"
    using gmu.ops_write_text [OF io(2), of w is32] assms(3) by (auto simp: globalmem_ops_def)
  obtain r2 where s: "cd_lseek ?ops (d1, p1) 0 0 = (r2, (d1, 0))"
    using gmu.ops_rewind [where d = d1 and pos = p1] by (auto simp: globalmem_ops_def)
  obtain r3 p3 buf where rd: "read_into ?ops 100 (d1, 0) str2 = Some (r3, (d1, p3), buf)"
    "0 \<in> set buf" "cstr buf = w"
    using gmu.ops_read_text [OF w(2), of 100 str2 is32] assms(2-4) by (auto simp: globalmem_ops_def)
  show ?thesis
    using io w s rd assms(3) cstr_id [OF assms(2)]
    by (simp add: globalmem_test_def sys_ret_def split_beta)
qed

end
