(* ===== verification/User_Monitors.thy ===== *)
theory User_Monitors
  imports Globalfifo_Sched
begin

text \<open>
  The programs that watch the queue of \<open>globalfifo\<close>, composed with the driver: \<open>src/globalfifo/pollmonitor.c\<close> (\<open>select\<close>
  in a loop), \<open>src/globalfifo/epollmonitor.c\<close> (one \<open>epoll_wait\<close>),
  \<open>src/globalfifo/asyncmonitor.c\<close> (\<open>SIGIO\<close>). What other tasks do to the queue meanwhile is a
  run of \<open>fifo_step\<close>, or a sequence of calls.
\<close>

section \<open>Time\<close>

text \<open>
  A state of the driver for every instant; between two instants any number of tasks make any number
  of steps.
\<close>

definition fifo_run ::
  "memcpy \<Rightarrow> 'u copy_out \<Rightarrow> 'u copy_in \<Rightarrow> (nat \<Rightarrow> 'u fifo_sys) \<Rightarrow> bool" where
  "fifo_run mc ctu cfu S \<longleftrightarrow> fifo_reach mc ctu cfu (S 0) \<and>
     (\<forall>t. (\<lambda>x y. \<exists>i r. fifo_step mc ctu cfu x i r y)\<^sup>*\<^sup>* (S t) (S (Suc t)))"

lemma fifo_steps_reach:
  "(\<lambda>x y. \<exists>i r. fifo_step mc ctu cfu x i r y)\<^sup>*\<^sup>* s s' \<Longrightarrow> fifo_reach mc ctu cfu s \<Longrightarrow> fifo_reach mc ctu cfu s'"
  by (induction rule: rtranclp_induct) (auto intro: fifo_reach.move)

lemma fifo_run_reach:
  assumes "fifo_run mc ctu cfu S"
  shows "fifo_reach mc ctu cfu (S t)"
proof (induction t)
  case 0
  then show ?case using assms by (simp add: fifo_run_def)
next
  case (Suc t)
  then show ?case using assms fifo_steps_reach unfolding fifo_run_def by blast
qed

text \<open>All that the monitors need to know: the length stays within the array, whatever \<open>memcpy\<close> does.\<close>

lemma fifo_run_len: "fifo_run mc ctu cfu S \<Longrightarrow> unat (current_len (dev (S t))) \<le> 4096"
  using fifo_reach_len [OF fifo_run_reach, unfolded len_inv_def] by blast

section \<open>The select monitor\<close>

datatype monitor_line =
    Can_be_read | Can_be_written | Ioctl_failed | Open_failed | Fifo_not_empty | No_data
  | Perror string | Signal_received int

text \<open>
  \<open>select\<close> without a time limit: from instant \<open>t\<close> on, wait until the driver's \<open>poll\<close> reports one
  of the events asked for; the instant, whether the descriptor is readable, whether it is
  writable. \<open>None\<close> when it waits for ever.
\<close>

definition select_bits :: "globalfifo_dev \<Rightarrow> bool \<times> bool" where
  "select_bits d =
     (let mask = fst (globalfifo_poll d)
      in (mask AND (POLLIN OR POLLRDNORM) \<noteq> 0, mask AND (POLLOUT OR POLLWRNORM) \<noteq> 0))"

partial_function (option) select_wait ::
  "(nat \<Rightarrow> globalfifo_dev) \<Rightarrow> nat \<Rightarrow> (nat \<times> bool \<times> bool) option" where
  "select_wait D t =
     (let (r, w) = select_bits (D t) in if r \<or> w then Some (t, r, w) else select_wait D (Suc t))"

text \<open>
  The first \<open>k\<close> rounds of the endless loop of \<open>pollmonitor\<close>: the lines each round prints.
\<close>

fun pollmonitor_rounds :: "(nat \<Rightarrow> globalfifo_dev) \<Rightarrow> nat \<Rightarrow> nat \<Rightarrow> monitor_line list list option" where
  "pollmonitor_rounds D t 0 = Some []"
| "pollmonitor_rounds D t (Suc k) =
     do { (t, r, w) \<leftarrow> select_wait D t;
          rest \<leftarrow> pollmonitor_rounds D (Suc t) k;
          Some (((if r then [Can_be_read] else []) @ (if w then [Can_be_written] else [])) # rest) }"

text \<open>
  The program: \<open>open_ok\<close> says whether the device could be opened; \<open>D d\<close> is how the device goes
  on from \<open>d\<close> after the program has cleared it. What is printed before the loop, and the first
  \<open>k\<close> rounds.
\<close>

definition pollmonitor ::
  "bool \<Rightarrow> globalfifo_dev \<Rightarrow> (globalfifo_dev \<Rightarrow> nat \<Rightarrow> globalfifo_dev) \<Rightarrow> nat \<Rightarrow>
     monitor_line list \<times> monitor_line list list option" where
  "pollmonitor open_ok d D k =
     (if \<not> open_ok then ([Open_failed], Some [])
      else
        let (r, d) = fst (globalfifo_unlocked_ioctl d FIFO_CLEAR)
        in ((case r of Inl e \<Rightarrow> [Ioctl_failed] | Inr _ \<Rightarrow> []), pollmonitor_rounds (D d) 0 k))"

lemma select_bits_fifo:
  assumes "unat (current_len d) \<le> 4096"
  shows "select_bits d = (current_len d \<noteq> 0, unat (current_len d) < 4096)"
proof -
  have "unat (current_len d) < 4096 \<longleftrightarrow> current_len d \<noteq> GLOBALFIFO_SIZE"
    using assms by (auto simp: GLOBALFIFO_SIZE_def word_unat_eq_iff)
  then show ?thesis
    by (auto simp: select_bits_def globalfifo_poll_def POLLIN_def POLLOUT_def POLLRDNORM_def
        POLLWRNORM_def Let_def)
qed

text \<open>Since an empty queue is writable and a full one readable, \<open>select\<close> never waits.\<close>

lemma select_at_once:
  "unat (current_len (D t)) \<le> 4096 \<Longrightarrow>
     select_wait D t = Some (t, current_len (D t) \<noteq> 0, unat (current_len (D t)) < 4096)"
  by (subst select_wait.simps) (auto simp: select_bits_fifo)

definition monitor_lines :: "globalfifo_dev \<Rightarrow> monitor_line list" where
  "monitor_lines d = (if current_len d \<noteq> 0 then [Can_be_read] else []) @
     (if unat (current_len d) < 4096 then [Can_be_written] else [])"

lemma pollmonitor_rounds_ok:
  "(\<And>t. unat (current_len (D t)) \<le> 4096) \<Longrightarrow>
     pollmonitor_rounds D t k = Some (map (\<lambda>j. monitor_lines (D (t + j))) [0..<k])"
proof (induction k arbitrary: t)
  case (Suc k)
  have "[0..<Suc k] = 0 # map Suc [0..<k]" by (simp add: upt_conv_Cons map_Suc_upt del: upt_Suc)
  then show ?case
    using Suc.IH [OF Suc.prems, of "Suc t"] select_at_once [of D t] Suc.prems [of t]
    by (simp add: monitor_lines_def comp_def del: upt_Suc)
qed simp

text \<open>
  C23. The select monitor next to any number of tasks, which make any number of steps between two
  rounds: in every round it prints that the device can be read exactly if the queue holds data at
  that instant and that it can be written exactly if it has room, starting with an empty queue.
  As one of the two always holds, every round prints something and \<open>select\<close> never blocks: the
  program spins.
\<close>

theorem pollmonitor_reports:
  assumes "fifo_run mc ctu cfu S"
    and "dev (S 0) = snd (fst (globalfifo_unlocked_ioctl d FIFO_CLEAR))"
  shows "pollmonitor True d (\<lambda>_ t. dev (S t)) k =
      ([], Some (map (\<lambda>j. monitor_lines (dev (S j))) [0..<k])) \<and>
    monitor_lines (dev (S 0)) = [Can_be_written] \<and> (\<forall>j. monitor_lines (dev (S j)) \<noteq> [])"
proof -
  have "pollmonitor_rounds (\<lambda>t. dev (S t)) 0 k =
      Some (map (\<lambda>j. monitor_lines (dev (S (0 + j)))) [0..<k])"
    by (rule pollmonitor_rounds_ok) (rule fifo_run_len [OF assms(1)])
  moreover have "current_len (dev (S 0)) = 0"
    unfolding assms(2) by (simp add: globalfifo_unlocked_ioctl_def)
  ultimately show ?thesis
    by (auto simp: pollmonitor_def globalfifo_unlocked_ioctl_def Let_def monitor_lines_def)
qed

text \<open>Before the second round two tasks write one byte each.\<close>

lemma pollmonitor_reports_witness:
  "\<exists>S :: nat \<Rightarrow> u8 list fifo_sys. S 0 = fifo_sys0 \<and> unat (current_len (dev (S 1))) = 2 \<and>
     pollmonitor True globalfifo_dev0 (\<lambda>_ t. dev (S t)) 2 =
       ([], Some [[Can_be_written], [Can_be_read, Can_be_written]])"
proof -
  let ?step = "\<lambda>x y :: u8 list fifo_sys. \<exists>i r. fifo_step copy_down flat_out flat_in x i r y"
  obtain r s1 where w: "write_section flat_in [7] 0 1 (fifo_sys0 :: u8 list fifo_sys) = (r, s1)" by fastforce
  have 1: "?step fifo_sys0 (leave 1 s1)"
    using w by (intro exI [of _ "1 :: nat"] exI [of _ "Some r"] fifo_step.write_now)
      (simp_all add: fifo_sys0_def globalfifo_dev0_def GLOBALFIFO_SIZE_def)
  have d1: "dev (leave 1 s1) = dev_one" "phase (leave 1 s1) = (\<lambda>i. Outside)"
    using w by (auto simp: write_section_def write_one fifo_sys0_def wake_def leave_def)
  obtain q s2 where v: "write_section flat_in [8] 0 1 (leave 1 s1) = (q, s2)" by fastforce
  have 2: "?step (leave 1 s1) (leave 2 s2)"
    using v d1 by (intro exI [of _ "2 :: nat"] exI [of _ "Some q"] fifo_step.write_now)
      (simp_all add: dev_one_def GLOBALFIFO_SIZE_def)
  have "unat (current_len (dev (leave 2 s2))) = 2"
    using v d1 by (auto simp: write_section_def globalfifo_write_copy_def dev_one_def GLOBALFIFO_SIZE_def
        flat_in_def wake_def leave_def Let_def)
  then have len: "unat (current_len (dev (leave 2 s2))) = 2" "current_len (dev (leave 2 s2)) \<noteq> 0" by auto
  let ?S = "\<lambda>t :: nat. if t = 0 then fifo_sys0 else leave 2 s2"
  have "?step\<^sup>*\<^sup>* fifo_sys0 (leave 2 s2)" by (rule rtranclp.rtrancl_into_rtrancl [OF r_into_rtranclp [where r = ?step, OF 1] 2])
  then have "fifo_run copy_down flat_out flat_in ?S" by (simp add: fifo_run_def fifo_reach.start)
  moreover have "dev (?S 0) = snd (fst (globalfifo_unlocked_ioctl globalfifo_dev0 FIFO_CLEAR))"
    by (simp add: fifo_sys0_def globalfifo_dev0_def globalfifo_unlocked_ioctl_def)
  ultimately have "pollmonitor True globalfifo_dev0 (\<lambda>_ t. dev (?S t)) 2 =
      ([], Some (map (\<lambda>j. monitor_lines (dev (?S j))) [0..<2]))" "monitor_lines (dev (?S 0)) = [Can_be_written]"
    using pollmonitor_reports [of copy_down flat_out flat_in ?S globalfifo_dev0 2] by blast+
  moreover have "[0..<2] = [0, 1 :: nat]" by (simp add: upt_rec)
  ultimately show ?thesis
    using len by (intro exI [of _ ?S]) (simp add: monitor_lines_def)
qed

section \<open>The epoll monitor\<close>

text \<open>
  \<open>epoll_wait\<close> for readable data with \<open>k\<close> instants to go: whether an event was reported.
\<close>

fun epoll_wait_in :: "(nat \<Rightarrow> globalfifo_dev) \<Rightarrow> nat \<Rightarrow> nat \<Rightarrow> bool" where
  "epoll_wait_in D t 0 = fst (select_bits (D t))"
| "epoll_wait_in D t (Suc k) = (fst (select_bits (D t)) \<or> epoll_wait_in D (Suc t) k)"

text \<open>
  The program. The kernel's answers to \<open>epoll_create\<close> and the two \<open>epoll_ctl\<close> are parameters, as
  is the failure of \<open>epoll_wait\<close> (a negative number). An instant is a millisecond. The lines
  printed and the exit value.
\<close>

definition epollmonitor ::
  "bool \<Rightarrow> int \<Rightarrow> int \<Rightarrow> int option \<Rightarrow> int \<Rightarrow> globalfifo_dev \<Rightarrow> (globalfifo_dev \<Rightarrow> nat \<Rightarrow> globalfifo_dev) \<Rightarrow>
     monitor_line list \<times> int" where
  "epollmonitor open_ok epfd add_ret wait_fail del_ret d D =
     (if \<not> open_ok then ([Open_failed], 0)
      else
        let (r, d) = fst (globalfifo_unlocked_ioctl d FIFO_CLEAR);
            out = (case r of Inl e \<Rightarrow> [Ioctl_failed] | Inr _ \<Rightarrow> [])
        in
          if epfd < 0 then (out @ [Perror ''epoll_create()''], -1)
          else if add_ret < 0 then (out @ [Perror ''epoll_ctl()''], add_ret)
          else
            let err = (case wait_fail of
                         Some e \<Rightarrow> e
                       | None \<Rightarrow> if epoll_wait_in (D d) 0 15000 then 1 else 0);
                out = out @ (if err < 0 then [Perror ''epoll_wait'']
                             else if err = 0 then [No_data] else [Fifo_not_empty]);
                out = out @ (if del_ret < 0 then [Perror ''epoll_ctl()''] else [])
            in (out, 0))"

lemma epoll_wait_in_iff:
  "epoll_wait_in D t k \<longleftrightarrow> (\<exists>j\<le>k. fst (select_bits (D (t + j))))"
proof (induction k arbitrary: t)
  case (Suc k)
  have "(\<exists>j\<le>Suc k. P (t + j)) \<longleftrightarrow> P t \<or> (\<exists>j\<le>k. P (Suc t + j))" for P
    by (metis add_Suc_right add_Suc_shift add_0_right le0 not0_implies_Suc Suc_le_mono)
  from this [of "\<lambda>x. fst (select_bits (D x))"] show ?case using Suc.IH by simp
qed simp

text \<open>
  The epoll monitor says that the queue is not empty exactly if some task puts data into it
  within the fifteen seconds after the monitor has cleared it.
\<close>

theorem epollmonitor_reports:
  assumes "fifo_run mc ctu cfu S" "0 \<le> epfd" "0 \<le> add_ret" "0 \<le> del_ret"
  shows "epollmonitor True epfd add_ret None del_ret d (\<lambda>_ t. dev (S t)) =
    ([if \<exists>t\<le>15000. current_len (dev (S t)) \<noteq> 0 then Fifo_not_empty else No_data], 0)"
proof -
  have "fst (select_bits (dev (S t))) \<longleftrightarrow> current_len (dev (S t)) \<noteq> 0" for t
    by (simp add: select_bits_fifo [OF fifo_run_len [OF assms(1)]])
  then show ?thesis
    using assms(2-4)
    by (simp add: epollmonitor_def epoll_wait_in_iff globalfifo_unlocked_ioctl_def Let_def)
qed

lemma epollmonitor_reports_example:
  "epollmonitor True 4 0 None 0 globalfifo_dev0 (\<lambda>_ t. dev (fifo_sys0 :: u8 list fifo_sys)) =
     ([No_data], 0)"
proof -
  let ?S = "\<lambda>t :: nat. fifo_sys0 :: u8 list fifo_sys"
  have "fifo_run copy_up flat_out flat_in ?S" by (simp add: fifo_run_def fifo_reach.start)
  moreover have "current_len (dev (?S 0)) = 0"
    by (simp add: fifo_sys0_def globalfifo_dev0_def)
  ultimately show ?thesis
    using epollmonitor_reports [of copy_up flat_out flat_in ?S 4 0 0 globalfifo_dev0]
    by simp
qed

section \<open>The asynchronous monitor\<close>

text \<open>
  \<open>asyncmonitor\<close> sets the flag \<open>FASYNC\<close>, which calls \<open>globalfifo_fasync\<close> with mode 1, and then
  only sleeps; its handler prints a line for every \<open>SIGIO\<close> (29). The signals come from the
  writes of other tasks, given here as the calls made on the queue while the program runs; a
  call that would sleep returns \<open>EAGAIN\<close>.
\<close>

definition SIGIO :: int where "SIGIO = 29"

definition other_task :: open_file where
  "other_task = \<lparr>f_pos = 0, f_nonblock = True, private_data = Some 0\<rparr>"

fun signals_of ::
  "memcpy \<Rightarrow> 'u copy_out \<Rightarrow> 'u copy_in \<Rightarrow> 'u fifo_call list \<Rightarrow> globalfifo_dev \<Rightarrow>
     (nat \<times> globalfifo_dev) \<times> int result list" where
  "signals_of mc ctu cfu [] d = ((0, d), [])"
| "signals_of mc ctu cfu (Fifo_read us buf n # cs) d =
     (let ((r, d, us), evs, tr) = globalfifo_read mc ctu (\<lambda>d. (d, False)) other_task d us buf n
      in signals_of mc ctu cfu cs d)"
| "signals_of mc ctu cfu (Fifo_write us buf n # cs) d =
     (let ((r, d), evs, tr) = globalfifo_write cfu (\<lambda>d. (d, False)) other_task d us buf n;
          ((k, d), rs) = signals_of mc ctu cfu cs d
      in ((length (filter (\<lambda>e. e = Kill_fasync) evs) + k, d), r # rs))"

definition asyncmonitor ::
  "fasync_helper \<Rightarrow> memcpy \<Rightarrow> 'u copy_out \<Rightarrow> 'u copy_in \<Rightarrow> bool \<Rightarrow> int \<Rightarrow> nat \<Rightarrow> 'u fifo_call list \<Rightarrow>
     globalfifo_dev \<Rightarrow> monitor_line list" where
  "asyncmonitor helper mc ctu cfu open_ok fd filp cs d =
     (if \<not> open_ok then [Open_failed]
      else
        let (_, d) = globalfifo_fasync helper fd filp 1 d;
            ((k, _), _) = signals_of mc ctu cfu cs d
        in replicate k (Signal_received SIGIO))"

text \<open>The results of the writes among the calls.\<close>

definition write_results ::
  "memcpy \<Rightarrow> 'u copy_out \<Rightarrow> 'u copy_in \<Rightarrow> 'u fifo_call list \<Rightarrow> globalfifo_dev \<Rightarrow> int result list" where
  "write_results mc ctu cfu cs d = snd (signals_of mc ctu cfu cs d)"

lemma read_async_queue:
  "globalfifo_read mc ctu sleep other_task d us buf n = ((r, d', us'), evs, tr) \<Longrightarrow>
     async_queue d' = async_queue d"
  by (auto simp: globalfifo_read_def globalfifo_read_copy_def other_task_def Let_def
      split: if_splits prod.splits)

lemma write_signals:
  "globalfifo_write cfu sleep other_task d us buf n = ((r, d'), evs, tr) \<Longrightarrow> async_queue d \<noteq> [] \<Longrightarrow>
     async_queue d' = async_queue d \<and>
     length (filter (\<lambda>e. e = Kill_fasync) evs) = (case r of Inl e \<Rightarrow> 0 | Inr k \<Rightarrow> 1)"
  by (auto simp: globalfifo_write_def globalfifo_write_copy_def other_task_def Let_def
      split: if_splits prod.splits)

lemma signals_of_count:
  "async_queue d \<noteq> [] \<Longrightarrow>
     fst (fst (signals_of mc ctu cfu cs d)) =
       length (filter (\<lambda>r. \<exists>k. r = Inr k) (snd (signals_of mc ctu cfu cs d)))"
proof (induction cs arbitrary: d)
  case (Cons c cs)
  show ?case
  proof (cases c)
    case (Fifo_read us buf n)
    obtain r d' us' evs tr where
      r: "globalfifo_read mc ctu (\<lambda>d. (d, False)) other_task d us buf n = ((r, d', us'), evs, tr)"
      by (metis prod.exhaust)
    then show ?thesis
      using Cons.IH [of d'] read_async_queue [OF r] Cons.prems by (simp add: Fifo_read)
  next
    case (Fifo_write us buf n)
    obtain r d' evs tr where
      w: "globalfifo_write cfu (\<lambda>d. (d, False)) other_task d us buf n = ((r, d'), evs, tr)"
      by (metis prod.exhaust)
    show ?thesis
      using Cons.IH [of d'] write_signals [OF w Cons.prems] Cons.prems w
      by (auto simp: Fifo_write split_beta split: sum.splits)
  qed
qed simp

text \<open>
  The asynchronous monitor prints one line for every successful write of another task and
  none for failed writes and for reads, if \<open>fasync_helper\<close> has put the program's file on the
  queue.
\<close>

theorem asyncmonitor_counts_writes:
  assumes "snd (helper fd filp 1 (async_queue d)) \<noteq> []"
  shows "asyncmonitor helper mc ctu cfu True fd filp cs d =
    replicate (length (filter (\<lambda>r. \<exists>k. r = Inr k)
      (write_results mc ctu cfu cs (snd (globalfifo_fasync helper fd filp 1 d)))))
      (Signal_received 29)"
proof -
  have "async_queue (snd (globalfifo_fasync helper fd filp 1 d)) \<noteq> []"
    using assms by (simp add: globalfifo_fasync_def split_beta)
  from signals_of_count [OF this] show ?thesis
    by (simp add: asyncmonitor_def write_results_def SIGIO_def split_beta)
qed

definition sample_fasync :: fasync_helper where
  "sample_fasync fd filp mode q = (1, if mode = 0 then remove1 filp q else filp # q)"

lemma asyncmonitor_counts_writes_example:
  "asyncmonitor sample_fasync copy_up flat_out flat_in True 3 7
     [Fifo_write [1, 2] 0 2, Fifo_read [0] 0 1, Fifo_write [3] 1 1] globalfifo_dev0 =
   [Signal_received 29]"
  using asyncmonitor_counts_writes [of sample_fasync 3 7 globalfifo_dev0 copy_up flat_out flat_in
      "[Fifo_write [1, 2] 0 2, Fifo_read [0] 0 1, Fifo_write [3] 1 1]"]
  by (simp add: sample_fasync_def write_results_def globalfifo_fasync_def globalfifo_dev0_def
      globalfifo_write_def globalfifo_write_copy_def globalfifo_read_def globalfifo_read_copy_def
      GLOBALFIFO_SIZE_def other_task_def flat_in_def flat_out_def Let_def)

end
