(* ===== verification/User_Second.thy ===== *)
theory User_Second
  imports Second
begin

text \<open>
  The program \<open>src/second/second_test.c\<close>, which watches the seconds counter, composed with the
  driver. \<open>open\<close> succeeds, or is undefined when the device is open already.
\<close>

datatype second_line = File_open int | Loop_starts | Debug int int | Seconds int | Open_failure

text \<open>
  The first \<open>k\<close> rounds of the loop of \<open>second_test\<close>: the value of \<open>counter\<close> and
  \<open>old_counter\<close> are printed, the device is read into \<open>counter\<close>, a changed value is printed, and
  a second passes.
\<close>

fun second_test_rounds :: "nat \<Rightarrow> second_dev \<Rightarrow> int \<Rightarrow> int \<Rightarrow> second_line list" where
  "second_test_rounds 0 dev cnt old_cnt = []"
| "second_test_rounds (Suc k) dev cnt old_cnt =
     (let line = Debug cnt old_cnt;
          (r, us) = second_read (\<lambda>us a v. ([v], False)) dev [] 0 4 0;
          cnt = (case us of v # _ \<Rightarrow> sint v | [] \<Rightarrow> cnt);
          (out, old_cnt) = (if cnt \<noteq> old_cnt then ([Seconds cnt], cnt) else ([], old_cnt));
          dev = snd (second_session [Second_passes] dev)
      in line # out @ second_test_rounds k dev cnt old_cnt)"

text \<open>
  The program and the first \<open>k\<close> rounds of its loop; \<open>fd\<close> is what \<open>open\<close> returns, -1 when the
  device cannot be opened. \<open>None\<close> when opening is undefined because the device is open.
\<close>

definition second_test :: "int \<Rightarrow> nat \<Rightarrow> second_dev \<Rightarrow> second_line list option" where
  "second_test fd k dev =
     (if fd = -1 then Some [File_open fd, Open_failure]
      else case second_open dev of
          None \<Rightarrow> None
        | Some (_, dev) \<Rightarrow> Some ([File_open fd, Loop_starts] @ second_test_rounds k dev 0 0))"

lemma second_test_rounds_ok:
  assumes "s_armed dev" "counter dev = of_nat n" "n + k < 2 ^ 31"
  shows "second_test_rounds k dev (int (n - 1)) (int (n - 1)) =
    concat (map (\<lambda>j. Debug (int (j - 1)) (int (j - 1)) # (if j = 0 then [] else [Seconds (int j)]))
      [n..<n + k])"
  using assms
proof (induction k arbitrary: dev n)
  case (Suc k)
  let ?dev = "second_timer_handler (dev\<lparr>s_armed := False\<rparr>)"
  have armed: "s_armed ?dev" "counter ?dev = of_nat (n + 1)"
    using Suc.prems by (simp_all add: second_timer_handler_def handler_rearm_def handler_count_def)
  have n: "unat (of_nat n :: u32) = n"
    using Suc.prems(3) by (simp add: unsigned_of_nat take_bit_nat_eq_self)
  then have "sint (of_nat n :: u32) = int n" using sint_u32_small [of "of_nat n"] Suc.prems(3) by simp
  moreover have "[n..<n + Suc k] = n # [Suc n..<Suc n + k]" by (simp add: upt_conv_Cons)
  moreover have "int n \<noteq> int (n - 1) \<longleftrightarrow> n \<noteq> 0" by auto
  ultimately show ?case
    using Suc.IH [OF armed] Suc.prems
    by (auto simp: second_read_def Let_def simp del: of_nat_Suc upt_Suc)
qed simp

text \<open>
  The test program of the seconds counter, run for \<open>k\<close> rounds of a second, announces 1, 2, 3,
  ... in this order, each once, the last one \<open>k - 1\<close>.
\<close>

theorem second_test_prints:
  assumes "\<not> s_armed dev" "k < 2 ^ 31" "fd \<noteq> -1"
  shows "map_option (filter (\<lambda>l. \<exists>n. l = Seconds n)) (second_test fd k dev) =
    Some (map (\<lambda>n. Seconds (int n)) [1..<k])"
proof -
  let ?dev = "\<lparr>counter = 0, s_armed = True\<rparr>"
  have o: "second_open dev = Some (0, ?dev)" using assms(1) by (simp add: second_open_def)
  have "second_test_rounds k ?dev 0 0 = concat (map (\<lambda>j. Debug (int (j - 1)) (int (j - 1)) #
      (if j = 0 then [] else [Seconds (int j)])) [0..<k])"
    using second_test_rounds_ok [of ?dev 0 k] assms(2) by simp
  moreover have "filter (\<lambda>l. \<exists>n. l = Seconds n) (concat (map (\<lambda>j. Debug (int (j - 1)) (int (j - 1)) #
      (if j = 0 then [] else [Seconds (int j)])) js)) =
      map (\<lambda>n. Seconds (int n)) (filter (\<lambda>n. n \<noteq> 0) js)" for js
    by (induction js) auto
  moreover have "filter (\<lambda>n. n \<noteq> 0) [0..<k] = [1..<k]"
    by (cases k) (auto simp: upt_conv_Cons filter_id_conv simp del: upt_Suc)
  ultimately show ?thesis using o assms(3) by (simp add: second_test_def)
qed

lemma second_test_prints_example:
  "map_option (filter (\<lambda>l. \<exists>n. l = Seconds n)) (second_test 3 4 \<lparr>counter = 17, s_armed = False\<rparr>) =
    Some [Seconds 1, Seconds 2, Seconds 3]"
  using second_test_prints [of "\<lparr>counter = 17, s_armed = False\<rparr>" 4 3] by (simp add: upt_conv_Cons)

end
