(* ===== verification/Log_Modules.thy ===== *)
theory Log_Modules
  imports Kernel_Prelude
begin

text \<open>
  The modules that only print: \<open>src/hello\<close> and \<open>src/addrsniffer\<close> write to the kernel's log,
  \<open>src/procfs_rw\<close> provides a file under \<open>/proc\<close>.
\<close>

section \<open>hello and addrsniffer\<close>

text \<open>
  The lines of the log, with the values in them. \<open>hello_init\<close> prints its own address with
  \<open>%x\<close>, which takes an \<open>unsigned int\<close>: the lower half is what appears. \<open>%p\<close> prints an
  identifier the kernel derives from the pointer, the parameter \<open>ptr_id\<close>.
\<close>

datatype log_line =
    Loaded_at u32 u64 | Loaded_id u64 u64 | Greetings string | Init_task u64 string
  | Goodbye string | Unloaded_at u64

definition hello_init :: "string \<Rightarrow> u64 \<Rightarrow> u64 \<Rightarrow> u64 \<Rightarrow> string \<Rightarrow> int \<times> log_line list" where
  "hello_init name addr hello_init_addr init_task comm =
     (0, [Loaded_at (ucast hello_init_addr) addr, Greetings name, Init_task init_task comm])"

definition hello_exit :: "string \<Rightarrow> u64 \<Rightarrow> log_line list" where
  "hello_exit name hello_exit_addr = [Goodbye name, Unloaded_at hello_exit_addr]"

definition addrsniffer_init :: "(u64 \<Rightarrow> u64) \<Rightarrow> string \<Rightarrow> u64 \<Rightarrow> u64 \<Rightarrow> int \<times> log_line list" where
  "addrsniffer_init ptr_id name addr hello_init_addr =
     (0, [Loaded_id (ptr_id hello_init_addr) addr, Greetings name])"

definition addrsniffer_exit :: "(u64 \<Rightarrow> u64) \<Rightarrow> string \<Rightarrow> u64 \<Rightarrow> log_line list" where
  "addrsniffer_exit ptr_id name hello_exit_addr =
     [Goodbye name, Unloaded_at (ptr_id hello_exit_addr)]"

text \<open>The module parameters of the two modules, with their defaults.\<close>

record greeting_params =
  greeted :: string
  shown_addr :: u64

definition hello_params0 :: greeting_params where
  "hello_params0 = \<lparr>greeted = ''Bilbo'', shown_addr = 0x111\<rparr>"

definition addrsniffer_params0 :: greeting_params where
  "addrsniffer_params0 = \<lparr>greeted = ''Bilbo'', shown_addr = 0x0\<rparr>"

lemma default_greetings:
  "Greetings ''Bilbo'' \<in> set (snd (hello_init (greeted hello_params0) a b c d))"
  "Greetings ''Bilbo'' \<in> set (snd (addrsniffer_init f (greeted addrsniffer_params0) a b))"
  by (simp_all add: hello_init_def addrsniffer_init_def hello_params0_def addrsniffer_params0_def)

section \<open>procfs_rw\<close>

text \<open>
  The sequence file is the text printed into it. \<open>single_open\<close> and \<open>seq_read\<close> are the kernel's:
  the first stores the function that prints the file, the second delivers the text from the
  position on; the directory \<open>/proc\<close> is a map from names to the operations of the entries.
\<close>

definition procfs_rw_show :: "u8 list \<Rightarrow> u8 list \<times> int" where
  "procfs_rw_show seq =
     (seq @ [116, 104, 105, 115, 32, 105, 115, 32, 116, 101, 115, 116, 10], 0)"

definition procfs_rw_open :: "('f \<Rightarrow> (u8 list \<Rightarrow> u8 list \<times> int) \<Rightarrow> int \<times> 'f) \<Rightarrow> 'f \<Rightarrow> int \<times> 'f" where
  "procfs_rw_open single_open file = single_open file procfs_rw_show"

record 'f proc_ops =
  proc_open :: "('f \<Rightarrow> (u8 list \<Rightarrow> u8 list \<times> int) \<Rightarrow> int \<times> 'f) \<Rightarrow> 'f \<Rightarrow> int \<times> 'f"
  proc_read :: "nat \<Rightarrow> 'f \<Rightarrow> u8 list \<times> 'f"

definition proc_fops :: "(nat \<Rightarrow> 'f \<Rightarrow> u8 list \<times> 'f) \<Rightarrow> 'f proc_ops" where
  "proc_fops seq_read = \<lparr>proc_open = procfs_rw_open, proc_read = seq_read\<rparr>"

definition procfs_rw_init ::
  "(nat \<Rightarrow> 'f \<Rightarrow> u8 list \<times> 'f) \<Rightarrow> bool \<Rightarrow> (string \<rightharpoonup> 'f proc_ops) \<Rightarrow> int \<times> (string \<rightharpoonup> 'f proc_ops)" where
  "procfs_rw_init seq_read proc_create_ok entries =
     (let entries = (if proc_create_ok then entries(''procfs_rw'' \<mapsto> proc_fops seq_read) else entries)
      in (0, entries))"

definition procfs_rw_exit :: "(string \<rightharpoonup> 'f proc_ops) \<Rightarrow> (string \<rightharpoonup> 'f proc_ops)" where
  "procfs_rw_exit entries = entries(''procfs_rw'' := None)"

text \<open>An open sequence file, and the documented behaviour of the two kernel functions.\<close>

record seq_file =
  seq_show :: "u8 list \<Rightarrow> u8 list \<times> int"
  seq_pos :: nat

definition single_open :: "seq_file \<Rightarrow> (u8 list \<Rightarrow> u8 list \<times> int) \<Rightarrow> int \<times> seq_file" where
  "single_open f show_fn = (0, f\<lparr>seq_show := show_fn, seq_pos := 0\<rparr>)"

definition seq_read :: "nat \<Rightarrow> seq_file \<Rightarrow> u8 list \<times> seq_file" where
  "seq_read n f =
     (let got = take n (drop (seq_pos f) (fst (seq_show f [])))
      in (got, f\<lparr>seq_pos := seq_pos f + length got\<rparr>))"

text \<open>Reading an open file through the operations of its entry, in pieces of any lengths.\<close>

fun proc_reads :: "'f proc_ops \<Rightarrow> nat list \<Rightarrow> 'f \<Rightarrow> u8 list" where
  "proc_reads ops [] f = []"
| "proc_reads ops (n # ns) f = (let (got, f) = proc_read ops n f in got @ proc_reads ops ns f)"

lemma proc_fops_simps [simp]:
  "proc_open (proc_fops sr) = procfs_rw_open" "proc_read (proc_fops sr) = sr"
  by (simp_all add: proc_fops_def)

lemma proc_reads_take:
  "proc_reads (proc_fops seq_read) ns f = take (sum_list ns) (drop (seq_pos f) (fst (seq_show f [])))"
proof (induction ns arbitrary: f)
  case (Cons n ns)
  let ?t = "drop (seq_pos f) (fst (seq_show f []))"
  have "drop (length (take n ?t)) ?t = drop n ?t" by (cases "n \<le> length ?t") simp_all
  then have "drop (seq_pos f + length (take n ?t)) (fst (seq_show f [])) = drop n ?t"
    by (metis add.commute drop_drop)
  moreover have "seq_read n f = (take n ?t, f\<lparr>seq_pos := seq_pos f + length (take n ?t)\<rparr>)"
    by (simp add: seq_read_def Let_def)
  ultimately show ?case by (simp add: Cons.IH take_add)
qed simp

text \<open>
  Loading puts an entry into \<open>/proc\<close> through which a reader gets the text, however it divides its
  reads; loading and unloading leave every other entry alone, and no entry of this name remains.
\<close>

theorem procfs_rw_delivers:
  assumes "13 \<le> sum_list ns" "n \<noteq> ''procfs_rw''"
  shows "\<exists>ops. snd (procfs_rw_init seq_read True entries) ''procfs_rw'' = Some ops \<and>
      proc_reads ops ns (snd (proc_open ops single_open file)) =
        [116, 104, 105, 115, 32, 105, 115, 32, 116, 101, 115, 116, 10] \<and>
    (\<forall>ok. let entries' = procfs_rw_exit (snd (procfs_rw_init seq_read ok entries))
          in entries' ''procfs_rw'' = None \<and> entries' n = entries n)"
proof -
  have "proc_reads (proc_fops seq_read) ns (snd (proc_open (proc_fops seq_read) single_open file)) =
      [116, 104, 105, 115, 32, 105, 115, 32, 116, 101, 115, 116, 10]"
    using assms(1) unfolding proc_reads_take
    by (simp add: procfs_rw_open_def single_open_def procfs_rw_show_def)
  then show ?thesis using assms(2) by (simp add: procfs_rw_init_def procfs_rw_exit_def Let_def)
qed

end
