(* ===== verification/Intrsimulate.thy ===== *)
theory Intrsimulate
  imports Chrdev Locking
begin

text \<open>
  The skeleton of a driver \<open>src/intrsimulate/intrsimulate.c\<close>. The file does not compile (missing
  semicolons, names that are not declared); the model reads it with the evident corrections:
  \<open>intrsimulate_major\<close> is the variable \<open>intr_major\<close>. Every handler takes the mutex, does nothing
  and returns 0.
\<close>

section \<open>State\<close>

definition INTR_BUFSIZE :: nat where "INTR_BUFSIZE = 0x1000"

record intrsimulate_dev =
  intr_buf :: "u8 list"

record intrsimulate_module =
  intr_major :: int
  intr_devp :: "intrsimulate_dev option"

definition intrsimulate_module0 :: intrsimulate_module where
  "intrsimulate_module0 = \<lparr>intr_major = 300, intr_devp = None\<rparr>"

section \<open>Handlers\<close>

definition intrsimulate_open :: "open_file \<Rightarrow> int result \<times> open_file" where
  "intrsimulate_open filp = (Inr 0, filp\<lparr>private_data := Some 0\<rparr>)"

definition intrsimulate_release :: "int result" where
  "intrsimulate_release = Inr 0"

definition intrsimulate_ioctl :: "u32 \<Rightarrow> int result \<times> lock_event list" where
  "intrsimulate_ioctl cmd = (Inr 0, [Acquire] @ [Release])"

definition intrsimulate_read :: "'u \<Rightarrow> u64 \<Rightarrow> u64 \<Rightarrow> u64 \<Rightarrow> (int result \<times> u64 \<times> 'u) \<times> lock_event list" where
  "intrsimulate_read us buf sz ppos = ((Inr 0, ppos, us), [Acquire] @ [Release])"

definition intrsimulate_write :: "'u \<Rightarrow> u64 \<Rightarrow> u64 \<Rightarrow> u64 \<Rightarrow> (int result \<times> u64) \<times> lock_event list" where
  "intrsimulate_write us buf sz ppos = ((Inr 0, ppos), [Acquire] @ [Release])"

definition intrsimulate_llseek :: "u64 \<Rightarrow> u64 \<Rightarrow> int \<Rightarrow> int result \<times> u64" where
  "intrsimulate_llseek pos offset orig = (Inr 0, pos)"

definition intrsimulate_poll :: "u32 \<times> lock_event list" where
  "intrsimulate_poll = (let mask = 0 in (mask, [Acquire] @ [Release]))"

text \<open>The table: what a call on an open file does, with the new position and the user memory.\<close>

definition intrsimulate_fops ::
  "open_file \<Rightarrow> 'u vfs_call \<Rightarrow> (int result \<times> open_file \<times> 'u option) \<times> lock_event list" where
  "intrsimulate_fops filp c =
     (case c of
        Vfs_read us buf sz \<Rightarrow>
          (let ((r, pos, us), t) = intrsimulate_read us buf sz (f_pos filp)
           in ((r, filp\<lparr>f_pos := pos\<rparr>, Some us), t))
      | Vfs_write us buf sz \<Rightarrow>
          (let ((r, pos), t) = intrsimulate_write us buf sz (f_pos filp)
           in ((r, filp\<lparr>f_pos := pos\<rparr>, None), t))
      | Vfs_llseek off orig \<Rightarrow>
          (let (r, pos) = intrsimulate_llseek (f_pos filp) off orig
           in ((r, filp\<lparr>f_pos := pos\<rparr>, None), []))
      | Vfs_ioctl cmd \<Rightarrow> (let (r, t) = intrsimulate_ioctl cmd in ((r, filp, None), t)))"

section \<open>Loading and unloading\<close>

definition intrsimulate_init ::
  "kenv \<Rightarrow> intrsimulate_module \<Rightarrow> unit result \<times> intrsimulate_module \<times> kcall list" where
  "intrsimulate_init k m =
     (let devno = MKDEV (intr_major m) 0;
          (ret, devno, m, tr) =
            (if intr_major m \<noteq> 0 then
               (register_ret k, devno, m, [Register_chrdev_region devno 1 (register_ret k)])
             else
               (alloc_ret k, alloc_dev k, m\<lparr>intr_major := MAJOR (alloc_dev k)\<rparr>,
                [Alloc_chrdev_region 0 1 (alloc_ret k) (alloc_dev k)]))
      in
        if ret < 0 then (Inl (Code ret), m, tr)
        else if \<not> kmalloc_ok k then
          (Inl ENOMEM, m\<lparr>intr_devp := None\<rparr>,
           tr @ [Kmalloc 1 False, Unregister_chrdev_region devno 1])
        else
          let devno = MKDEV (intr_major m) 0
          in (Inr (), m\<lparr>intr_devp := Some \<lparr>intr_buf = replicate INTR_BUFSIZE 0\<rparr>\<rparr>,
              tr @ [Kmalloc 1 True, Cdev_init 0, Cdev_add 0 devno 1 (cdev_add_ret k 0), Init_MUTEX]))"

definition intrsimulate_exit :: "intrsimulate_module \<Rightarrow> kcall list" where
  "intrsimulate_exit m = [Cdev_del 0, Kfree, Unregister_chrdev_region (MKDEV (intr_major m) 0) 1]"

section \<open>The contracts\<close>

interpretation intr_load: chrdev_clean intrsimulate_init intrsimulate_exit intr_major 1
  by unfold_locales
    (auto simp: intrsimulate_init_def intrsimulate_exit_def Let_def kenv_ok_def numbers_def
      split: if_splits)

definition intrsimulate_traces :: "lock_event list set" where
  "intrsimulate_traces =
     {t. \<exists>filp c. t = snd (intrsimulate_fops filp c :: (_ \<times> open_file \<times> unit option) \<times> _)} \<union>
     {snd intrsimulate_poll}"

lemma intrsimulate_traces_shape: "t \<in> intrsimulate_traces \<Longrightarrow> t = [] \<or> t = [Acquire, Release]"
proof -
  have "snd (intrsimulate_fops filp c) \<in> {[], [Acquire, Release]}" for filp :: open_file and c :: "unit vfs_call"
    by (cases c) (simp_all add: intrsimulate_fops_def intrsimulate_read_def intrsimulate_write_def
      intrsimulate_llseek_def intrsimulate_ioctl_def)
  then show "t \<in> intrsimulate_traces \<Longrightarrow> t = [] \<or> t = [Acquire, Release]"
    by (auto simp: intrsimulate_traces_def intrsimulate_poll_def)
qed

interpretation intr_mutex: lock_client intrsimulate_traces
  by unfold_locales (auto dest: intrsimulate_traces_shape)

text \<open>
  A write consumes nothing, so a program that writes until its data are gone never gets there.
  \<open>write_all k\<close> is what is left after \<open>k\<close> attempts.
\<close>

fun write_all :: "nat \<Rightarrow> u8 list \<Rightarrow> open_file \<Rightarrow> u8 list" where
  "write_all 0 bs filp = bs"
| "write_all (Suc k) bs filp =
     (let ((r, filp, _), _) = intrsimulate_fops filp (Vfs_write bs 0 (of_nat (length bs)))
      in write_all k (case r of Inl e \<Rightarrow> bs | Inr n \<Rightarrow> drop (nat n) bs) filp)"

lemma intrsimulate_write_all: "write_all k bs filp = bs"
  by (induction k arbitrary: filp) (simp_all add: intrsimulate_fops_def intrsimulate_write_def)

end
