(* ===== verification/Atomicity.thy ===== *)
theory Atomicity
  imports Kernel_Prelude
begin

text \<open>
  Calls that are not atomic. A call works on the shared data in small steps, keeping what it has
  got so far in a local value; between two steps of one task any other task may move. A call
  either brackets its steps with the lock of the object or does not. The contract
  \<open>atomic_object\<close> asks that every call with steps uses the lock; then every run is explained by
  the calls executed one after another. The copies of the memory drivers are sequences of such
  steps, one byte each.
\<close>

section \<open>Calls in small steps\<close>

type_synonym ('m, 'l) micro = "'m \<times> 'l \<Rightarrow> 'm \<times> 'l"

text \<open>A call: what it is, whether it takes the lock, its first local value, its steps.\<close>

record ('c, 'm, 'l) call =
  c_op :: 'c
  c_locked :: bool
  c_local :: 'l
  c_steps :: "('m, 'l) micro list"

fun run_steps :: "('m, 'l) micro list \<Rightarrow> 'm \<times> 'l \<Rightarrow> 'm \<times> 'l" where
  "run_steps [] x = x"
| "run_steps (f # fs) x = run_steps fs (f x)"

lemma run_steps_append [simp]: "run_steps (fs @ gs) x = run_steps gs (run_steps fs x)"
  by (induction fs arbitrary: x) simp_all

text \<open>The call executed without interruption: the new data and the final local value.\<close>

definition run_call :: "('c, 'm, 'l) call \<Rightarrow> 'm \<Rightarrow> 'm \<times> 'l" where
  "run_call c m = run_steps (c_steps c) (m, c_local c)"

section \<open>Any number of tasks\<close>

datatype ('c, 'm, 'l) phase =
    Idle
  | Called "('c, 'm, 'l) call"
  | Inside "('c, 'm, 'l) call" "('m, 'l) micro list" 'l

text \<open>
  The shared data, the holder of the lock, what each task is doing, and the calls that have
  returned, in this order, each with its task and its final local value.
\<close>

record ('c, 'm, 'l) shared =
  sh_data :: 'm
  sh_owner :: "nat option"
  sh_phase :: "nat \<Rightarrow> ('c, 'm, 'l) phase"
  sh_log :: "(nat \<times> ('c, 'm, 'l) call \<times> 'l) list"

definition shared_init :: "'m \<Rightarrow> ('c, 'm, 'l) shared" where
  "shared_init m = \<lparr>sh_data = m, sh_owner = None, sh_phase = (\<lambda>i. Idle), sh_log = []\<rparr>"

inductive shared_step ::
  "('c, 'm, 'l) call set \<Rightarrow> ('c, 'm, 'l) shared \<Rightarrow> nat \<Rightarrow> ('c, 'm, 'l) shared \<Rightarrow> bool" for calls where
  begin_call: "sh_phase s i = Idle \<Longrightarrow> c \<in> calls \<Longrightarrow>
    shared_step calls s i (s\<lparr>sh_phase := (sh_phase s)(i := Called c)\<rparr>)"
| acquire: "sh_phase s i = Called c \<Longrightarrow> c_locked c \<Longrightarrow> sh_owner s = None \<Longrightarrow>
    shared_step calls s i (s\<lparr>sh_owner := Some i,
      sh_phase := (sh_phase s)(i := Inside c (c_steps c) (c_local c))\<rparr>)"
| enter: "sh_phase s i = Called c \<Longrightarrow> \<not> c_locked c \<Longrightarrow>
    shared_step calls s i (s\<lparr>sh_phase := (sh_phase s)(i := Inside c (c_steps c) (c_local c))\<rparr>)"
| micro: "sh_phase s i = Inside c (f # fs) l \<Longrightarrow> f (sh_data s, l) = (m, l') \<Longrightarrow>
    shared_step calls s i (s\<lparr>sh_data := m, sh_phase := (sh_phase s)(i := Inside c fs l')\<rparr>)"
| return: "sh_phase s i = Inside c [] l \<Longrightarrow>
    shared_step calls s i (s\<lparr>sh_owner := (if c_locked c then None else sh_owner s),
      sh_phase := (sh_phase s)(i := Idle), sh_log := sh_log s @ [(i, c, l)]\<rparr>)"

inductive_cases shared_stepE: "shared_step calls s i s'"

inductive shared_reach ::
  "('c, 'm, 'l) call set \<Rightarrow> ('c, 'm, 'l) shared \<Rightarrow> ('c, 'm, 'l) shared \<Rightarrow> bool" for calls s where
  refl: "shared_reach calls s s"
| step: "shared_reach calls s s' \<Longrightarrow> shared_step calls s' i s'' \<Longrightarrow> shared_reach calls s s''"

text \<open>
  Executing the calls of a log one after another, in its order: the data afterwards, provided
  each call ends with the local value the log has for it.
\<close>

fun serial :: "'m \<Rightarrow> (nat \<times> ('c, 'm, 'l) call \<times> 'l) list \<Rightarrow> 'm option" where
  "serial m [] = Some m"
| "serial m ((i, c, l) # cs) =
     (let (m', l') = run_call c m in if l' = l then serial m' cs else None)"

lemma serial_append: "serial m (cs @ ds) = Option.bind (serial m cs) (\<lambda>m'. serial m' ds)"
  by (induction m cs rule: serial.induct) (auto simp: Let_def split: prod.split)

text \<open>A task that is left alone with the lock free gets through its call.\<close>

lemma micro_steps:
  "shared_reach calls s0 s \<Longrightarrow> sh_phase s i = Inside c (fs @ gs) l \<Longrightarrow>
     run_steps fs (sh_data s, l) = (m, l') \<Longrightarrow>
     shared_reach calls s0 (s\<lparr>sh_data := m, sh_phase := (sh_phase s)(i := Inside c gs l')\<rparr>)"
proof (induction fs arbitrary: s l)
  case Nil
  then show ?case by (cases s) (auto simp: fun_upd_idem)
next
  case (Cons f fs)
  obtain m1 l1 where f: "f (sh_data s, l) = (m1, l1)" by fastforce
  let ?s = "s\<lparr>sh_data := m1, sh_phase := (sh_phase s)(i := Inside c (fs @ gs) l1)\<rparr>"
  have "shared_step calls s i ?s" using shared_step.micro [of s i c f "fs @ gs" l m1 l1] Cons.prems(2) f by simp
  then have "shared_reach calls s0 ?s" using Cons.prems(1) by (rule shared_reach.step [rotated])
  then have "shared_reach calls s0 (?s\<lparr>sh_data := m, sh_phase := (sh_phase ?s)(i := Inside c gs l')\<rparr>)"
    by (rule Cons.IH [where l = l1]) (use Cons.prems(3) f in simp_all)
  moreover have "?s\<lparr>sh_data := m, sh_phase := (sh_phase ?s)(i := Inside c gs l')\<rparr> =
      s\<lparr>sh_data := m, sh_phase := (sh_phase s)(i := Inside c gs l')\<rparr>"
    by (cases s) simp
  ultimately show ?case by (simp only:)
qed

lemma call_alone:
  assumes "shared_reach calls s0 s" "sh_phase s i = Idle" "sh_owner s = None" "c \<in> calls"
    and "run_call c (sh_data s) = (m, l)"
  shows "shared_reach calls s0 (s\<lparr>sh_data := m, sh_log := sh_log s @ [(i, c, l)]\<rparr>)"
proof -
  let ?s1 = "s\<lparr>sh_phase := (sh_phase s)(i := Called c)\<rparr>"
  let ?s2 = "?s1\<lparr>sh_owner := (if c_locked c then Some i else None),
      sh_phase := (sh_phase ?s1)(i := Inside c (c_steps c) (c_local c))\<rparr>"
  have "shared_step calls s i ?s1" using assms by (intro shared_step.begin_call) simp_all
  then have r1: "shared_reach calls s0 ?s1" using assms(1) by (rule shared_reach.step [rotated])
  have "shared_step calls ?s1 i ?s2"
  proof (cases "c_locked c")
    case True
    from shared_step.acquire [of ?s1 i c calls] True assms(3) show ?thesis by simp
  next
    case False
    from shared_step.enter [of ?s1 i c calls] False assms(3) show ?thesis by (cases s) simp
  qed
  with r1 have r2: "shared_reach calls s0 ?s2" by (rule shared_reach.step)
  let ?s3 = "?s2\<lparr>sh_data := m, sh_phase := (sh_phase ?s2)(i := Inside c [] l)\<rparr>"
  have "shared_reach calls s0 ?s3"
    by (rule micro_steps [OF r2, of i c "c_steps c" "[]" "c_local c"])
       (use assms(5) in \<open>simp_all add: run_call_def\<close>)
  moreover have "shared_step calls ?s3 i (?s3\<lparr>sh_owner := (if c_locked c then None else sh_owner ?s3),
      sh_phase := (sh_phase ?s3)(i := Idle), sh_log := sh_log ?s3 @ [(i, c, l)]\<rparr>)"
    by (rule shared_step.return) simp
  ultimately have "shared_reach calls s0 (?s3\<lparr>sh_owner := (if c_locked c then None else sh_owner ?s3),
      sh_phase := (sh_phase ?s3)(i := Idle), sh_log := sh_log ?s3 @ [(i, c, l)]\<rparr>)"
    by (rule shared_reach.step)
  moreover have "(?s3\<lparr>sh_owner := (if c_locked c then None else sh_owner ?s3),
      sh_phase := (sh_phase ?s3)(i := Idle), sh_log := sh_log ?s3 @ [(i, c, l)]\<rparr>) =
      s\<lparr>sh_data := m, sh_log := sh_log s @ [(i, c, l)]\<rparr>"
    using assms(2,3) by (cases s) (simp add: fun_upd_idem)
  ultimately show ?thesis by simp
qed

section \<open>A lock that may not have been initialised\<close>

text \<open>
  A mutex must be initialised with \<open>mutex_init\<close> before it is used; taking one that was only set to
  zero is undefined (\<open>None\<close>). \<open>ready\<close> says whether the lock was initialised.
\<close>

definition locking :: "('c, 'm, 'l) shared \<Rightarrow> nat \<Rightarrow> bool" where
  "locking s i \<longleftrightarrow> (\<exists>c. sh_phase s i = Called c \<and> c_locked c)"

inductive mutex_reach ::
  "bool \<Rightarrow> ('c, 'm, 'l) call set \<Rightarrow> 'm \<Rightarrow> ('c, 'm, 'l) shared option \<Rightarrow> bool" for ready calls m where
  start: "mutex_reach ready calls m (Some (shared_init m))"
| step: "mutex_reach ready calls m (Some s) \<Longrightarrow> shared_step calls s i s' \<Longrightarrow> ready \<or> \<not> locking s i \<Longrightarrow>
    mutex_reach ready calls m (Some s')"
| undef: "mutex_reach ready calls m (Some s) \<Longrightarrow> locking s i \<Longrightarrow> \<not> ready \<Longrightarrow> mutex_reach ready calls m None"

lemma mutex_reach_shared:
  "mutex_reach ready calls m x \<Longrightarrow> ready \<Longrightarrow> \<exists>s. x = Some s \<and> shared_reach calls (shared_init m) s"
  by (induction rule: mutex_reach.induct) (auto intro: shared_reach.intros)

lemma mutex_reach_ready:
  "shared_reach calls (shared_init m) s \<Longrightarrow> mutex_reach True calls m (Some s)"
  by (induction rule: shared_reach.induct) (auto intro: mutex_reach.intros)

text \<open>Without initialisation any locked call leads to \<open>None\<close>.\<close>

lemma mutex_undefined:
  assumes "\<not> ready" "c \<in> calls" "c_locked c"
  shows "mutex_reach ready calls m None"
proof (rule mutex_reach.undef)
  let ?s = "(shared_init m)\<lparr>sh_phase := (sh_phase (shared_init m))(0 := Called c)\<rparr>"
  show "mutex_reach ready calls m (Some ?s)"
    using assms by (intro mutex_reach.step [OF mutex_reach.start, where i = 0] shared_step.begin_call)
      (auto simp: shared_init_def locking_def)
  show "locking ?s 0" using assms(3) by (simp add: locking_def)
qed (rule assms(1))

section \<open>Objects whose calls use the lock\<close>

text \<open>
  What a task may be doing: a locked call runs only with the lock held, an unlocked one has no
  steps.
\<close>

fun phase_ok :: "('c, 'm, 'l) call set \<Rightarrow> bool \<Rightarrow> ('c, 'm, 'l) phase \<Rightarrow> bool" where
  "phase_ok calls own Idle \<longleftrightarrow> \<not> own"
| "phase_ok calls own (Called c) \<longleftrightarrow> \<not> own \<and> c \<in> calls"
| "phase_ok calls own (Inside c fs l) \<longleftrightarrow> c \<in> calls \<and>
     (if c_locked c then own else \<not> own \<and> fs = [] \<and> l = c_local c)"

text \<open>The data as the calls that have returned leave it: the holder's steps are undone.\<close>

definition settled :: "('c, 'm, 'l) shared \<Rightarrow> 'm \<Rightarrow> bool" where
  "settled s m \<longleftrightarrow>
     (case sh_owner s of
        None \<Rightarrow> sh_data s = m
      | Some i \<Rightarrow> \<exists>c fs l. sh_phase s i = Inside c fs l \<and> c_locked c \<and>
          run_steps fs (sh_data s, l) = run_call c m)"

definition explained :: "('c, 'm, 'l) call set \<Rightarrow> 'm \<Rightarrow> ('c, 'm, 'l) shared \<Rightarrow> bool" where
  "explained calls m0 s \<longleftrightarrow>
     (\<forall>i. phase_ok calls (sh_owner s = Some i) (sh_phase s i)) \<and>
     (\<exists>m. serial m0 (sh_log s) = Some m \<and> settled s m)"

lemma settled_free: "sh_owner s = None \<Longrightarrow> settled s m \<longleftrightarrow> sh_data s = m"
  by (simp add: settled_def)

lemma settled_held:
  "sh_owner s = Some i \<Longrightarrow> settled s m \<longleftrightarrow> (\<exists>c fs l. sh_phase s i = Inside c fs l \<and> c_locked c \<and>
     run_steps fs (sh_data s, l) = run_call c m)"
  by (simp add: settled_def)

lemma explainedI:
  assumes "\<And>i. phase_ok calls (sh_owner s = Some i) (sh_phase s i)"
    and "serial m0 (sh_log s) = Some m" "settled s m"
  shows "explained calls m0 s"
  using assms by (auto simp: explained_def)

locale atomic_object =
  fixes calls :: "('c, 'm, 'l) call set"
  assumes locked_or_empty: "c \<in> calls \<Longrightarrow> c_locked c \<or> c_steps c = []"
begin

lemma step_explained:
  assumes st: "shared_step calls s i s'" and ex: "explained calls m0 s"
  shows "explained calls m0 s'"
proof -
  have ph: "phase_ok calls (sh_owner s = Some j) (sh_phase s j)" for j
    using ex by (simp add: explained_def)
  obtain m where m: "serial m0 (sh_log s) = Some m" "settled s m"
    using ex by (auto simp: explained_def)
  from st show ?thesis
  proof cases
    case (begin_call c)
    then have "settled s' m" using m(2) by (auto simp: settled_def split: option.splits)
    then show ?thesis using begin_call ph [of i] ph m(1) by (intro explainedI [of _ _ _ m]) auto
  next
    case (acquire c)
    then have "settled s' m" using m(2) by (simp add: settled_def run_call_def)
    then show ?thesis using acquire ph [of i] ph m(1) by (intro explainedI [of _ _ _ m]) auto
  next
    case (enter c)
    then have "c_steps c = []" using ph [of i] locked_or_empty by auto
    moreover have "settled s' m" using enter m(2) by (auto simp: settled_def split: option.splits)
    ultimately show ?thesis using enter ph [of i] ph m(1) by (intro explainedI [of _ _ _ m]) auto
  next
    case (micro c f fs l d l')
    then have own: "c_locked c" "sh_owner s = Some i" using ph [of i] by (auto split: if_splits)
    then have "run_steps fs (d, l') = run_call c m" using m(2) micro by (simp add: settled_held)
    then have "settled s' m" using own micro by (simp add: settled_def)
    moreover have "phase_ok calls False (sh_phase s j)" if "j \<noteq> i" for j
      using own that ph [of j] by simp
    ultimately show ?thesis using micro own ph [of i] m(1) by (intro explainedI [of _ _ _ m]) auto
  next
    case (return c l)
    show ?thesis
    proof (cases "c_locked c")
      case True
      then have own: "sh_owner s = Some i" using return ph [of i] by auto
      then have "run_call c m = (sh_data s, l)" using m(2) return by (simp add: settled_held)
      moreover have "phase_ok calls False (sh_phase s j)" if "j \<noteq> i" for j
        using own that ph [of j] by simp
      ultimately show ?thesis using return True m(1)
        by (intro explainedI [of _ _ _ "sh_data s"]) (auto simp: serial_append settled_free)
    next
      case False
      then have "sh_owner s \<noteq> Some i" "run_call c m = (m, l)"
        using return ph [of i] locked_or_empty [of c] by (auto simp: run_call_def)
      moreover from this have "settled s' m"
        using return False m(2) by (auto simp: settled_def split: option.splits)
      ultimately show ?thesis using return False ph m(1)
        by (intro explainedI [of _ _ _ m]) (auto simp: serial_append)
    qed
  qed
qed

lemma reach_explained:
  "shared_reach calls (shared_init m0) s \<Longrightarrow> explained calls m0 s"
proof (induction rule: shared_reach.induct)
  case refl
  show ?case by (simp add: explained_def settled_def shared_init_def)
next
  case (step s' i s'')
  then show ?case using step_explained by blast
qed

text \<open>Whenever nobody holds the lock, the data are what the calls so far made of them in turn.\<close>

lemma serializable:
  "shared_reach calls (shared_init m0) s \<Longrightarrow> sh_owner s = None \<Longrightarrow>
     serial m0 (sh_log s) = Some (sh_data s)"
  by (drule reach_explained) (auto simp: explained_def settled_free)

lemma results_serial:
  "shared_reach calls (shared_init m0) s \<Longrightarrow> serial m0 (sh_log s) \<noteq> None"
  by (drule reach_explained) (auto simp: explained_def)

lemma logged_calls:
  "shared_reach calls (shared_init m0) s \<Longrightarrow> (i, c, l) \<in> set (sh_log s) \<Longrightarrow> c \<in> calls"
proof (induction rule: shared_reach.induct)
  case (step s' j s'')
  have "phase_ok calls (sh_owner s' = Some j) (sh_phase s' j)"
    using reach_explained [OF step.hyps(1)] by (simp add: explained_def)
  with step.hyps(2) show ?case using step.IH step.prems by cases auto
qed (simp add: shared_init_def)

text \<open>As long as some call is unfinished, some task can move.\<close>

lemma progress:
  assumes "shared_reach calls (shared_init m0) s" "sh_phase s i \<noteq> Idle"
  shows "\<exists>j s'. sh_phase s j \<noteq> Idle \<and> shared_step calls s j s'"
proof -
  have ph: "phase_ok calls (sh_owner s = Some j) (sh_phase s j)" for j
    using reach_explained [OF assms(1)] by (simp add: explained_def)
  have run: "\<exists>s'. shared_step calls s j s'" if "sh_phase s j = Inside c fs l" for j c fs l
  proof (cases fs)
    case Nil
    then show ?thesis using shared_step.return [of s j c l calls] that by blast
  next
    case (Cons f gs)
    obtain m l' where "f (sh_data s, l) = (m, l')" by fastforce
    then show ?thesis using shared_step.micro [of s j c f gs l m l' calls] that Cons by blast
  qed
  show ?thesis
  proof (cases "sh_owner s")
    case (Some j)
    then obtain c fs l where "sh_phase s j = Inside c fs l" using ph [of j] by (cases "sh_phase s j") auto
    then show ?thesis using run by (metis phase.distinct(3))
  next
    case None
    show ?thesis
    proof (cases "sh_phase s i")
      case (Called c)
      then show ?thesis
        using None shared_step.acquire [of s i c calls] shared_step.enter [of s i c calls] assms(2) by metis
    next
      case (Inside c fs l)
      then show ?thesis using run assms(2) by metis
    qed (use assms(2) in simp)
  qed
qed

end

section \<open>Copying byte by byte\<close>

text \<open>
  The steps of a copy from the array to the user (the local value holds the bytes delivered so
  far), of one into the array, and of clearing it.
\<close>

definition out_steps :: "nat \<Rightarrow> nat \<Rightarrow> (u8 list, u8 list) micro list" where
  "out_steps p n = map (\<lambda>k (m, l). (m, l @ [m ! (p + k)])) [0..<n]"

definition in_steps :: "nat \<Rightarrow> u8 list \<Rightarrow> (u8 list, u8 list) micro list" where
  "in_steps p bs = map (\<lambda>k (m, l). (m[p + k := bs ! k], l)) [0..<length bs]"

lemma run_out_steps:
  assumes "p + n \<le> length m"
  shows "run_steps (out_steps p n) (m, l) = (m, l @ get_bytes m p n)"
  using assms
proof (induction n)
  case (Suc n)
  then have "get_bytes m p (Suc n) = get_bytes m p n @ [m ! (p + n)]"
    by (simp add: get_bytes_def take_Suc_conv_app_nth)
  then show ?case using Suc by (simp add: out_steps_def)
qed (simp add: out_steps_def get_bytes_def)

lemma put_bytes_snoc:
  "p + length bs < length m \<Longrightarrow> put_bytes m p (bs @ [b]) = (put_bytes m p bs)[p + length bs := b]"
  by (intro nth_equalityI) (auto simp: byte_simps nth_put_bytes nth_list_update nth_append)

lemma run_in_steps:
  assumes "p + length bs \<le> length m"
  shows "run_steps (in_steps p bs) (m, l) = (put_bytes m p bs, l)"
proof -
  have "run_steps (map (\<lambda>k (m, l). (m[p + k := bs ! k], l)) [0..<n]) (m, l) =
      (put_bytes m p (take n bs), l)" if "n \<le> length bs" for n
    using that
  proof (induction n)
    case (Suc n)
    then have "take (Suc n) bs = take n bs @ [bs ! n]" by (simp add: take_Suc_conv_app_nth)
    then show ?case using Suc assms put_bytes_snoc [of p "take n bs" m "bs ! n"] by simp
  qed (simp add: byte_simps)
  from this [of "length bs"] show ?thesis by (simp add: in_steps_def)
qed

end
