(* ===== verification/Globalmem_Conc.thy ===== *)
theory Globalmem_Conc
  imports Atomicity Globalmem Globalmem_Lock
begin

text \<open>
  The two memory drivers with the copies made byte by byte, called by any number of tasks, each
  with a file and user memory of its own. The locked driver holds its mutex while it copies and
  serialises all calls; the other one has no lock, and a read can return bytes from before and
  from after a write.
\<close>

section \<open>Calls and their steps\<close>

datatype 'u mem_op =
    Op_read 'u u64 u64 u64
  | Op_write 'u u64 u64 u64
  | Op_ioctl u32

text \<open>A reply: the return value, the new position, the user memory after a read.\<close>

type_synonym 'u mem_reply = "int result \<times> u64 option \<times> 'u option"

text \<open>
  A call of a driver of size \<open>lim\<close>: past the guards it copies, under the lock or not; the local
  value is what a read has copied so far. The bytes a write stores are those \<open>copy_from_user\<close>
  delivers.
\<close>

fun mem_call :: "bool \<Rightarrow> u64 \<Rightarrow> u32 \<Rightarrow> 'u copy_in \<Rightarrow> 'u mem_op \<Rightarrow>
    ('u mem_op, u8 list, u8 list) call" where
  "mem_call lk lim clear_cmd cfu (Op_read us buf sz pos) =
     (if pos \<ge> lim
      then \<lparr>c_op = Op_read us buf sz pos, c_locked = False, c_local = [], c_steps = []\<rparr>
      else \<lparr>c_op = Op_read us buf sz pos, c_locked = lk, c_local = [],
        c_steps = out_steps (unat pos) (unat (clip_count lim pos (ucast sz)))\<rparr>)"
| "mem_call lk lim clear_cmd cfu (Op_write us buf sz pos) =
     (if pos \<ge> lim
      then \<lparr>c_op = Op_write us buf sz pos, c_locked = False, c_local = [], c_steps = []\<rparr>
      else \<lparr>c_op = Op_write us buf sz pos, c_locked = lk, c_local = [],
        c_steps = in_steps (unat pos) (fst (cfu us buf (unat (clip_count lim pos (ucast sz)))))\<rparr>)"
| "mem_call lk lim clear_cmd cfu (Op_ioctl cmd) =
     (if cmd = clear_cmd
      then \<lparr>c_op = Op_ioctl cmd, c_locked = lk, c_local = [],
        c_steps = in_steps 0 (replicate (unat lim) 0)\<rparr>
      else \<lparr>c_op = Op_ioctl cmd, c_locked = False, c_local = [], c_steps = []\<rparr>)"

text \<open>What the call returns when its copy has delivered \<open>got\<close>.\<close>

fun mem_reply :: "u64 \<Rightarrow> u32 \<Rightarrow> 'u copy_out \<Rightarrow> 'u copy_in \<Rightarrow> 'u mem_op \<Rightarrow> u8 list \<Rightarrow> 'u mem_reply" where
  "mem_reply lim clear_cmd ctu cfu (Op_read us buf sz pos) got =
     (if pos \<ge> lim then (if (ucast sz :: u32) \<noteq> 0 then Inl ENXIO else Inr 0, Some pos, Some us)
      else let count = clip_count lim pos (ucast sz); (us, left) = ctu us buf got
           in if left \<noteq> 0 then (Inl EFAULT, Some pos, Some us)
              else (Inr (sint count), Some (pos + ucast count), Some us))"
| "mem_reply lim clear_cmd ctu cfu (Op_write us buf sz pos) got =
     (if pos \<ge> lim then (if (ucast sz :: u32) \<noteq> 0 then Inl ENXIO else Inr 0, Some pos, None)
      else let count = clip_count lim pos (ucast sz); (bs, left) = cfu us buf (unat count)
           in if left \<noteq> 0 then (Inl EFAULT, Some pos, None)
              else (Inr (sint count), Some (pos + ucast count), None))"
| "mem_reply lim clear_cmd ctu cfu (Op_ioctl cmd) got =
     (if cmd = clear_cmd then Inr 0 else Inl EINVAL, None, None)"

text \<open>The call as the handler executes it when nobody interferes.\<close>

fun mem_exec :: "u64 \<Rightarrow> u32 \<Rightarrow> 'u copy_out \<Rightarrow> 'u copy_in \<Rightarrow> u8 list \<Rightarrow> 'u mem_op \<Rightarrow>
    'u mem_reply \<times> u8 list" where
  "mem_exec lim clear_cmd ctu cfu m (Op_read us buf sz pos) =
     (let (r, pos, us) = read_code lim ctu m us buf sz pos in ((r, Some pos, Some us), m))"
| "mem_exec lim clear_cmd ctu cfu m (Op_write us buf sz pos) =
     (let (r, pos, m) = write_code lim cfu m us buf sz pos in ((r, Some pos, None), m))"
| "mem_exec lim clear_cmd ctu cfu m (Op_ioctl cmd) =
     (if cmd = clear_cmd then ((Inr 0, None, None), replicate (unat lim) 0)
      else ((Inl EINVAL, None, None), m))"

lemma c_op_mem_call [simp]: "c_op (mem_call lk lim clear_cmd cfu op) = op"
  by (cases op) simp_all

lemma mem_call_locked: "c_locked (mem_call True lim clr cfu op) \<or> c_steps (mem_call True lim clr cfu op) = []"
  by (cases op) simp_all

lemma mem_call_exec:
  assumes "copy_in_fills cfu" "length m = unat lim" "unat lim < 2 ^ 31"
    and "run_call (mem_call lk lim clr cfu op) m = (m', got)"
  shows "mem_exec lim clr ctu cfu m op = (mem_reply lim clr ctu cfu op got, m') \<and> length m' = unat lim"
proof (cases op)
  case (Op_read us buf sz pos)
  show ?thesis
  proof (cases "pos \<ge> lim")
    case True
    then show ?thesis using assms Op_read by (simp add: run_call_def read_code_def)
  next
    case False
    let ?n = "unat (clip_count lim pos (ucast sz))"
    have "unat pos + ?n \<le> length m"
      using clip_facts(1) [of pos lim "ucast sz"] False assms(2,3) by (simp add: word_less_nat_alt not_le)
    from run_out_steps [OF this, of "[]"] show ?thesis
      using False Op_read assms(2,4) by (auto simp: run_call_def read_code_def Let_def split: prod.splits)
  qed
next
  case (Op_write us buf sz pos)
  show ?thesis
  proof (cases "pos \<ge> lim")
    case True
    then show ?thesis using assms Op_write by (simp add: run_call_def write_code_def)
  next
    case False
    let ?n = "unat (clip_count lim pos (ucast sz))"
    obtain bs left where b: "cfu us buf ?n = (bs, left)" by fastforce
    then have "length bs = ?n" using assms(1) by (rule copy_in_fillsD [rotated])
    then have l: "unat pos + length bs \<le> length m"
      using clip_facts(1) [of pos lim "ucast sz"] False assms(2,3) by (simp add: word_less_nat_alt not_le)
    from run_in_steps [OF this, of "[]"] length_put_bytes [OF this] show ?thesis
      using False Op_write assms(2,4) b by (auto simp: run_call_def write_code_def Let_def)
  qed
next
  case (Op_ioctl cmd)
  have "put_bytes m 0 (replicate (unat lim) 0) = replicate (unat lim) 0"
    using assms(2) by (simp add: put_bytes_def)
  then show ?thesis
    using run_in_steps [of 0 "replicate (unat lim) 0" m "[]"] Op_ioctl assms(2,4)
    by (auto simp: run_call_def split: if_splits)
qed

fun mem_execs :: "('m \<Rightarrow> 'o \<Rightarrow> 'r \<times> 'm) \<Rightarrow> 'm \<Rightarrow> 'o list \<Rightarrow> 'r list \<times> 'm" where
  "mem_execs ex m [] = ([], m)"
| "mem_execs ex m (op # ops) =
     (let (r, m) = ex m op; (rs, m) = mem_execs ex m ops in (r # rs, m))"

lemma serial_execs:
  assumes "serial m log = Some m'"
    and "\<And>i c got. (i, c, got) \<in> set log \<Longrightarrow> \<exists>op. c = mem_call lk lim clr cfu op"
    and "copy_in_fills cfu" "length m = unat lim" "unat lim < 2 ^ 31"
  shows "mem_execs (mem_exec lim clr ctu cfu) m (map (\<lambda>(i, c, got). c_op c) log) =
    (map (\<lambda>(i, c, got). mem_reply lim clr ctu cfu (c_op c) got) log, m')"
  using assms
proof (induction log arbitrary: m)
  case (Cons e log)
  obtain i op got where e: "e = (i, mem_call lk lim clr cfu op, got)"
    using Cons.prems(2) by (metis list.set_intros(1) prod_cases3)
  obtain m1 where m1: "run_call (mem_call lk lim clr cfu op) m = (m1, got)" "serial m1 log = Some m'"
    using Cons.prems(1) e by (auto simp: Let_def split: prod.splits if_splits)
  note x = mem_call_exec [OF Cons.prems(3,4,5) m1(1), of ctu]
  have "mem_execs (mem_exec lim clr ctu cfu) m1 (map (\<lambda>(i, c, got). c_op c) log) =
      (map (\<lambda>(i, c, got). mem_reply lim clr ctu cfu (c_op c) got) log, m')"
    using Cons.prems(2) x by (intro Cons.IH [OF m1(2) _ Cons.prems(3) _ Cons.prems(5)]) auto
  then show ?case using x e by simp
qed simp

section \<open>The locked driver\<close>

text \<open>Calls of \<open>globalmem_lock\<close> take the mutex around their copy.\<close>

definition globalmem_lock_call :: "'u copy_in \<Rightarrow> 'u mem_op \<Rightarrow> ('u mem_op, u8 list, u8 list) call" where
  "globalmem_lock_call cfu op = mem_call True GLOBALMEM_LOCK_SIZE LOCK_MEM_CLEAR cfu op"

text \<open>The handlers, one call at a time.\<close>

fun globalmem_lock_exec ::
  "timespec \<times> timespec \<Rightarrow> 'u copy_out \<Rightarrow> 'u copy_in \<Rightarrow> globalmem_lock_dev \<Rightarrow> 'u mem_op \<Rightarrow>
     'u mem_reply \<times> globalmem_lock_dev" where
  "globalmem_lock_exec clk ctu cfu d (Op_read us buf sz pos) =
     (let (r, pos, us) = fst (globalmem_lock_read clk ctu d us buf sz pos)
      in ((r, Some pos, Some us), d))"
| "globalmem_lock_exec clk ctu cfu d (Op_write us buf sz pos) =
     (let (r, pos, d) = fst (globalmem_lock_write clk cfu d us buf sz pos)
      in ((r, Some pos, None), d))"
| "globalmem_lock_exec clk ctu cfu d (Op_ioctl cmd) =
     (let (r, d) = fst (globalmem_lock_ioctl d cmd) in ((r, None, None), d))"

lemma globalmem_lock_exec_code:
  "globalmem_lock_exec clk ctu cfu d op =
     map_prod id (\<lambda>m. d\<lparr>lock_mem := m\<rparr>)
       (mem_exec GLOBALMEM_LOCK_SIZE LOCK_MEM_CLEAR ctu cfu (lock_mem d) op)"
  by (cases op)
     (simp_all add: globalmem_lock_read_code globalmem_lock_write_code globalmem_lock_ioctl_def
       split: prod.split)

interpretation gl_atomic: atomic_object "range (globalmem_lock_call cfu)" for cfu
  using mem_call_locked by unfold_locales (auto simp: globalmem_lock_call_def)

lemma lock_execs_code:
  "mem_execs (globalmem_lock_exec clk ctu cfu) d ops =
     map_prod id (\<lambda>m. d\<lparr>lock_mem := m\<rparr>)
       (mem_execs (mem_exec GLOBALMEM_LOCK_SIZE LOCK_MEM_CLEAR ctu cfu) (lock_mem d) ops)"
  by (induction ops arbitrary: d) (simp_all add: globalmem_lock_exec_code Let_def split_beta)

text \<open>What the tasks of a run were told, in the order in which their calls returned.\<close>

definition lock_replies :: "'u copy_out \<Rightarrow> 'u copy_in \<Rightarrow>
    ('u mem_op, u8 list, u8 list) shared \<Rightarrow> 'u mem_reply list" where
  "lock_replies ctu cfu s =
     map (\<lambda>(i, c, got). mem_reply GLOBALMEM_LOCK_SIZE LOCK_MEM_CLEAR ctu cfu (c_op c) got) (sh_log s)"

text \<open>Whether the module has initialised its mutex by the end of loading.\<close>

definition mutex_initialised :: "kcall list \<Rightarrow> bool" where
  "mutex_initialised tr \<longleftrightarrow> Init_MUTEX \<in> set tr"

lemma lock_calls_serial:
  assumes "copy_in_fills cfu" "length (lock_mem d) = 4096"
    and "shared_reach (range (globalmem_lock_call cfu)) (shared_init (lock_mem d)) s"
    and "sh_owner s = None"
  shows "mem_execs (globalmem_lock_exec clk ctu cfu) d (map (\<lambda>(i, c, got). c_op c) (sh_log s)) =
    (lock_replies ctu cfu s, d\<lparr>lock_mem := sh_data s\<rparr>)"
proof -
  have "serial (lock_mem d) (sh_log s) = Some (sh_data s)"
    by (rule gl_atomic.serializable [OF assms(3,4)])
  moreover have "\<exists>op. c = mem_call True GLOBALMEM_LOCK_SIZE LOCK_MEM_CLEAR cfu op"
    if "(i, c, got) \<in> set (sh_log s)" for i c got
    using gl_atomic.logged_calls [OF assms(3) that] by (auto simp: globalmem_lock_call_def)
  ultimately have "mem_execs (mem_exec GLOBALMEM_LOCK_SIZE LOCK_MEM_CLEAR ctu cfu) (lock_mem d)
      (map (\<lambda>(i, c, got). c_op c) (sh_log s)) = (lock_replies ctu cfu s, sh_data s)"
    unfolding lock_replies_def
    by (rule serial_execs [where lk = True])
       (use assms(1,2) in \<open>simp_all add: unat_GLOBALMEM_LOCK_SIZE\<close>)
  then show ?thesis by (simp add: lock_execs_code)
qed

lemma globalmem_lock_init_Inr:
  assumes "globalmem_lock_init k m0 = (Inr (), m, tr)"
  shows "lock_devp m = Some \<lparr>lock_mem = replicate 4096 0\<rparr> \<and> Init_MUTEX \<notin> set tr"
  using assms
  by (auto simp: globalmem_lock_init_def globalmem_lock_setup_cdev_def unat_GLOBALMEM_LOCK_SIZE Let_def
      split: if_splits)

text \<open>
  C6. Of the locked driver under concurrency: as it is loaded, its mutex is never initialised
  (\<open>init_MUTEX\<close> is defined as nothing), so that a run is reachable which takes an uninitialised
  mutex, which is undefined. This initialisation is all that is missing: with it, no run is
  undefined; however reads, writes and \<open>MEM_CLEAR\<close> of any number of tasks interleave, with copies
  made byte by byte, whenever the mutex is free the memory and all that the tasks were told are
  what the handlers give when they are executed one after another in the order in which the calls
  returned; and as long as a call is unfinished some task can move.
\<close>

theorem globalmem_lock_serializable:
  assumes "globalmem_lock_init k m0 = (Inr (), m, tr)" "lock_devp m = Some d" "copy_in_fills cfu"
  shows "mutex_reach (mutex_initialised tr) (range (globalmem_lock_call cfu)) (lock_mem d) None \<and>
    (\<forall>x. mutex_reach (mutex_initialised (tr @ [Init_MUTEX])) (range (globalmem_lock_call cfu))
         (lock_mem d) x \<longrightarrow>
       (\<exists>s. x = Some s \<and>
          (sh_owner s = None \<longrightarrow>
             mem_execs (globalmem_lock_exec clk ctu cfu) d (map (\<lambda>(i, c, got). c_op c) (sh_log s)) =
               (lock_replies ctu cfu s, d\<lparr>lock_mem := sh_data s\<rparr>)) \<and>
          (\<forall>i. sh_phase s i \<noteq> Idle \<longrightarrow>
             (\<exists>j s'. sh_phase s j \<noteq> Idle \<and> shared_step (range (globalmem_lock_call cfu)) s j s'))))"
proof (intro conjI allI impI)
  let ?calls = "range (globalmem_lock_call cfu)"
  have d: "length (lock_mem d) = 4096" "Init_MUTEX \<notin> set tr"
    using globalmem_lock_init_Inr [OF assms(1)] assms(2) by auto
  have "c_locked (globalmem_lock_call cfu (Op_ioctl 1))"
    by (simp add: globalmem_lock_call_def LOCK_MEM_CLEAR_def)
  then show "mutex_reach (mutex_initialised tr) ?calls (lock_mem d) None"
    using d(2) by (intro mutex_undefined) (auto simp: mutex_initialised_def)
  fix x assume "mutex_reach (mutex_initialised (tr @ [Init_MUTEX])) ?calls (lock_mem d) x"
  then obtain s where s: "x = Some s" "shared_reach ?calls (shared_init (lock_mem d)) s"
    using mutex_reach_shared by (force simp: mutex_initialised_def)
  then show "\<exists>s. x = Some s \<and>
      (sh_owner s = None \<longrightarrow>
         mem_execs (globalmem_lock_exec clk ctu cfu) d (map (\<lambda>(i, c, got). c_op c) (sh_log s)) =
           (lock_replies ctu cfu s, d\<lparr>lock_mem := sh_data s\<rparr>)) \<and>
      (\<forall>i. sh_phase s i \<noteq> Idle \<longrightarrow>
         (\<exists>j s'. sh_phase s j \<noteq> Idle \<and> shared_step ?calls s j s'))"
    using lock_calls_serial [OF assms(3) d(1) s(2)] gl_atomic.progress [OF s(2)] by blast
qed

text \<open>The driver loaded with its default major number, a write and a read of two tasks.\<close>

lemma globalmem_lock_serializable_witness:
  "\<exists>m tr s. globalmem_lock_init kenv_fine globalmem_lock_module0 = (Inr (), m, tr) \<and>
     mutex_reach (mutex_initialised tr) (range (globalmem_lock_call flat_in)) (replicate 4096 0) None \<and>
     mutex_reach (mutex_initialised (tr @ [Init_MUTEX])) (range (globalmem_lock_call flat_in))
       (replicate 4096 0) (Some s) \<and>
     map (\<lambda>(i, c, got). i) (sh_log s) = [0, 1] \<and>
     mem_execs (globalmem_lock_exec (\<lparr>tv_sec = 0, tv_nsec = 0\<rparr>, \<lparr>tv_sec = 0, tv_nsec = 9\<rparr>) flat_out flat_in)
       \<lparr>lock_mem = replicate 4096 0\<rparr>
       (map (\<lambda>(i, c, got). c_op c) (sh_log s)) =
     ([(Inr 2, Some 2, None), (Inr 2, Some 2, Some [7, 8])], \<lparr>lock_mem = sh_data s\<rparr>)"
proof -
  let ?cs = "range (globalmem_lock_call flat_in)"
  let ?w = "globalmem_lock_call flat_in (Op_write [7, 8] 0 2 0)"
  let ?r = "globalmem_lock_call flat_in (Op_read [0, 0] 0 2 0)"
  let ?s0 = "shared_init (replicate 4096 0) :: (u8 list mem_op, u8 list, u8 list) shared"
  let ?m = "7 # 8 # replicate 4094 0 :: u8 list"
  let ?s1 = "?s0\<lparr>sh_data := ?m, sh_log := sh_log ?s0 @ [(0, ?w, [])]\<rparr>"
  let ?s2 = "?s1\<lparr>sh_data := ?m, sh_log := sh_log ?s1 @ [(1, ?r, [7, 8])]\<rparr>"
  let ?clk = "(\<lparr>tv_sec = 0, tv_nsec = 0\<rparr>, \<lparr>tv_sec = 0, tv_nsec = 9\<rparr>)"
  have ev: "clip_count 4096 0 2 = 2" by (simp add: clip_count_def)
  have w: "run_call ?w (replicate 4096 0) = (?m, [])"
    using run_in_steps [of 0 "[7, 8]" "replicate 4096 0" "[]"]
    by (simp add: globalmem_lock_call_def run_call_def ev GLOBALMEM_LOCK_SIZE_def flat_in_def Let_def
        put_bytes_def)
  have r: "run_call ?r ?m = (?m, [7, 8])"
    using run_out_steps [of 0 2 ?m "[]"]
    by (simp add: globalmem_lock_call_def run_call_def ev GLOBALMEM_LOCK_SIZE_def get_bytes_def)
  have "shared_reach ?cs ?s0 ?s1"
    by (rule call_alone [OF shared_reach.refl]) (simp_all add: shared_init_def w)
  then have "shared_reach ?cs ?s0 ?s2"
    by (rule call_alone) (simp_all add: shared_init_def r)
  then have s2: "mutex_reach (mutex_initialised (tr @ [Init_MUTEX])) ?cs (replicate 4096 0) (Some ?s2)" for tr
    using mutex_reach_ready by (simp add: mutex_initialised_def)
  have replies: "lock_replies flat_out flat_in ?s2 =
      [(Inr 2, Some 2, None), (Inr 2, Some 2, Some [7, 8])]"
    by (simp add: lock_replies_def shared_init_def globalmem_lock_call_def GLOBALMEM_LOCK_SIZE_def ev
        flat_in_def flat_out_def Let_def)
  have free: "map (\<lambda>(i, c, got). i) (sh_log ?s2) = [0, 1]" "sh_owner ?s2 = None"
    by (simp_all add: shared_init_def)
  obtain m tr where i: "globalmem_lock_init kenv_fine globalmem_lock_module0 = (Inr (), m, tr)"
    by (simp add: globalmem_lock_init_def kenv_fine_def globalmem_lock_module0_def
        GLOBALMEM_LOCK_MAJOR_def Let_def)
  have d: "lock_devp m = Some \<lparr>lock_mem = replicate 4096 0\<rparr>" using globalmem_lock_init_Inr [OF i] by simp
  note whole = globalmem_lock_serializable [OF i d copy_in_fills_flat, of ?clk flat_out]
  have "mem_execs (globalmem_lock_exec ?clk flat_out flat_in) \<lparr>lock_mem = replicate 4096 0\<rparr>
      (map (\<lambda>(i, c, got). c_op c) (sh_log ?s2)) =
      (lock_replies flat_out flat_in ?s2, \<lparr>lock_mem = sh_data ?s2\<rparr>)"
    using whole [THEN conjunct2, rule_format, of "Some ?s2"] s2 [of tr] free(2) by auto
  then show ?thesis
    using i s2 [of tr] whole [THEN conjunct1] replies free(1)
    by (intro exI [of _ m] exI [of _ tr] exI [of _ ?s2]) simp
qed

section \<open>The driver without a lock\<close>

text \<open>Calls of \<open>globalmem\<close> copy without any lock.\<close>

definition globalmem_call :: "'u copy_in \<Rightarrow> 'u mem_op \<Rightarrow> ('u mem_op, u8 list, u8 list) call" where
  "globalmem_call cfu op = mem_call False GLOBALMEM_SIZE MEM_CLEAR cfu op"

text \<open>Executed alone, it is the handler.\<close>

fun globalmem_exec ::
  "'u copy_out \<Rightarrow> 'u copy_in \<Rightarrow> globalmem_dev \<Rightarrow> 'u mem_op \<Rightarrow> 'u mem_reply \<times> globalmem_dev" where
  "globalmem_exec ctu cfu d (Op_read us buf sz pos) =
     (let (r, pos, us) = globalmem_read ctu d us buf sz pos in ((r, Some pos, Some us), d))"
| "globalmem_exec ctu cfu d (Op_write us buf sz pos) =
     (let (r, pos, d) = globalmem_write cfu d us buf sz pos in ((r, Some pos, None), d))"
| "globalmem_exec ctu cfu d (Op_ioctl cmd) =
     (let (r, d) = globalmem_compat_ioctl d cmd in ((r, None, None), d))"

lemma globalmem_call_exec:
  assumes "copy_in_fills cfu" "length (mem d) = 65536"
    and "run_call (globalmem_call cfu op) (mem d) = (m', got)"
  shows "globalmem_exec ctu cfu d op =
    (mem_reply GLOBALMEM_SIZE MEM_CLEAR ctu cfu op got, d\<lparr>mem := m'\<rparr>)"
proof -
  have "globalmem_exec ctu cfu d op =
      map_prod id (\<lambda>m. d\<lparr>mem := m\<rparr>) (mem_exec GLOBALMEM_SIZE MEM_CLEAR ctu cfu (mem d) op)"
    using assms(2) by (cases op)
       (simp_all add: globalmem_read_code globalmem_write_code globalmem_compat_ioctl_def
         unat_GLOBALMEM_SIZE split: prod.split)
  then show ?thesis
    using mem_call_exec [OF assms(1), of "mem d" GLOBALMEM_SIZE False MEM_CLEAR op m' got ctu] assms(2,3)
    by (simp add: unat_GLOBALMEM_SIZE globalmem_call_def)
qed

definition torn_read :: "(u8 list mem_op, u8 list, u8 list) call" where
  "torn_read = globalmem_call flat_in (Op_read [0, 0] 0 2 0)"

definition torn_write :: "(u8 list mem_op, u8 list, u8 list) call" where
  "torn_write = globalmem_call flat_in (Op_write [1, 1] 0 2 0)"

lemma torn_simps:
  "c_locked torn_read = False" "c_local torn_read = []"
  "c_steps torn_read = [\<lambda>(m, l). (m, l @ [m ! 0]), \<lambda>(m, l). (m, l @ [m ! 1])]"
  "run_call torn_write (a # b # m) = (1 # 1 # m, [])"
  "run_call torn_read (a # b # m) = (a # b # m, [a, b])"
  by (simp_all add: torn_read_def torn_write_def globalmem_call_def clip_count_def GLOBALMEM_SIZE_def
      out_steps_def in_steps_def run_call_def flat_in_def Let_def upt_rec)

text \<open>The state of such a run: task 0 is in phase \<open>ph\<close>, the others are idle.\<close>

definition torn_state :: "u8 list \<Rightarrow> (u8 list mem_op, u8 list, u8 list) phase \<Rightarrow>
    (nat \<times> (u8 list mem_op, u8 list, u8 list) call \<times> u8 list) list \<Rightarrow>
    (u8 list mem_op, u8 list, u8 list) shared" where
  "torn_state m ph log =
     \<lparr>sh_data = m, sh_owner = None, sh_phase = (\<lambda>i. Idle)(0 := ph), sh_log = log\<rparr>"

lemma torn_state_simps [simp]:
  "sh_data (torn_state m ph log) = m" "sh_owner (torn_state m ph log) = None"
  "sh_phase (torn_state m ph log) i = (if i = 0 then ph else Idle)" "sh_log (torn_state m ph log) = log"
  by (simp_all add: torn_state_def)

abbreviation torn_reach ::
  "(u8 list mem_op, u8 list, u8 list) shared \<Rightarrow> (u8 list mem_op, u8 list, u8 list) shared \<Rightarrow> bool" where
  "torn_reach \<equiv> shared_reach (range (globalmem_call flat_in))"

lemma torn_begin:
  assumes "torn_reach s0 (torn_state m Idle log)"
  shows "torn_reach s0 (torn_state m (Called torn_read) log)"
  by (rule shared_reach.step [OF assms, of 0])
    (use shared_step.begin_call [of "torn_state m Idle log" 0 torn_read "range (globalmem_call flat_in)"]
     in \<open>simp add: torn_state_def torn_read_def\<close>)

lemma torn_enter:
  assumes "torn_reach s0 (torn_state m (Called torn_read) log)"
  shows "torn_reach s0 (torn_state m (Inside torn_read (c_steps torn_read) []) log)"
  by (rule shared_reach.step [OF assms, of 0])
    (use shared_step.enter [of "torn_state m (Called torn_read) log" 0 torn_read "range (globalmem_call flat_in)"]
     in \<open>simp add: torn_state_def torn_simps\<close>)

lemma torn_micro:
  assumes "torn_reach s0 (torn_state m (Inside c (f # fs) l) log)" "f (m, l) = (m, l')"
  shows "torn_reach s0 (torn_state m (Inside c fs l') log)"
  by (rule shared_reach.step [OF assms(1), of 0])
    (use shared_step.micro [of "torn_state m (Inside c (f # fs) l) log" 0 c f fs l m l'
        "range (globalmem_call flat_in)"] assms(2)
     in \<open>simp add: torn_state_def\<close>)

lemma torn_return:
  assumes "torn_reach s0 (torn_state m (Inside torn_read [] l) log)"
  shows "torn_reach s0 (torn_state m Idle (log @ [(0, torn_read, l)]))"
  by (rule shared_reach.step [OF assms, of 0])
    (use shared_step.return [of "torn_state m (Inside torn_read [] l) log" 0 torn_read l
        "range (globalmem_call flat_in)"]
     in \<open>simp add: torn_state_def torn_simps\<close>)

lemma torn_other_writes:
  assumes "torn_reach s0 (torn_state (a # b # m) ph log)"
  shows "torn_reach s0 (torn_state (1 # 1 # m) ph (log @ [(1, torn_write, [])]))"
  using call_alone [OF assms, of 1 torn_write "1 # 1 # m" "[]"]
  by (simp add: torn_simps torn_state_def) (simp add: torn_write_def)

text \<open>
  C28. Without a lock reads are torn: while one task writes two bytes and another one reads them,
  the reader can be told the old first and the new second byte, which neither order of the two
  calls explains.
\<close>

theorem globalmem_torn_read:
  "\<exists>s. shared_reach (range (globalmem_call flat_in)) (shared_init (replicate 65536 0)) s \<and>
     sh_phase s = (\<lambda>i. Idle) \<and> sh_log s = [(1, torn_write, []), (0, torn_read, [0, 1])] \<and>
     serial (replicate 65536 0) (sh_log s) = None \<and>
     serial (replicate 65536 0) (rev (sh_log s)) = None"
proof -
  let ?init = "replicate 65536 0 :: u8 list" and ?m = "replicate 65534 0 :: u8 list"
  have "?init = replicate 2 0 @ ?m" by (subst replicate_add [symmetric]) simp
  moreover have "replicate 2 (0 :: u8) = [0, 0]" by (simp add: numeral_2_eq_2)
  ultimately have m: "?init = 0 # 0 # ?m" by (simp only: append.simps)
  have "shared_init ?init = torn_state (0 # 0 # ?m) Idle []"
    by (simp add: shared_init_def torn_state_def m fun_upd_idem)
  then have "torn_reach (shared_init ?init) (torn_state (0 # 0 # ?m) Idle [])"
    using shared_reach.refl by metis
  note inside = torn_enter [OF torn_begin [OF this], unfolded torn_simps(3)]
  note first = torn_micro [OF inside, of "[0]", simplified]
  note second = torn_micro [OF torn_other_writes [OF first], of "[0, 1]", simplified]
  note whole = torn_return [OF second]
  have "serial ?init [(1, torn_write, []), (0, torn_read, [0, 1])] = None"
    "serial ?init [(0, torn_read, [0, 1]), (1, torn_write, [])] = None"
    by (simp_all add: m torn_simps)
  with whole show ?thesis
    by (intro exI [of _ "torn_state (1 # 1 # ?m) Idle [(1, torn_write, []), (0, torn_read, [0, 1])]"])
      (simp add: torn_state_def fun_upd_idem)
qed

end
