(* ===== verification/Module_System.thy ===== *)
theory Module_System
  imports Globalmem Globalmem_Lock Globalfifo Second Intrsimulate
begin

text \<open>
  The five character-device modules in one kernel. They share one resource, the space of device
  numbers: loading a module registers a range of it, its \<open>cdev\<close>s are what opening a device node
  finds there, and unloading gives the range back. The kernel's registry is a parameter; of it
  only the documented behaviour is used, that a range is not granted if part of it is taken.
\<close>

section \<open>The modules under one roof\<close>

datatype driver = D_globalmem | D_globalmem_lock | D_globalfifo | D_second | D_intrsimulate

datatype drv_state =
    S_globalmem globalmem_module
  | S_globalmem_lock globalmem_lock_module
  | S_globalfifo globalfifo_module
  | S_second second_module
  | S_intrsimulate intrsimulate_module

primrec drv_of :: "drv_state \<Rightarrow> driver" where
  "drv_of (S_globalmem m) = D_globalmem"
| "drv_of (S_globalmem_lock m) = D_globalmem_lock"
| "drv_of (S_globalfifo m) = D_globalfifo"
| "drv_of (S_second m) = D_second"
| "drv_of (S_intrsimulate m) = D_intrsimulate"

text \<open>The data of a module that is about to be loaded, with the major number as its parameter.\<close>

primrec drv_fresh :: "driver \<Rightarrow> int \<Rightarrow> drv_state" where
  "drv_fresh D_globalmem ma = S_globalmem (globalmem_module0\<lparr>globalmem_major := ma\<rparr>)"
| "drv_fresh D_globalmem_lock ma = S_globalmem_lock (globalmem_lock_module0\<lparr>lock_major := ma\<rparr>)"
| "drv_fresh D_globalfifo ma = S_globalfifo (globalfifo_module0\<lparr>globalfifo_major := ma\<rparr>)"
| "drv_fresh D_second ma = S_second (second_module0\<lparr>second_major := ma\<rparr>)"
| "drv_fresh D_intrsimulate ma = S_intrsimulate (intrsimulate_module0\<lparr>intr_major := ma\<rparr>)"

primrec default_major :: "driver \<Rightarrow> int" where
  "default_major D_globalmem = globalmem_major globalmem_module0"
| "default_major D_globalmem_lock = lock_major globalmem_lock_module0"
| "default_major D_globalfifo = globalfifo_major globalfifo_module0"
| "default_major D_second = second_major second_module0"
| "default_major D_intrsimulate = intr_major intrsimulate_module0"

primrec drv_init :: "kenv \<Rightarrow> drv_state \<Rightarrow> unit result \<times> drv_state \<times> kcall list" where
  "drv_init k (S_globalmem m) = (let (r, m, tr) = globalmem_init k m in (r, S_globalmem m, tr))"
| "drv_init k (S_globalmem_lock m) =
     (let (r, m, tr) = globalmem_lock_init k m in (r, S_globalmem_lock m, tr))"
| "drv_init k (S_globalfifo m) = (let (r, m, tr) = globalfifo_init k m in (r, S_globalfifo m, tr))"
| "drv_init k (S_second m) = (let (r, m, tr) = second_init k m in (r, S_second m, tr))"
| "drv_init k (S_intrsimulate m) =
     (let (r, m, tr) = intrsimulate_init k m in (r, S_intrsimulate m, tr))"

primrec drv_exit :: "drv_state \<Rightarrow> kcall list" where
  "drv_exit (S_globalmem m) = globalmem_exit m"
| "drv_exit (S_globalmem_lock m) = globalmem_lock_exit m"
| "drv_exit (S_globalfifo m) = globalfifo_exit m"
| "drv_exit (S_second m) = second_exit m"
| "drv_exit (S_intrsimulate m) = intrsimulate_exit m"

primrec drv_major :: "drv_state \<Rightarrow> int" where
  "drv_major (S_globalmem m) = globalmem_major m"
| "drv_major (S_globalmem_lock m) = lock_major m"
| "drv_major (S_globalfifo m) = globalfifo_major m"
| "drv_major (S_second m) = second_major m"
| "drv_major (S_intrsimulate m) = intr_major m"

primrec drv_minors :: "drv_state \<Rightarrow> nat" where
  "drv_minors (S_globalmem m) = 2"
| "drv_minors (S_globalmem_lock m) = 1"
| "drv_minors (S_globalfifo m) = 1"
| "drv_minors (S_second m) = 1"
| "drv_minors (S_intrsimulate m) = 1"

section \<open>Device nodes\<close>

text \<open>
  What opening a device number finds: the module and the index of the device structure whose
  \<open>cdev\<close> was added for it.
\<close>

type_synonym 'd nodes = "int \<times> nat \<Rightarrow> ('d \<times> nat) option"

fun node_step :: "'d \<Rightarrow> 'd nodes \<Rightarrow> kcall \<Rightarrow> 'd nodes" where
  "node_step d M (Cdev_add i n c r) =
     (if r = 0 then (\<lambda>x. if x \<in> numbers n c then Some (d, i) else M x) else M)"
| "node_step d M (Cdev_del i) = (\<lambda>x. if M x = Some (d, i) then None else M x)"
| "node_step d M _ = M"

section \<open>The contract of a module that shares the space of device numbers\<close>

text \<open>
  The range a module asks for, whether the kernel grants it, and what loading and unloading do
  to the numbers taken and to the device nodes, whatever is there already.
\<close>

definition asks :: "int \<Rightarrow> nat \<Rightarrow> kenv \<Rightarrow> (int \<times> nat) set" where
  "asks ma n k = numbers (if ma \<noteq> 0 then MKDEV ma 0 else alloc_dev k) n"

definition granted :: "int \<Rightarrow> kenv \<Rightarrow> bool" where
  "granted ma k \<longleftrightarrow> (if ma \<noteq> 0 then 0 \<le> register_ret k else 0 \<le> alloc_ret k)"

locale chrdev_user =
  fixes init :: "kenv \<Rightarrow> 's \<Rightarrow> unit result \<times> 's \<times> kcall list"
    and exit :: "'s \<Rightarrow> kcall list"
    and major :: "'s \<Rightarrow> int"
    and minors :: "'s \<Rightarrow> nat"
  assumes init_takes: "kenv_ok k \<Longrightarrow> init k s = (Inr (), s', tr) \<Longrightarrow>
      granted (major s) k \<and> minors s' = minors s \<and>
      asks (major s) (minors s) k = numbers (MKDEV (major s') 0) (minors s') \<and>
      held S tr = S \<union> asks (major s) (minors s) k"
    and init_nodes: "init k s = (Inr (), s', tr) \<Longrightarrow>
      foldl (node_step d) M tr x = M x \<or>
      (\<exists>i<minors s'. x = (major s' mod 4096, i) \<and> foldl (node_step d) M tr x = Some (d, i))"
    and init_fails: "init k s = (Inl e, s', tr) \<Longrightarrow>
      foldl (node_step d) M tr = M \<and>
      (if granted (major s) k then S - asks (major s) (minors s) k \<subseteq> held S tr \<and>
         held S tr \<subseteq> S \<union> asks (major s) (minors s) k
       else held S tr = S)"
    and refused: "\<not> granted (major s) k \<Longrightarrow> \<exists>e s' tr. init k s = (Inl e, s', tr)"
    and exit_gives: "held S (exit s) = S - numbers (MKDEV (major s) 0) (minors s)"
    and exit_nodes: "foldl (node_step d) M (exit s) x =
      (if \<exists>i<minors s. M x = Some (d, i) then None else M x)"
begin

lemma unload_restores:
  assumes "kenv_ok k" "init k s = (Inr (), s', tr)" "asks (major s) (minors s) k \<inter> S = {}"
  shows "held S (tr @ exit s') = S"
  using init_takes [OF assms(1,2), of S] exit_gives [of _ s'] assms(3) by auto

end

lemmas drv_init_defs = globalmem_init_def globalmem_lock_init_def globalfifo_init_def
  second_init_def intrsimulate_init_def globalmem_setup_cdev_def globalmem_lock_setup_cdev_def
  globalfifo_setup_cdev_def

lemmas drv_exit_defs = globalmem_exit_def globalmem_lock_exit_def globalfifo_exit_def
  second_exit_def intrsimulate_exit_def

lemma numbers_one: "i < 2 ^ 20 \<Longrightarrow> x \<in> numbers (MKDEV ma i) (Suc 0) \<longleftrightarrow> x = (ma mod 4096, i)"
  by (cases x) (auto simp: numbers_def)

lemma numbers_two: "numbers (MKDEV ma 0) 2 = {(ma mod 4096, 0), (ma mod 4096, 1)}"
  by (auto simp: numbers_def)

lemma ex_less_2: "(\<exists>i<2. P i) \<longleftrightarrow> P 0 \<or> P (Suc 0)"
  by (auto simp: less_2_cases_iff)

interpretation drv: chrdev_user drv_init drv_exit drv_major drv_minors
proof (unfold_locales, goal_cases)
  case (1 k s s' tr S)
  then show ?case
    by (cases s) (auto simp: drv_init_defs granted_def asks_def kenv_ok_def MKDEV_MAJOR Let_def
      split: if_splits)
next
  case (2 k s s' tr d M x)
  then show ?case
    by (cases s) (auto simp: drv_init_defs numbers_one ex_less_2 Let_def split: if_splits)
next
  case (3 k s e s' tr d M S)
  then show ?case
    by (cases s) (auto simp: drv_init_defs granted_def asks_def numbers_def Let_def split: if_splits)
next
  case (4 s k)
  then show ?case
    by (cases s) (auto simp: drv_init_defs granted_def Let_def split: if_splits)
next
  case (5 S s)
  show ?case by (cases s) (auto simp: drv_exit_defs)
next
  case (6 d M s x)
  show ?case by (cases s) (auto simp: drv_exit_defs ex_less_2)
qed

section \<open>The kernel\<close>

text \<open>
  The registry: what \<open>register_chrdev_region\<close> and \<open>alloc_chrdev_region\<close> answer when the numbers
  in the set are taken, and the size of a \<open>struct cdev\<close>.
\<close>

record registry =
  reg_region :: "(int \<times> nat) set \<Rightarrow> dev_t \<Rightarrow> nat \<Rightarrow> int"
  reg_alloc :: "(int \<times> nat) set \<Rightarrow> nat \<Rightarrow> int \<times> dev_t"
  reg_cdev_size :: nat

definition registry_ok :: "registry \<Rightarrow> bool" where
  "registry_ok R \<longleftrightarrow>
     (\<forall>S d n. numbers d n \<inter> S \<noteq> {} \<longrightarrow> reg_region R S d n < 0) \<and>
     (\<forall>S n. 0 \<le> fst (reg_alloc R S n) \<longrightarrow>
        MINOR (snd (reg_alloc R S n)) = 0 \<and> numbers (snd (reg_alloc R S n)) n \<inter> S = {})"

record system =
  sys_taken :: "(int \<times> nat) set"
  sys_nodes :: "driver nodes"
  sys_loaded :: "driver \<Rightarrow> drv_state option"

definition system0 :: system where
  "system0 = \<lparr>sys_taken = {}, sys_nodes = (\<lambda>x. None), sys_loaded = (\<lambda>d. None)\<rparr>"

definition answers :: "registry \<Rightarrow> (int \<times> nat) set \<Rightarrow> drv_state \<Rightarrow> bool \<Rightarrow> (nat \<Rightarrow> int) \<Rightarrow> kenv" where
  "answers R S st mem_ok add_ret =
     \<lparr>register_ret = reg_region R S (MKDEV (drv_major st) 0) (drv_minors st),
      alloc_ret = fst (reg_alloc R S (drv_minors st)), alloc_dev = snd (reg_alloc R S (drv_minors st)),
      kmalloc_ok = mem_ok, cdev_add_ret = add_ret, cdev_size = reg_cdev_size R\<rparr>"

text \<open>
  \<open>insmod\<close> with a major number as the parameter and \<open>rmmod\<close>. A module that is there already is
  not loaded again (\<open>EEXIST\<close>), one that is not there cannot be removed (\<open>ENOENT\<close>).
\<close>

definition insmod ::
  "registry \<Rightarrow> driver \<Rightarrow> int \<Rightarrow> bool \<Rightarrow> (nat \<Rightarrow> int) \<Rightarrow> system \<Rightarrow> unit result \<times> system" where
  "insmod R d ma mem_ok add_ret sys =
     (if sys_loaded sys d \<noteq> None then (Inl (Code (-17)), sys)
      else
        let st = drv_fresh d ma;
            (r, st', tr) = drv_init (answers R (sys_taken sys) st mem_ok add_ret) st
        in (r, \<lparr>sys_taken = held (sys_taken sys) tr,
                sys_nodes = foldl (node_step d) (sys_nodes sys) tr,
                sys_loaded = (case r of Inl e \<Rightarrow> sys_loaded sys
                              | Inr _ \<Rightarrow> (sys_loaded sys)(d \<mapsto> st'))\<rparr>))"

definition rmmod :: "driver \<Rightarrow> system \<Rightarrow> unit result \<times> system" where
  "rmmod d sys =
     (case sys_loaded sys d of
        None \<Rightarrow> (Inl (Code (-2)), sys)
      | Some st \<Rightarrow>
          (Inr (), \<lparr>sys_taken = held (sys_taken sys) (drv_exit st),
             sys_nodes = foldl (node_step d) (sys_nodes sys) (drv_exit st),
             sys_loaded = (sys_loaded sys)(d := None)\<rparr>))"

inductive sys_reach :: "registry \<Rightarrow> system \<Rightarrow> system \<Rightarrow> bool" for R sys where
  refl: "sys_reach R sys sys"
| load: "sys_reach R sys sys' \<Longrightarrow> sys_reach R sys (snd (insmod R d ma mem_ok add_ret sys'))"
| unload: "sys_reach R sys sys' \<Longrightarrow> sys_reach R sys (snd (rmmod d sys'))"

text \<open>The numbers of a loaded module.\<close>

definition range_of :: "drv_state \<Rightarrow> (int \<times> nat) set" where
  "range_of st = numbers (MKDEV (drv_major st) 0) (drv_minors st)"

definition sys_ok :: "system \<Rightarrow> bool" where
  "sys_ok sys \<longleftrightarrow>
     (\<forall>d st. sys_loaded sys d = Some st \<longrightarrow> drv_of st = d \<and> range_of st \<subseteq> sys_taken sys) \<and>
     (\<forall>d e st st'. sys_loaded sys d = Some st \<longrightarrow> sys_loaded sys e = Some st' \<longrightarrow> d \<noteq> e \<longrightarrow>
        range_of st \<inter> range_of st' = {}) \<and>
     (\<forall>x d i. sys_nodes sys x = Some (d, i) \<longrightarrow>
        (\<exists>st. sys_loaded sys d = Some st \<and> i < drv_minors st \<and> x = (drv_major st mod 4096, i)))"

lemma sys_okD:
  assumes "sys_ok sys"
  shows "sys_loaded sys d = Some st \<Longrightarrow> drv_of st = d \<and> range_of st \<subseteq> sys_taken sys"
    and "sys_loaded sys d = Some st \<Longrightarrow> sys_loaded sys e = Some st' \<Longrightarrow> d \<noteq> e \<Longrightarrow>
      range_of st \<inter> range_of st' = {}"
    and "sys_nodes sys x = Some (d, i) \<Longrightarrow>
      \<exists>st. sys_loaded sys d = Some st \<and> i < drv_minors st \<and> x = (drv_major st mod 4096, i)"
  using assms unfolding sys_ok_def by blast+

lemma drv_of_init: "drv_init k s = (r, s', tr) \<Longrightarrow> drv_of s' = drv_of s"
  by (cases s) (auto split: prod.splits)

lemma fresh_simps [simp]:
  "drv_of (drv_fresh d ma) = d"
  "drv_major (drv_fresh d ma) = ma"
  "drv_minors (drv_fresh d ma) = (if d = D_globalmem then 2 else 1)"
  by (cases d; simp)+

text \<open>What the kernel grants is free.\<close>

lemma granted_free:
  assumes "registry_ok R" "granted (drv_major st) (answers R S st mem_ok add_ret)"
  shows "asks (drv_major st) (drv_minors st) (answers R S st mem_ok add_ret) \<inter> S = {}"
  using assms by (auto simp: registry_ok_def granted_def asks_def answers_def not_less [symmetric]
      split: if_splits)

lemma kenv_ok_answers: "registry_ok R \<Longrightarrow> kenv_ok (answers R S st mem_ok add_ret)"
  by (simp add: registry_ok_def kenv_ok_def answers_def)

text \<open>The outcomes of loading a module.\<close>

lemma insmod_cases:
  assumes "registry_ok R" "insmod R d ma mem_ok add_ret sys = (r, sys')"
  obtains (failed) e N where "r = Inl e" "sys_loaded sys' = sys_loaded sys" "sys_nodes sys' = sys_nodes sys"
      "sys_taken sys \<subseteq> sys_taken sys'" "sys_taken sys' \<subseteq> sys_taken sys \<union> N" "N \<inter> sys_taken sys = {}"
  | (loaded) st where "r = Inr ()" "sys_loaded sys d = None" "sys_loaded sys' = (sys_loaded sys)(d \<mapsto> st)"
      "drv_of st = d" "sys_taken sys' = sys_taken sys \<union> range_of st" "range_of st \<inter> sys_taken sys = {}"
      "\<And>x. sys_nodes sys' x = sys_nodes sys x \<or>
        (\<exists>i<drv_minors st. x = (drv_major st mod 4096, i) \<and> sys_nodes sys' x = Some (d, i))"
proof (cases "sys_loaded sys d")
  case None
  let ?st = "drv_fresh d ma" and ?S = "sys_taken sys"
  let ?k = "answers R ?S ?st mem_ok add_ret"
  obtain st tr where i: "drv_init ?k ?st = (r, st, tr)"
    and s': "sys' = \<lparr>sys_taken = held ?S tr, sys_nodes = foldl (node_step d) (sys_nodes sys) tr,
      sys_loaded = (case r of Inl e \<Rightarrow> sys_loaded sys | Inr _ \<Rightarrow> (sys_loaded sys)(d \<mapsto> st))\<rparr>"
    using assms(2) None by (auto simp: insmod_def Let_def split: prod.splits)
  show thesis
  proof (cases r)
    case (Inl e)
    let ?N = "if granted (drv_major ?st) ?k then asks (drv_major ?st) (drv_minors ?st) ?k else {}"
    have N: "?N \<inter> ?S = {}" using granted_free [OF assms(1), of ?st] by simp
    note f = drv.init_fails [of ?k ?st e st tr d "sys_nodes sys" ?S]
    show thesis
    proof (rule failed [OF Inl, of ?N])
      show "?S \<subseteq> sys_taken sys'" "sys_taken sys' \<subseteq> ?S \<union> ?N"
        using f i s' Inl N by (auto split: if_splits)
    qed (use f i s' Inl N in auto)
  next
    case (Inr u)
    then have i': "drv_init ?k ?st = (Inr (), st, tr)" using i by simp
    note t = drv.init_takes [OF kenv_ok_answers [OF assms(1)] i', of ?S]
    note n = drv.init_nodes [OF i', of d "sys_nodes sys"]
    have "range_of st \<inter> ?S = {}"
      using granted_free [OF assms(1), of ?st ?S mem_ok add_ret] t by (simp add: range_of_def)
    then show thesis
      by (intro loaded [of st]) (use t n s' Inr None drv_of_init [OF i'] in \<open>auto simp: range_of_def\<close>)
  qed
next
  case (Some st)
  then have "r = Inl (Code (-17))" "sys' = sys" using assms(2) by (auto simp: insmod_def)
  then show thesis by (intro failed [of _ "{}"]) auto
qed

lemma sys_ok_insmod:
  assumes "registry_ok R" "sys_ok sys"
  shows "sys_ok (snd (insmod R d ma mem_ok add_ret sys))"
proof -
  obtain r sys' where i: "insmod R d ma mem_ok add_ret sys = (r, sys')" by fastforce
  from assms(1) i have "sys_ok sys'"
  proof (cases rule: insmod_cases)
    case (failed e N)
    then show ?thesis using sys_okD [OF assms(2)] unfolding sys_ok_def failed(2,3) by blast
  next
    case (loaded st)
    have "range_of st' \<inter> range_of st = {}" if "sys_loaded sys e = Some st'" for e st'
      using sys_okD(1) [OF assms(2) that] loaded(6) by blast
    moreover have "\<exists>st'. sys_loaded sys' e = Some st' \<and> i < drv_minors st' \<and> x = (drv_major st' mod 4096, i)"
      if "sys_nodes sys' x = Some (e, i)" for x e i
      using loaded(7) [of x] that sys_okD(3) [OF assms(2), of x e i] loaded(2,3) by auto
    moreover have "drv_of st' = e \<and> range_of st' \<subseteq> sys_taken sys \<union> range_of st"
      if "sys_loaded sys e = Some st'" for e st'
      using sys_okD(1) [OF assms(2) that] by blast
    ultimately show ?thesis
      using sys_okD(2) [OF assms(2)] loaded(3-5) unfolding sys_ok_def
      by (simp add: Int_commute)
  qed
  then show ?thesis using i by simp
qed

lemma rmmod_loaded:
  assumes "sys_loaded sys d = Some st"
  shows "sys_taken (snd (rmmod d sys)) = sys_taken sys - range_of st"
    and "sys_loaded (snd (rmmod d sys)) = (sys_loaded sys)(d := None)"
    and "sys_nodes (snd (rmmod d sys)) x =
      (if \<exists>i<drv_minors st. sys_nodes sys x = Some (d, i) then None else sys_nodes sys x)"
  using assms by (simp_all add: rmmod_def drv.exit_gives drv.exit_nodes range_of_def)

lemma rmmod_absent: "sys_loaded sys d = None \<Longrightarrow> snd (rmmod d sys) = sys"
  by (simp add: rmmod_def)

lemma sys_ok_rmmod:
  assumes "sys_ok sys"
  shows "sys_ok (snd (rmmod d sys))"
proof (cases "sys_loaded sys d")
  case None
  then show ?thesis using assms by (simp add: rmmod_absent)
next
  case (Some st)
  note r = rmmod_loaded [OF Some]
  have "drv_of st' = e \<and> range_of st' \<subseteq> sys_taken sys - range_of st" if "sys_loaded sys e = Some st'" "e \<noteq> d" for e st'
    using sys_okD(1,2) [OF assms] Some that by blast
  moreover have "e \<noteq> d \<and> (\<exists>st'. sys_loaded sys e = Some st' \<and> i < drv_minors st' \<and> x = (drv_major st' mod 4096, i))"
    if "sys_nodes (snd (rmmod d sys)) x = Some (e, i)" for x e i
    using that sys_okD(3) [OF assms, of x e i] Some unfolding r(3) by (auto split: if_splits)
  ultimately show ?thesis
    using sys_okD(2) [OF assms] unfolding sys_ok_def r(1,2) by (auto split: if_splits)
qed

lemma sys_ok_reach:
  assumes "registry_ok R" "sys_reach R system0 sys"
  shows "sys_ok sys"
  using assms(2)
proof (induction rule: sys_reach.induct)
  case refl
  show ?case by (simp add: sys_ok_def system0_def)
next
  case (load sys' d ma mem_ok add_ret)
  show ?case by (rule sys_ok_insmod [OF assms(1) load.IH])
next
  case (unload sys' d)
  show ?case by (rule sys_ok_rmmod [OF unload.IH])
qed

text \<open>A load is refused when one of the numbers it asks for is taken.\<close>

lemma insmod_refused:
  assumes "registry_ok R" "ma \<noteq> 0" "(ma mod 4096, i) \<in> sys_taken sys" "i < (if d = D_globalmem then 2 else 1)"
  shows "\<exists>err. insmod R d ma mem_ok add_ret sys = (Inl err, sys)"
proof (cases "sys_loaded sys d")
  case None
  let ?st = "drv_fresh d ma"
  let ?k = "answers R (sys_taken sys) ?st mem_ok add_ret"
  have "(ma mod 4096, i) \<in> numbers (MKDEV ma 0) (drv_minors ?st)" using assms(4) by (simp add: numbers_def)
  then have "numbers (MKDEV ma 0) (drv_minors ?st) \<inter> sys_taken sys \<noteq> {}" using assms(3) by blast
  then have "register_ret ?k < 0" using assms(1) by (simp add: registry_ok_def answers_def)
  then have g: "\<not> granted (drv_major ?st) ?k" using assms(2) by (simp add: granted_def)
  then obtain e st' tr where f: "drv_init ?k ?st = (Inl e, st', tr)" using drv.refused by blast
  from drv.init_fails [OF this, of d "sys_nodes sys" "sys_taken sys"] g f None show ?thesis
    by (simp add: insmod_def)
qed (auto simp: insmod_def)

lemma drv_minors_pos: "0 < drv_minors st"
  by (cases st) simp_all

lemmas default_defs = globalmem_module0_def globalmem_lock_module0_def globalfifo_module0_def
  second_module0_def intrsimulate_module0_def GLOBALMEM_LOCK_MAJOR_def GLOBALFIFO_MAJOR_def
  GLOBALMEM_MAJOR_def

text \<open>A number that is taken although no loaded module has it stays taken.\<close>

definition leaked :: "system \<Rightarrow> int \<times> nat \<Rightarrow> bool" where
  "leaked sys x \<longleftrightarrow> x \<in> sys_taken sys \<and> (\<forall>d st. sys_loaded sys d = Some st \<longrightarrow> x \<notin> range_of st)"

lemma leaked_insmod:
  assumes "registry_ok R" "leaked sys x"
  shows "leaked (snd (insmod R d ma mem_ok add_ret sys)) x"
proof -
  obtain r sys' where i: "insmod R d ma mem_ok add_ret sys = (r, sys')" by fastforce
  from assms(1) i have "leaked sys' x"
    by (cases rule: insmod_cases) (use assms(2) in \<open>auto simp: leaked_def\<close>)
  then show ?thesis using i by simp
qed

lemma leaked_rmmod: "leaked sys x \<Longrightarrow> leaked (snd (rmmod d sys)) x"
  by (cases "sys_loaded sys d") (auto simp: rmmod_absent rmmod_loaded leaked_def)

lemma leaked_reach:
  assumes "registry_ok R" "sys_reach R sys sys'" "leaked sys x"
  shows "leaked sys' x"
  using assms(2,3) by (induction rule: sys_reach.induct) (simp_all add: leaked_insmod [OF assms(1)] leaked_rmmod)

lemma globalmem_leaks:
  assumes "registry_ok R" "sys_reach R system0 sys" "ma \<noteq> 0"
    and "insmod R D_globalmem ma False add_ret sys = (Inl ENOMEM, sys')"
  shows "leaked sys' (ma mod 4096, 1)"
proof -
  let ?st = "drv_fresh D_globalmem ma"
  let ?k = "answers R (sys_taken sys) ?st False add_ret"
  have n: "sys_loaded sys D_globalmem = None"
    using assms(4) by (cases "sys_loaded sys D_globalmem") (simp_all add: insmod_def)
  then have g: "\<not> register_ret ?k < 0" and t: "sys_taken sys' =
      (sys_taken sys \<union> numbers (MKDEV ma 0) 2) - numbers (MKDEV ma 0) 1"
    and l: "sys_loaded sys' = sys_loaded sys"
    using assms(3,4) by (auto simp: insmod_def globalmem_init_def Let_def answers_def split: if_splits)
  have "numbers (MKDEV ma 0) 2 \<inter> sys_taken sys = {}"
    using g assms(1) by (auto simp: registry_ok_def answers_def)
  then have "(ma mod 4096, 1) \<notin> sys_taken sys" "(ma mod 4096, 1) \<in> sys_taken sys'"
    unfolding t numbers_two by (auto simp: numbers_one)
  then show ?thesis
    using sys_okD(1) [OF sys_ok_reach [OF assms(1,2)]] l unfolding leaked_def by auto
qed

section \<open>Properties\<close>

text \<open>
  C17. However the five modules are loaded and unloaded, with any major numbers and whatever
  allocations fail, a device node never leads to a module that is not there: what opening it
  finds is a loaded module with that major number (modulo \<open>2^12\<close>, as numbers wrap) and one of its own device structures, and
  different loaded modules never share a device number.
\<close>

theorem device_nodes_sound:
  assumes "registry_ok R" "sys_reach R system0 sys"
  shows "(\<forall>ma mi d i. sys_nodes sys (ma, mi) = Some (d, i) \<longrightarrow>
      (\<exists>st. sys_loaded sys d = Some st \<and> drv_of st = d \<and> drv_major st mod 4096 = ma \<and> mi = i \<and> i < drv_minors st)) \<and>
    (\<forall>d e st st'. sys_loaded sys d = Some st \<longrightarrow> sys_loaded sys e = Some st' \<longrightarrow> d \<noteq> e \<longrightarrow>
      range_of st \<inter> range_of st' = {})"
proof (intro conjI allI impI)
  fix ma mi d i assume "sys_nodes sys (ma, mi) = Some (d, i)"
  from sys_okD(3) [OF sys_ok_reach [OF assms] this] show
    "\<exists>st. sys_loaded sys d = Some st \<and> drv_of st = d \<and> drv_major st mod 4096 = ma \<and> mi = i \<and> i < drv_minors st"
    using sys_okD(1) [OF sys_ok_reach [OF assms]] by auto
qed (rule sys_okD(2) [OF sys_ok_reach [OF assms]])

definition sample_registry :: registry where
  "sample_registry = \<lparr>reg_region = (\<lambda>S d n. if numbers d n \<inter> S = {} then 0 else -16),
     reg_alloc = (\<lambda>S n. (-16, MKDEV 0 0)), reg_cdev_size = 104\<rparr>"

lemma sample_registry_ok: "registry_ok sample_registry"
  by (simp add: registry_ok_def sample_registry_def)

text \<open>\<open>globalmem\<close> and then \<open>globalfifo\<close> loaded with their default numbers.\<close>

definition sample_system :: system where
  "sample_system = snd (insmod sample_registry D_globalfifo 300 True (\<lambda>i. 0)
     (snd (insmod sample_registry D_globalmem 301 True (\<lambda>i. 0) system0)))"

lemma sample_system_reach: "sys_reach sample_registry system0 sample_system"
  unfolding sample_system_def by (intro sys_reach.intros)

lemma sample_system_nodes:
  "sys_nodes sample_system (301, 1) = Some (D_globalmem, 1)"
  "sys_nodes sample_system (300, 0) = Some (D_globalfifo, 0)"
  "sys_loaded sample_system D_second = None"
  by (simp_all add: sample_system_def insmod_def system0_def Let_def answers_def sample_registry_def
      globalmem_init_def globalmem_setup_cdev_def globalfifo_init_def globalfifo_setup_cdev_def numbers_one numbers_two)

lemma sample_system_fifo:
  "\<exists>st. sys_loaded sample_system D_globalfifo = Some st \<and> drv_major st = 300"
  by (simp add: sample_system_def insmod_def system0_def Let_def answers_def sample_registry_def
      globalmem_init_def globalmem_setup_cdev_def globalfifo_init_def globalfifo_setup_cdev_def numbers_one numbers_two)

lemma device_nodes_sound_witness:
  "\<exists>st st'. sys_loaded sample_system D_globalmem = Some st \<and> drv_major st mod 4096 = 301 \<and>
     sys_loaded sample_system D_globalfifo = Some st' \<and> drv_major st' mod 4096 = 300 \<and>
     range_of st \<inter> range_of st' = {}"
proof -
  note sound = device_nodes_sound [OF sample_registry_ok sample_system_reach]
  obtain st st' where "sys_loaded sample_system D_globalmem = Some st" "drv_major st mod 4096 = 301"
    "sys_loaded sample_system D_globalfifo = Some st'" "drv_major st' mod 4096 = 300"
    using sound [THEN conjunct1] sample_system_nodes(1,2) by meson
  then show ?thesis using sound [THEN conjunct2] by blast
qed

text \<open>
  C29. The default major numbers clash: of \<open>globalmem_lock\<close>, \<open>globalfifo\<close>, \<open>second\<close> and
  \<open>intrsimulate\<close>, which all ask for 300, at most one can be loaded with its default at a time.
  The second load fails and changes nothing.
\<close>

theorem default_majors_clash:
  assumes "registry_ok R" "sys_reach R system0 sys"
    and "sys_loaded sys d = Some st" "drv_major st = default_major d" "d \<noteq> D_globalmem"
    and "e \<noteq> d" "e \<noteq> D_globalmem"
  shows "\<exists>err. insmod R e (default_major e) mem_ok add_ret sys = (Inl err, sys)"
proof -
  have "default_major d = 300" "default_major e = 300"
    using assms(5,7) by (cases d; cases e; simp add: default_defs)+
  then have "(default_major e mod 4096, 0) \<in> sys_taken sys"
    using sys_okD(1) [OF sys_ok_reach [OF assms(1,2)] assms(3)] assms(4) drv_minors_pos [of st]
    by (auto simp: range_of_def numbers_def)
  then show ?thesis
    using assms(1,5) \<open>default_major e = 300\<close> by (intro insmod_refused) auto
qed

lemma default_majors_clash_witness:
  "fst (insmod sample_registry D_second 300 True (\<lambda>i. 0) sample_system) \<noteq> Inr ()"
proof -
  obtain st where "sys_loaded sample_system D_globalfifo = Some st" "drv_major st = 300"
    using sample_system_fifo by blast
  then show ?thesis
    using default_majors_clash [OF sample_registry_ok sample_system_reach, of D_globalfifo st D_second True "\<lambda>i. 0"]
    by (auto simp: default_defs)
qed

text \<open>
  C30. A failed load of \<open>globalmem\<close> is for good: when its memory cannot be allocated it gives back
  one of the two device numbers it has registered, and from then on, whatever else is loaded and
  unloaded, \<open>globalmem\<close> cannot be loaded with that major number any more.
\<close>

theorem globalmem_failed_load_is_permanent:
  assumes "registry_ok R" "sys_reach R system0 sys" "ma \<noteq> 0"
    and "insmod R D_globalmem ma False add_ret sys = (Inl ENOMEM, sys')"
    and "sys_reach R sys' sys''"
  shows "\<exists>err. insmod R D_globalmem ma mem_ok add_ret' sys'' = (Inl err, sys'')"
proof -
  have "leaked sys' (ma mod 4096, 1)" by (rule globalmem_leaks [OF assms(1-4)])
  from leaked_reach [OF assms(1,5) this] show ?thesis
    using assms(1,3) by (intro insmod_refused) (auto simp: leaked_def)
qed

lemma globalmem_failed_load_is_permanent_witness:
  "fst (insmod sample_registry D_globalmem 301 True (\<lambda>i. 0)
     (snd (rmmod D_globalfifo (snd (insmod sample_registry D_globalfifo 300 True (\<lambda>i. 0)
       (snd (insmod sample_registry D_globalmem 301 False (\<lambda>i. 0) system0))))))) \<noteq> Inr ()"
proof -
  let ?sys = "snd (insmod sample_registry D_globalmem 301 False (\<lambda>i. 0) system0)"
  let ?sys' = "snd (rmmod D_globalfifo (snd (insmod sample_registry D_globalfifo 300 True (\<lambda>i. 0) ?sys)))"
  have i: "insmod sample_registry D_globalmem 301 False (\<lambda>i. 0) system0 = (Inl ENOMEM, ?sys)"
    by (simp add: insmod_def system0_def Let_def answers_def sample_registry_def globalmem_init_def)
  have "sys_reach sample_registry ?sys ?sys'" by (intro sys_reach.intros)
  from globalmem_failed_load_is_permanent [OF sample_registry_ok sys_reach.refl _ i this, of True "\<lambda>i. 0"]
  show ?thesis by auto
qed

end
