(* ===== verification/Globalfifo_Files.thy ===== *)
theory Globalfifo_Files
  imports Globalfifo
begin

text \<open>
  \<open>globalfifo\<close> behind its operation table: any number of open files on the one device, each
  opened with or without \<open>O_NONBLOCK\<close>, switched to asynchronous notification and back, and
  closed. The abstract specification is a queue of bytes with a set of subscribers; every
  session of system calls of the driver refines it.
\<close>

section \<open>The operation table\<close>

record 'u fifo_fops =
  ff_open :: "open_file \<Rightarrow> int result \<times> open_file"
  ff_release :: "fasync_helper \<Rightarrow> nat \<Rightarrow> globalfifo_dev \<Rightarrow> int result \<times> globalfifo_dev"
  ff_fasync :: "fasync_helper \<Rightarrow> int \<Rightarrow> nat \<Rightarrow> int \<Rightarrow> globalfifo_dev \<Rightarrow> int \<times> globalfifo_dev"
  ff_read :: "memcpy \<Rightarrow> 'u copy_out \<Rightarrow> (globalfifo_dev \<Rightarrow> globalfifo_dev \<times> bool) \<Rightarrow> open_file \<Rightarrow>
    globalfifo_dev \<Rightarrow> 'u \<Rightarrow> u64 \<Rightarrow> u64 \<Rightarrow>
    (int result \<times> globalfifo_dev \<times> 'u) \<times> fifo_event list \<times> lock_event list"
  ff_write :: "'u copy_in \<Rightarrow> (globalfifo_dev \<Rightarrow> globalfifo_dev \<times> bool) \<Rightarrow> open_file \<Rightarrow>
    globalfifo_dev \<Rightarrow> 'u \<Rightarrow> u64 \<Rightarrow> u64 \<Rightarrow>
    (int result \<times> globalfifo_dev) \<times> fifo_event list \<times> lock_event list"
  ff_ioctl :: "globalfifo_dev \<Rightarrow> u32 \<Rightarrow> (int result \<times> globalfifo_dev) \<times> lock_event list"
  ff_poll :: "globalfifo_dev \<Rightarrow> u32 \<times> lock_event list"

definition globalfifo_fops :: "'u fifo_fops" where
  "globalfifo_fops =
     \<lparr>ff_open = globalfifo_open, ff_release = globalfifo_release, ff_fasync = globalfifo_fasync,
      ff_read = globalfifo_read, ff_write = globalfifo_write, ff_ioctl = globalfifo_unlocked_ioctl,
      ff_poll = globalfifo_poll\<rparr>"

section \<open>System calls\<close>

text \<open>
  Files are numbered; \<open>File_open f nb\<close> makes the file \<open>f\<close>. A session is that of one task, so a call
  that has to sleep is ended by a signal only.
\<close>

datatype 'u file_call =
    File_open nat bool | File_close nat | File_fasync nat bool
  | File_read nat 'u u64 u64 | File_write nat 'u u64 u64 | File_ioctl nat u32 | File_poll nat

datatype 'u file_reply = Reply_val int | Reply_err errno | Reply_read int 'u | Reply_mask u32

record fifo_world =
  w_dev :: globalfifo_dev
  w_files :: "nat \<Rightarrow> open_file option"

definition reply_res :: "int result \<Rightarrow> 'u file_reply" where
  "reply_res r = (case r of Inl e \<Rightarrow> Reply_err e | Inr k \<Rightarrow> Reply_val k)"

definition interrupted :: "globalfifo_dev \<Rightarrow> globalfifo_dev \<times> bool" where
  "interrupted d = (d, True)"

text \<open>The files that get \<open>SIGIO\<close>: \<open>kill_fasync\<close> signals the whole queue.\<close>

definition signalled :: "fifo_event list \<Rightarrow> globalfifo_dev \<Rightarrow> nat list" where
  "signalled evs d = (if Kill_fasync \<in> set evs then async_queue d else [])"

text \<open>
  One system call: the reply, the files signalled and the new state; \<open>None\<close> for a call on a file
  that is not open.
\<close>

fun file_exec ::
  "fasync_helper \<Rightarrow> memcpy \<Rightarrow> 'u copy_out \<Rightarrow> 'u copy_in \<Rightarrow> 'u file_call \<Rightarrow> fifo_world \<Rightarrow>
     ('u file_reply \<times> nat list \<times> fifo_world) option" where
  "file_exec helper mc ctu cfu (File_open f nb) w =
     (let (r, filp) = ff_open (globalfifo_fops :: 'u fifo_fops) \<lparr>f_pos = 0, f_nonblock = nb, private_data = None\<rparr>
      in case r of
           Inl e \<Rightarrow> Some (Reply_err e, [], w)
         | Inr k \<Rightarrow> Some (Reply_val k, [], w\<lparr>w_files := (w_files w)(f \<mapsto> filp)\<rparr>))"
| "file_exec helper mc ctu cfu (File_close f) w =
     do { filp \<leftarrow> w_files w f; private_data filp;
          let (r, d) = ff_release (globalfifo_fops :: 'u fifo_fops) helper f (w_dev w);
          Some (reply_res r, [], \<lparr>w_dev = d, w_files = (w_files w)(f := None)\<rparr>) }"
| "file_exec helper mc ctu cfu (File_fasync f on) w =
     do { filp \<leftarrow> w_files w f; private_data filp;
          let (r, d) = ff_fasync (globalfifo_fops :: 'u fifo_fops) helper (int f) f (if on then 1 else 0) (w_dev w);
          Some (Reply_val r, [], w\<lparr>w_dev := d\<rparr>) }"
| "file_exec helper mc ctu cfu (File_read f us buf n) w =
     do { filp \<leftarrow> w_files w f; private_data filp;
          let ((r, d, us), evs, _) = ff_read globalfifo_fops mc ctu interrupted filp (w_dev w) us buf n;
          Some (case r of Inl e \<Rightarrow> Reply_err e | Inr k \<Rightarrow> Reply_read k us, signalled evs d, w\<lparr>w_dev := d\<rparr>) }"
| "file_exec helper mc ctu cfu (File_write f us buf n) w =
     do { filp \<leftarrow> w_files w f; private_data filp;
          let ((r, d), evs, _) = ff_write globalfifo_fops cfu interrupted filp (w_dev w) us buf n;
          Some (reply_res r, signalled evs d, w\<lparr>w_dev := d\<rparr>) }"
| "file_exec helper mc ctu cfu (File_ioctl f cmd) w =
     do { filp \<leftarrow> w_files w f; private_data filp;
          let ((r, d), _) = ff_ioctl (globalfifo_fops :: 'u fifo_fops) (w_dev w) cmd;
          Some (reply_res r, [], w\<lparr>w_dev := d\<rparr>) }"
| "file_exec helper mc ctu cfu (File_poll f) w =
     do { filp \<leftarrow> w_files w f; private_data filp;
          let (mask, _) = ff_poll (globalfifo_fops :: 'u fifo_fops) (w_dev w);
          Some (Reply_mask mask, [], w) }"

fun file_execs ::
  "fasync_helper \<Rightarrow> memcpy \<Rightarrow> 'u copy_out \<Rightarrow> 'u copy_in \<Rightarrow> 'u file_call list \<Rightarrow> fifo_world \<Rightarrow>
     (('u file_reply \<times> nat list) list \<times> fifo_world) option" where
  "file_execs helper mc ctu cfu [] w = Some ([], w)"
| "file_execs helper mc ctu cfu (c # cs) w =
     do { (r, sig, w) \<leftarrow> file_exec helper mc ctu cfu c w;
          (rs, w) \<leftarrow> file_execs helper mc ctu cfu cs w;
          Some ((r, sig) # rs, w) }"

text \<open>
  Documented behaviour of \<open>fasync_helper\<close>: it removes the file from the queue or adds it to the
  queue, and leaves the queue alone when it fails, which only adding can.
\<close>

definition fasync_ok :: "fasync_helper \<Rightarrow> bool" where
  "fasync_ok helper \<longleftrightarrow> (\<forall>fd filp mode q.
     (if mode = 0 then 0 \<le> fst (helper fd filp mode q) \<and> set (snd (helper fd filp mode q)) = set q - {filp}
      else set (snd (helper fd filp mode q)) =
        (if fst (helper fd filp mode q) < 0 then set q else insert filp (set q))))"

section \<open>The abstract device\<close>

text \<open>The queued bytes, the subscribers, and the open files with their mode.\<close>

record fifo_abs =
  q_bytes :: "u8 list"
  q_subs :: "nat set"
  q_files :: "nat \<Rightarrow> bool option"

definition fifo_abs0 :: fifo_abs where
  "fifo_abs0 = \<lparr>q_bytes = [], q_subs = {}, q_files = (\<lambda>f. None)\<rparr>"

definition would_block :: "fifo_abs \<Rightarrow> nat \<Rightarrow> 'u file_reply" where
  "would_block a f = Reply_err (if q_files a f = Some True then EAGAIN else ERESTARTSYS)"

text \<open>
  \<open>file_spec a c r sig a'\<close>: from \<open>a\<close> the call may be answered by \<open>r\<close>, with the files in \<open>sig\<close>
  signalled, and lead to \<open>a'\<close>.
\<close>

fun file_spec ::
  "'u copy_out \<Rightarrow> 'u copy_in \<Rightarrow> fifo_abs \<Rightarrow> 'u file_call \<Rightarrow> 'u file_reply \<Rightarrow> nat set \<Rightarrow> fifo_abs \<Rightarrow> bool" where
  "file_spec ctu cfu a (File_open f nb) r sig a' \<longleftrightarrow>
     r = Reply_val 0 \<and> sig = {} \<and> a' = a\<lparr>q_files := (q_files a)(f \<mapsto> nb)\<rparr>"
| "file_spec ctu cfu a (File_close f) r sig a' \<longleftrightarrow>
     r = Reply_val 0 \<and> sig = {} \<and>
     a' = a\<lparr>q_subs := q_subs a - {f}, q_files := (q_files a)(f := None)\<rparr>"
| "file_spec ctu cfu a (File_fasync f on) r sig a' \<longleftrightarrow>
     sig = {} \<and> (\<exists>k. r = Reply_val k \<and>
       a' = (if on then if k < 0 then a else a\<lparr>q_subs := insert f (q_subs a)\<rparr>
             else a\<lparr>q_subs := q_subs a - {f}\<rparr>))"
| "file_spec ctu cfu a (File_read f us buf n) r sig a' \<longleftrightarrow>
     sig = {} \<and>
     (if q_bytes a = [] then r = would_block a f \<and> a' = a
      else let k = min (unat n) (length (q_bytes a)); (us', left) = ctu us buf (take k (q_bytes a))
           in if left = 0 then r = Reply_read (int k) us' \<and> a' = a\<lparr>q_bytes := drop k (q_bytes a)\<rparr>
              else r = Reply_err EFAULT \<and> a' = a)"
| "file_spec ctu cfu a (File_write f us buf n) r sig a' \<longleftrightarrow>
     (if length (q_bytes a) = 4096 then r = would_block a f \<and> sig = {} \<and> a' = a
      else let k = min (unat n) (4096 - length (q_bytes a)); (bs, left) = cfu us buf k
           in if left = 0 then r = Reply_val (int k) \<and> sig = q_subs a \<and> a' = a\<lparr>q_bytes := q_bytes a @ bs\<rparr>
              else r = Reply_err EFAULT \<and> sig = {} \<and> a' = a)"
| "file_spec ctu cfu a (File_ioctl f cmd) r sig a' \<longleftrightarrow>
     sig = {} \<and>
     (if cmd = 1 then r = Reply_val 0 \<and> a' = a\<lparr>q_bytes := []\<rparr> else r = Reply_err EINVAL \<and> a' = a)"
| "file_spec ctu cfu a (File_poll f) r sig a' \<longleftrightarrow>
     sig = {} \<and> a' = a \<and>
     r = Reply_mask ((if q_bytes a \<noteq> [] then 0x41 else 0) OR (if length (q_bytes a) < 4096 then 0x104 else 0))"

fun file_specs ::
  "'u copy_out \<Rightarrow> 'u copy_in \<Rightarrow> fifo_abs \<Rightarrow> 'u file_call list \<Rightarrow> ('u file_reply \<times> nat list) list \<Rightarrow> fifo_abs \<Rightarrow> bool"
where
  "file_specs ctu cfu a [] [] a' \<longleftrightarrow> a' = a"
| "file_specs ctu cfu a (c # cs) ((r, sig) # rs) a' \<longleftrightarrow>
     (\<exists>b. file_spec ctu cfu a c r (set sig) b \<and> file_specs ctu cfu b cs rs a')"
| "file_specs ctu cfu a cs rs a' \<longleftrightarrow> False"

text \<open>
  The calls the specification is about: a file is opened when it is not open and used while it
  is. A read takes at least half of the queue: only then do the two ranges of the driver's
  \<open>memcpy\<close> (globalfifo.c:170), which moves the remaining bytes to the front, not overlap. For a
  shorter read the standard promises nothing.
\<close>

fun file_ok :: "fifo_abs \<Rightarrow> 'u file_call \<Rightarrow> bool" where
  "file_ok a (File_open f nb) \<longleftrightarrow> q_files a f = None"
| "file_ok a (File_close f) \<longleftrightarrow> q_files a f \<noteq> None"
| "file_ok a (File_fasync f on) \<longleftrightarrow> q_files a f \<noteq> None"
| "file_ok a (File_read f us buf n) \<longleftrightarrow> q_files a f \<noteq> None \<and> length (q_bytes a) \<le> 2 * unat n"
| "file_ok a (File_write f us buf n) \<longleftrightarrow> q_files a f \<noteq> None"
| "file_ok a (File_ioctl f cmd) \<longleftrightarrow> q_files a f \<noteq> None"
| "file_ok a (File_poll f) \<longleftrightarrow> q_files a f \<noteq> None"

text \<open>The abstract states a call can lead to; only a subscription has a choice.\<close>

fun file_next :: "'u copy_out \<Rightarrow> 'u copy_in \<Rightarrow> fifo_abs \<Rightarrow> 'u file_call \<Rightarrow> fifo_abs list" where
  "file_next ctu cfu a (File_open f nb) = [a\<lparr>q_files := (q_files a)(f \<mapsto> nb)\<rparr>]"
| "file_next ctu cfu a (File_close f) =
     [a\<lparr>q_subs := q_subs a - {f}, q_files := (q_files a)(f := None)\<rparr>]"
| "file_next ctu cfu a (File_fasync f on) =
     (if on then [a, a\<lparr>q_subs := insert f (q_subs a)\<rparr>] else [a\<lparr>q_subs := q_subs a - {f}\<rparr>])"
| "file_next ctu cfu a (File_read f us buf n) =
     (let k = min (unat n) (length (q_bytes a))
      in if q_bytes a \<noteq> [] \<and> snd (ctu us buf (take k (q_bytes a))) = 0
         then [a\<lparr>q_bytes := drop k (q_bytes a)\<rparr>] else [a])"
| "file_next ctu cfu a (File_write f us buf n) =
     (let k = min (unat n) (4096 - length (q_bytes a))
      in if length (q_bytes a) \<noteq> 4096 \<and> snd (cfu us buf k) = 0
         then [a\<lparr>q_bytes := q_bytes a @ fst (cfu us buf k)\<rparr>] else [a])"
| "file_next ctu cfu a (File_ioctl f cmd) = [if cmd = 1 then a\<lparr>q_bytes := []\<rparr> else a]"
| "file_next ctu cfu a (File_poll f) = [a]"

fun file_legal :: "'u copy_out \<Rightarrow> 'u copy_in \<Rightarrow> fifo_abs \<Rightarrow> 'u file_call list \<Rightarrow> bool" where
  "file_legal ctu cfu a [] \<longleftrightarrow> True"
| "file_legal ctu cfu a (c # cs) \<longleftrightarrow>
     file_ok a c \<and> (\<forall>b\<in>set (file_next ctu cfu a c). file_legal ctu cfu b cs)"

lemma file_spec_next: "file_spec ctu cfu a c r sig a' \<Longrightarrow> a' \<in> set (file_next ctu cfu a c)"
  by (cases c) (auto simp: Let_def split: if_splits prod.splits)

section \<open>Refinement\<close>

definition represents :: "fifo_world \<Rightarrow> fifo_abs \<Rightarrow> bool" where
  "represents w a \<longleftrightarrow> fifo_inv (w_dev w) \<and> q_bytes a = fifo_contents (w_dev w) \<and>
     q_subs a = set (async_queue (w_dev w)) \<and> q_files a = (\<lambda>f. map_option f_nonblock (w_files w f)) \<and>
     set (async_queue (w_dev w)) \<subseteq> dom (w_files w) \<and>
     (\<forall>f filp. w_files w f = Some filp \<longrightarrow> private_data filp = Some 0)"

lemma representsD:
  assumes "represents w a"
  shows "fifo_inv (w_dev w)" "q_bytes a = fifo_contents (w_dev w)"
    "q_subs a = set (async_queue (w_dev w))" "q_files a f = map_option f_nonblock (w_files w f)"
    "q_subs a \<subseteq> dom (w_files w)" "w_files w f = Some filp \<Longrightarrow> private_data filp = Some 0"
  using assms by (auto simp: represents_def)

lemma fasync_okD:
  assumes "fasync_ok helper"
  shows "0 \<le> fst (helper fd f 0 q)" "set (snd (helper fd f 0 q)) = set q - {f}"
    "set (snd (helper fd f 1 q)) = (if fst (helper fd f 1 q) < 0 then set q else insert f (set q))"
  using assms unfolding fasync_ok_def by (metis zero_neq_one)+

lemma fifo_same_queue [simp]:
  "fifo_inv (d\<lparr>async_queue := q\<rparr>) = fifo_inv d" "fifo_contents (d\<lparr>async_queue := q\<rparr>) = fifo_contents d"
  by (simp_all add: fifo_inv_def fifo_contents_def)

lemma queue_empty_iff: "fifo_inv d \<Longrightarrow> current_len d = 0 \<longleftrightarrow> fifo_contents d = []"
  using length_fifo_contents [of d] by (auto simp: unat_eq_0)

lemma queue_full_iff: "fifo_inv d \<Longrightarrow> current_len d = GLOBALFIFO_SIZE \<longleftrightarrow> length (fifo_contents d) = 4096"
  using length_fifo_contents [of d] by (auto simp: GLOBALFIFO_SIZE_def word_unat_eq_iff)

text \<open>A read fails only if its copy does.\<close>

lemma read_copy_failed:
  assumes "fifo_inv d" "globalfifo_read_copy mc ctu d us buf n = ((Inl e, d', us'), evs)"
  shows "snd (ctu us buf (take (min (unat n) (length (fifo_contents d))) (fifo_contents d))) \<noteq> 0"
proof -
  let ?c = "if n > ucast (current_len d) then ucast (current_len d) else n"
  have u: "unat ?c = min (unat n) (length (fifo_contents d))"
    unfolding min_count length_fifo_contents [OF assms(1)] by simp
  have "get_bytes (fifo_mem d) 0 (unat ?c) = take (min (unat n) (length (fifo_contents d))) (fifo_contents d)"
    unfolding u length_fifo_contents [OF assms(1)] by (simp add: get_bytes_def fifo_contents_def)
  then show ?thesis
    using assms(2) by (auto simp: globalfifo_read_copy_def Let_def split: prod.splits if_splits)
qed

lemma file_exec_read:
  assumes "memcpy_contract mc" "represents w a" "w_files w f = Some filp"
    and "length (q_bytes a) \<le> 2 * unat n"
  shows "\<exists>r sig w' a'. file_exec helper mc ctu cfu (File_read f us buf n) w = Some (r, sig, w') \<and>
    file_spec ctu cfu a (File_read f us buf n) r (set sig) a' \<and> represents w' a' \<and> w_files w' = w_files w"
proof -
  note rep = representsD [OF assms(2)]
  let ?d = "w_dev w"
  show ?thesis
  proof (cases "fifo_contents ?d = []")
    case True
    then show ?thesis
      using assms(2,3) rep queue_empty_iff [OF rep(1)]
      by (simp add: globalfifo_fops_def globalfifo_read_def interrupted_def would_block_def signalled_def)
  next
    case False
    obtain r d us' evs where c: "globalfifo_read_copy mc ctu ?d us buf n = ((r, d, us'), evs)"
      by (metis prod.exhaust)
    have h: "globalfifo_read mc ctu interrupted filp ?d us buf n =
        ((r, d, us'), evs, [Acquire, Touch, Release])"
      using c False queue_empty_iff [OF rep(1)] by (simp add: globalfifo_read_def)
    show ?thesis
    proof (cases r)
      case (Inl e)
      have "d = ?d" "e = EFAULT" "evs = []" using read_copy_fail [of mc ctu ?d us buf n e d us' evs] c Inl by simp_all
      moreover have "snd (ctu us buf (take (min (unat n) (length (fifo_contents ?d))) (fifo_contents ?d))) \<noteq> 0"
        by (rule read_copy_failed [OF rep(1) c [unfolded Inl]])
      ultimately show ?thesis
        using assms(2,3) rep h Inl False
        by (simp add: globalfifo_fops_def signalled_def split_beta)
    next
      case (Inr k)
      have "moves_rest mc ?d n"
        using assms(1,4) rep(2) length_fifo_contents [OF rep(1)]
        by (simp add: moves_rest_def disjoint_read_def)
      note ok = read_copy_ok [OF this rep(1) c [unfolded Inr]]
      let ?k = "min (unat n) (length (fifo_contents ?d))"
      have k: "nat k = ?k" using ok by simp
      have "represents (w\<lparr>w_dev := d\<rparr>) (a\<lparr>q_bytes := drop ?k (q_bytes a)\<rparr>)"
        using assms(2) ok k by (simp add: represents_def)
      then show ?thesis
        using assms(3) rep h Inr False ok k
        by (simp add: globalfifo_fops_def signalled_def)
    qed
  qed
qed

lemma file_exec_write:
  assumes "copy_in_fills cfu" "represents w a" "w_files w f = Some filp"
  shows "\<exists>r sig w' a'. file_exec helper mc ctu cfu (File_write f us buf n) w = Some (r, sig, w') \<and>
    file_spec ctu cfu a (File_write f us buf n) r (set sig) a' \<and> represents w' a' \<and> w_files w' = w_files w"
proof -
  note rep = representsD [OF assms(2)]
  let ?d = "w_dev w"
  show ?thesis
  proof (cases "length (fifo_contents ?d) = 4096")
    case True
    then show ?thesis
      using assms(2,3) rep queue_full_iff [OF rep(1)]
      by (simp add: globalfifo_fops_def globalfifo_write_def interrupted_def would_block_def signalled_def
          reply_res_def)
  next
    case False
    obtain r d evs where c: "globalfifo_write_copy cfu ?d us buf n = ((r, d), evs)"
      by (metis prod.exhaust)
    have h: "globalfifo_write cfu interrupted filp ?d us buf n = ((r, d), evs, [Acquire, Touch, Release])"
      using c False queue_full_iff [OF rep(1)] by (simp add: globalfifo_write_def)
    let ?k = "min (unat n) (4096 - length (fifo_contents ?d))"
    obtain bs left where b: "cfu us buf ?k = (bs, left)" by fastforce
    note sp = write_copy_spec [OF rep(1) assms(1) c]
    show ?thesis
    proof (cases "left = 0")
      case True
      then have sp': "r = Inr (int ?k)" "fifo_inv d" "async_queue d = async_queue ?d"
        "fifo_contents d = fifo_contents ?d @ bs" "set (signalled evs d) = set (async_queue ?d)"
        using sp b by (auto simp: signalled_def)
      then have "represents (w\<lparr>w_dev := d\<rparr>) (a\<lparr>q_bytes := q_bytes a @ bs\<rparr>)"
        using assms(2) by (simp add: represents_def)
      then show ?thesis
        using assms(3) rep h False sp' b True by (simp add: globalfifo_fops_def reply_res_def)
    next
      case fails: False
      then have sp': "r = Inl EFAULT" "fifo_inv d" "async_queue d = async_queue ?d"
        "fifo_contents d = fifo_contents ?d" "signalled evs d = []"
        using sp b by (auto simp: signalled_def)
      then have "represents (w\<lparr>w_dev := d\<rparr>) a" using assms(2) by (simp add: represents_def)
      then show ?thesis
        using assms(3) rep h False sp' b fails by (simp add: globalfifo_fops_def reply_res_def)
    qed
  qed
qed

lemma file_exec_fasync:
  assumes "fasync_ok helper" "represents w a" "w_files w f = Some filp"
  shows "\<exists>r sig w' a'. file_exec helper mc ctu cfu (File_fasync f on) w = Some (r, sig, w') \<and>
    file_spec ctu cfu a (File_fasync f on) r (set sig) a' \<and> represents w' a' \<and> w_files w' = w_files w"
proof -
  note rep = representsD [OF assms(2)] and hlp = fasync_okD [OF assms(1)]
  let ?h = "helper (int f) f (if on then 1 else 0) (async_queue (w_dev w))"
  let ?w = "w\<lparr>w_dev := (w_dev w)\<lparr>async_queue := snd ?h\<rparr>\<rparr>"
  let ?a = "if on then if fst ?h < 0 then a else a\<lparr>q_subs := insert f (q_subs a)\<rparr>
    else a\<lparr>q_subs := q_subs a - {f}\<rparr>"
  have "represents ?w ?a"
    using assms(2,3) hlp(2,3) [of "int f" f "async_queue (w_dev w)"] by (auto simp: represents_def)
  then show ?thesis
    using assms(3) rep by (auto simp: globalfifo_fops_def globalfifo_fasync_def split_beta)
qed

lemma file_exec_close:
  assumes "fasync_ok helper" "represents w a" "w_files w f = Some filp"
  shows "\<exists>w' a'. file_exec helper mc ctu cfu (File_close f) w = Some (Reply_val 0, [], w') \<and>
    file_spec ctu cfu a (File_close f) (Reply_val 0) {} a' \<and> represents w' a' \<and>
    w_files w' = (w_files w)(f := None)"
proof -
  note rep = representsD [OF assms(2)] and hlp = fasync_okD [OF assms(1)]
  let ?h = "helper (-1) f 0 (async_queue (w_dev w))"
  let ?w = "\<lparr>w_dev = (w_dev w)\<lparr>async_queue := snd ?h\<rparr>, w_files = (w_files w)(f := None)\<rparr>"
  have "represents ?w (a\<lparr>q_subs := q_subs a - {f}, q_files := (q_files a)(f := None)\<rparr>)"
    using assms(2) hlp(2) [of "-1" f "async_queue (w_dev w)"] by (auto simp: represents_def)
  then show ?thesis
    using assms(3) rep
    by (simp add: globalfifo_fops_def globalfifo_release_def globalfifo_fasync_def reply_res_def split_beta)
qed

lemma file_exec_open:
  assumes "represents w a" "w_files w f = None"
  shows "\<exists>w' a'. file_exec helper mc ctu cfu (File_open f nb) w = Some (Reply_val 0, [], w') \<and>
    file_spec ctu cfu a (File_open f nb) (Reply_val 0) {} a' \<and> represents w' a' \<and>
    dom (w_files w') = insert f (dom (w_files w))"
  using assms by (auto simp: globalfifo_fops_def globalfifo_open_def represents_def)

lemma file_exec_ioctl:
  assumes "represents w a" "w_files w f = Some filp"
  shows "\<exists>r w' a'. file_exec helper mc ctu cfu (File_ioctl f cmd) w = Some (r, [], w') \<and>
    file_spec ctu cfu a (File_ioctl f cmd) r {} a' \<and> represents w' a' \<and> w_files w' = w_files w"
  using assms representsD(6) [OF assms]
  by (auto simp: globalfifo_fops_def globalfifo_unlocked_ioctl_def reply_res_def represents_def
      fifo_inv_def fifo_contents_def FIFO_CLEAR_def GLOBALFIFO_SIZE_def)

lemma file_exec_poll:
  assumes "represents w a" "w_files w f = Some filp"
  shows "\<exists>r. file_exec helper mc ctu cfu (File_poll f) w = Some (r, [], w) \<and>
    file_spec ctu cfu a (File_poll f) r {} a"
proof -
  note rep = representsD [OF assms(1)]
  have "length (fifo_contents (w_dev w)) \<le> 4096"
    using length_fifo_contents [OF rep(1)] rep(1) by (simp add: fifo_inv_def)
  then show ?thesis
    using assms(2) rep queue_empty_iff [OF rep(1)] queue_full_iff [OF rep(1)]
    by (auto simp: globalfifo_fops_def globalfifo_poll_def POLLIN_def POLLOUT_def POLLRDNORM_def
        POLLWRNORM_def Let_def)
qed

text \<open>One legal call, whatever it is.\<close>

lemma file_exec_refines:
  assumes mc: "memcpy_contract mc" and cf: "copy_in_fills cfu" and h: "fasync_ok helper"
    and rep: "represents w a" and ok: "file_ok a c"
  shows "\<exists>r sig w' a'. file_exec helper mc ctu cfu c w = Some (r, sig, w') \<and>
    file_spec ctu cfu a c r (set sig) a' \<and> represents w' a'"
proof -
  have opn: "\<exists>filp. w_files w f = Some filp" if "q_files a f \<noteq> None" for f
    using that representsD(4) [OF rep, of f] by auto
  show ?thesis
  proof (cases c)
    case (File_open f nb)
    then have "w_files w f = None" using ok representsD(4) [OF rep, of f] by simp
    from file_exec_open [OF rep this, of helper mc ctu cfu nb] show ?thesis
      unfolding File_open by (metis empty_set)
  next
    case (File_close f)
    then obtain filp where f: "w_files w f = Some filp" using ok opn by auto
    show ?thesis using file_exec_close [OF h rep f, of mc ctu cfu] unfolding File_close
      by (metis empty_set)
  next
    case (File_fasync f on)
    then obtain filp where f: "w_files w f = Some filp" using ok opn by auto
    show ?thesis using file_exec_fasync [OF h rep f, of mc ctu cfu on] unfolding File_fasync
      by (metis empty_set)
  next
    case (File_read f us buf n)
    then obtain filp where f: "w_files w f = Some filp" using ok opn by auto
    have l: "length (q_bytes a) \<le> 2 * unat n" using ok File_read by simp
    show ?thesis using file_exec_read [OF mc rep f l, of helper ctu cfu us buf] unfolding File_read by metis
  next
    case (File_write f us buf n)
    then obtain filp where f: "w_files w f = Some filp" using ok opn by auto
    show ?thesis using file_exec_write [OF cf rep f, of helper mc ctu us buf n] unfolding File_write by metis
  next
    case (File_ioctl f cmd)
    then obtain filp where f: "w_files w f = Some filp" using ok opn by auto
    show ?thesis using file_exec_ioctl [OF rep f, of helper mc ctu cfu cmd] unfolding File_ioctl
      by (metis empty_set)
  next
    case (File_poll f)
    then obtain filp where f: "w_files w f = Some filp" using ok opn by auto
    show ?thesis using file_exec_poll [OF rep f, of helper mc ctu cfu] rep unfolding File_poll
      by (metis empty_set)
  qed
qed

lemma file_execs_refine:
  assumes "memcpy_contract mc" "copy_in_fills cfu" "fasync_ok helper"
    and "represents w a" "file_legal ctu cfu a cs"
  shows "\<exists>rs w' a'. file_execs helper mc ctu cfu cs w = Some (rs, w') \<and> file_specs ctu cfu a cs rs a' \<and>
    represents w' a'"
  using assms(4,5)
proof (induction cs arbitrary: w a)
  case (Cons c cs)
  obtain r sig w1 a1 where 1: "file_exec helper mc ctu cfu c w = Some (r, sig, w1)"
    "file_spec ctu cfu a c r (set sig) a1" "represents w1 a1"
    using file_exec_refines [OF assms(1-3) Cons.prems(1), of c ctu] Cons.prems(2) by auto
  have l: "file_legal ctu cfu a1 cs" using Cons.prems(2) file_spec_next [OF 1(2)] by simp
  obtain rs w' a' where 2: "file_execs helper mc ctu cfu cs w1 = Some (rs, w')"
    "file_specs ctu cfu a1 cs rs a'" "represents w' a'"
    using Cons.IH [OF 1(3) l] by blast
  have "file_specs ctu cfu a (c # cs) ((r, sig) # rs) a'" using 1(2) 2(2) by auto
  then show ?case using 1(1) 2(1,3) by fastforce
qed simp

section \<open>Properties\<close>

lemma represents0: "represents \<lparr>w_dev = globalfifo_dev0, w_files = (\<lambda>f. None)\<rparr> fifo_abs0"
  using fifo_inv_dev0 by (simp add: represents_def fifo_abs0_def fifo_contents_def globalfifo_dev0_def)

lemma globalfifo_init_dev0:
  "globalfifo_init k m0 = (Inr (), m, tr) \<Longrightarrow> globalfifo_devp m = Some globalfifo_dev0"
  by (auto simp: globalfifo_init_def Let_def split: if_splits)

lemma globalfifo_init_live:
  "globalfifo_init k m0 = (Inr (), m, tr) \<Longrightarrow> cdev_add_ret k 0 = 0 \<Longrightarrow> live {} tr = {0}"
  by (auto simp: globalfifo_init_def globalfifo_setup_cdev_def Let_def split: if_splits)

text \<open>
  C3. After a successful load whose \<open>cdev_add\<close> succeeded too, any session of system calls of one
  task on any number of open files is that of one bounded byte queue with subscribers: what one
  file writes any file can read, \<open>EAGAIN\<close> or an interrupted sleep answers exactly the calls that
  find the queue empty or full, \<open>poll\<close> tells the state of the queue, and each accepted write
  signals exactly the files that are open and subscribed; closing a file ends its subscription.
  Nothing is asked of \<open>memcpy\<close> but what the standard promises, so the session is one in which
  every read takes at least half of the bytes queued: for these the two ranges of the driver's
  \<open>memcpy\<close> do not overlap (a shorter read can corrupt the queue, C36).
\<close>

theorem globalfifo_files_refine:
  assumes "memcpy_contract mc" "copy_in_fills cfu" "fasync_ok helper"
    and "globalfifo_init k m0 = (Inr (), m, tr)" "cdev_add_ret k 0 = 0"
    and "file_legal ctu cfu fifo_abs0 cs"
  shows "\<exists>d rs w a. live {} tr = {0} \<and> globalfifo_devp m = Some d \<and>
    file_execs helper mc ctu cfu cs \<lparr>w_dev = d, w_files = (\<lambda>f. None)\<rparr> = Some (rs, w) \<and>
    file_specs ctu cfu fifo_abs0 cs rs a \<and> represents w a \<and> q_subs a \<subseteq> dom (q_files a)"
proof -
  from file_execs_refine [OF assms(1-3) represents0 assms(6)] obtain rs w a where
    "file_execs helper mc ctu cfu cs \<lparr>w_dev = globalfifo_dev0, w_files = (\<lambda>f. None)\<rparr> = Some (rs, w)"
    "file_specs ctu cfu fifo_abs0 cs rs a" "represents w a" by blast
  moreover from this have "q_subs a \<subseteq> dom (q_files a)" by (auto simp: represents_def dom_def)
  ultimately show ?thesis
    using globalfifo_init_dev0 [OF assms(4)] globalfifo_init_live [OF assms(4,5)] by blast
qed

definition sample_helper :: fasync_helper where
  "sample_helper fd filp mode q = (if mode = 0 then (0, removeAll filp q) else (1, filp # removeAll filp q))"

lemma sample_helper_ok: "fasync_ok sample_helper"
  by (auto simp: fasync_ok_def sample_helper_def)

definition sample_file_calls :: "u8 list file_call list" where
  "sample_file_calls = [File_open 0 True, File_open 1 True, File_write 0 [5, 6] 0 2, File_read 1 [0, 0, 0] 0 3,
     File_read 0 [0] 0 1, File_close 1, File_poll 0]"

lemma globalfifo_files_refine_witness:
  "\<exists>m tr d rs w. globalfifo_init kenv_fine globalfifo_module0 = (Inr (), m, tr) \<and> globalfifo_devp m = Some d \<and>
     file_execs sample_helper copy_down flat_out flat_in sample_file_calls
       \<lparr>w_dev = d, w_files = (\<lambda>f. None)\<rparr> = Some (rs, w) \<and>
     map fst rs = [Reply_val 0, Reply_val 0, Reply_val 2, Reply_read 2 [5, 6, 0], Reply_err EAGAIN,
       Reply_val 0, Reply_mask 0x104]"
proof -
  obtain r m tr where i: "globalfifo_init kenv_fine globalfifo_module0 = (r, m, tr)" by (rule prod_cases3)
  then have r: "r = Inr ()"
    by (auto simp: globalfifo_init_def globalfifo_module0_def GLOBALFIFO_MAJOR_def kenv_fine_def)
  have c: "cdev_add_ret kenv_fine 0 = 0" by (simp add: kenv_fine_def)
  have l: "file_legal flat_out flat_in fifo_abs0 sample_file_calls"
    by (simp add: sample_file_calls_def fifo_abs0_def flat_in_def flat_out_def)
  obtain d rs w a where e: "globalfifo_devp m = Some d"
    "file_execs sample_helper copy_down flat_out flat_in sample_file_calls
       \<lparr>w_dev = d, w_files = (\<lambda>f. None)\<rparr> = Some (rs, w)"
    "file_specs flat_out flat_in fifo_abs0 sample_file_calls rs a"
    using globalfifo_files_refine [OF copy_down_contract copy_in_fills_flat sample_helper_ok i [unfolded r] c l]
    by blast
  from e(3) have "map fst rs = [Reply_val 0, Reply_val 0, Reply_val 2, Reply_read 2 [5, 6, 0], Reply_err EAGAIN,
       Reply_val 0, Reply_mask 0x104]"
    by (cases rs)
       (auto simp: sample_file_calls_def fifo_abs0_def flat_in_def flat_out_def would_block_def Let_def
         elim!: file_specs.elims)
  with e(1,2) i [unfolded r] show ?thesis by (intro exI conjI)
qed

end
