(* ===== verification/Sbull_Session.thy ===== *)
theory Sbull_Session
  imports Sbull_Props Sbull_Load
begin

text \<open>
  The RAM disk behind its operation tables, from loading on: any number of disks, opened, closed,
  asked for their geometry, read and written in any order. Two specifications are compared with
  it. \<open>flat_exec\<close> is what the code does, one flat array and one use count per disk, with the position
  of a request taken as a byte offset and the byte count as a number of sectors. \<open>sector_exec\<close> is the
  disk the comments describe (sbull.c:58 and the \<open>offset\<close> of \<open>sbull_transfer\<close>), with positions in
  sectors of 512 bytes. The two agree on requests from sector 0 on, and only there.
\<close>

section \<open>The operation tables\<close>

record 'u sbull_fops =
  bd_open :: "sbull_dev \<Rightarrow> int result \<times> bool \<times> sbull_dev"
  bd_release :: "sbull_dev \<Rightarrow> bool \<times> sbull_dev"
  bd_media_changed :: "sbull_dev \<Rightarrow> int"
  bd_ioctl :: "('u \<Rightarrow> u64 \<Rightarrow> hd_geometry \<Rightarrow> 'u \<times> u64) \<Rightarrow> int \<Rightarrow> sbull_dev \<Rightarrow> 'u \<Rightarrow> u32 \<Rightarrow> u64 \<Rightarrow>
    int result \<times> 'u"

definition sbull_ops :: "'u sbull_fops" where
  "sbull_ops = \<lparr>bd_open = sbull_open, bd_release = sbull_release,
     bd_media_changed = sbull_media_changed, bd_ioctl = sbull_ioctl\<rparr>"

type_synonym blk_update = "request \<Rightarrow> blk_status \<Rightarrow> u32 \<Rightarrow> bool"

record mq_ops =
  mq_queue_rq :: "blk_update \<Rightarrow> sbull_dev \<Rightarrow> request \<Rightarrow> (blk_status \<times> sbull_dev \<times> request \<times> u32) option"

definition sbull_mq_ops :: mq_ops where
  "sbull_mq_ops = \<lparr>mq_queue_rq = queue_rq\<rparr>"

section \<open>Calls of the block layer\<close>

text \<open>
  A call names its disk. \<open>Disk_write\<close> and \<open>Disk_read\<close> are requests at a position with the buffers
  of their segments; what a request delivers is the concatenation of the buffers.
\<close>

datatype 'u disk_call =
    Disk_open nat | Disk_release nat | Disk_changed nat | Disk_ioctl nat 'u u32 u64
  | Disk_write nat u64 "u8 list list" | Disk_read nat u64 "u8 list list"

datatype 'u disk_reply =
    Opened bool | Released bool | Changed int | Ioctl "int result" 'u | Done u32 "u8 list"

primrec disk_of :: "'u disk_call \<Rightarrow> nat" where
  "disk_of (Disk_open i) = i" | "disk_of (Disk_release i) = i" | "disk_of (Disk_changed i) = i"
| "disk_of (Disk_ioctl i us cmd arg) = i" | "disk_of (Disk_write i pos segs) = i"
| "disk_of (Disk_read i pos segs) = i"

text \<open>
  The call on its device: file operations go through the disk, requests through the queue;
  \<open>None\<close> when the device has none, and for \<open>BUG\<close> and accesses outside the array.
\<close>

fun dev_exec ::
  "blk_update \<Rightarrow> ('u \<Rightarrow> u64 \<Rightarrow> hd_geometry \<Rightarrow> 'u \<times> u64) \<Rightarrow> int \<Rightarrow> 'u disk_call \<Rightarrow> sbull_dev \<Rightarrow>
     ('u disk_reply \<times> sbull_dev) option" where
  "dev_exec upd ctu hs (Disk_open i) dev =
     do { gd dev; let (r, chk, dev) = bd_open (sbull_ops :: 'u sbull_fops) dev; Some (Opened chk, dev) }"
| "dev_exec upd ctu hs (Disk_release i) dev =
     do { gd dev; let (timer, dev) = bd_release (sbull_ops :: 'u sbull_fops) dev; Some (Released timer, dev) }"
| "dev_exec upd ctu hs (Disk_changed i) dev =
     do { gd dev; Some (Changed (bd_media_changed (sbull_ops :: 'u sbull_fops) dev), dev) }"
| "dev_exec upd ctu hs (Disk_ioctl i us cmd arg) dev =
     do { gd dev; let (r, us) = bd_ioctl sbull_ops ctu hs dev us cmd arg; Some (Ioctl r us, dev) }"
| "dev_exec upd ctu hs (Disk_write i pos segs) dev =
     (if \<not> queue dev then None
      else do { (st, dev, rq, n) \<leftarrow> mq_queue_rq sbull_mq_ops upd dev
                  \<lparr>rq_pos = pos, rq_write = True, rq_segs = segs\<rparr>;
                Some (Done n (concat (rq_segs rq)), dev) })"
| "dev_exec upd ctu hs (Disk_read i pos segs) dev =
     (if \<not> queue dev then None
      else do { (st, dev, rq, n) \<leftarrow> mq_queue_rq sbull_mq_ops upd dev
                  \<lparr>rq_pos = pos, rq_write = False, rq_segs = segs\<rparr>;
                Some (Done n (concat (rq_segs rq)), dev) })"

fun disk_execs ::
  "blk_update \<Rightarrow> ('u \<Rightarrow> u64 \<Rightarrow> hd_geometry \<Rightarrow> 'u \<times> u64) \<Rightarrow> int \<Rightarrow> 'u disk_call list \<Rightarrow> sbull_dev list \<Rightarrow>
     ('u disk_reply list \<times> sbull_dev list) option" where
  "disk_execs upd ctu hs [] devs = Some ([], devs)"
| "disk_execs upd ctu hs (c # cs) devs =
     (if disk_of c \<ge> length devs then None
      else do { (r, dev) \<leftarrow> dev_exec upd ctu hs c (devs ! disk_of c);
                (rs, devs) \<leftarrow> disk_execs upd ctu hs cs (devs[disk_of c := dev]);
                Some (r # rs, devs) })"

text \<open>Documented behaviour of \<open>blk_update_request\<close>: it answers whether bytes of the request are left.\<close>

definition blk_update_ok :: "blk_update \<Rightarrow> bool" where
  "blk_update_ok upd \<longleftrightarrow> (\<forall>rq st k. upd rq st k \<longleftrightarrow> unat k < length (concat (rq_segs rq)))"

section \<open>What the code does, as flat arrays\<close>

record flat_disk =
  fd_bytes :: "u8 list"
  fd_users :: nat

text \<open>
  The code's own addressing: the byte at the request's position (sbull.c:150) and a geometry that
  takes the size in bytes for sectors (sbull.c:74).
\<close>

definition flat_geometry :: "nat \<Rightarrow> hd_geometry" where
  "flat_geometry n = \<lparr>heads = 4, sectors = 16, cylinders = of_nat (n div 64), geo_start = 4\<rparr>"

fun flat_exec ::
  "('u \<Rightarrow> u64 \<Rightarrow> hd_geometry \<Rightarrow> 'u \<times> u64) \<Rightarrow> 'u disk_call \<Rightarrow> flat_disk \<Rightarrow> 'u disk_reply \<times> flat_disk" where
  "flat_exec ctu (Disk_open i) a = (Opened (fd_users a = 0), a\<lparr>fd_users := fd_users a + 1\<rparr>)"
| "flat_exec ctu (Disk_release i) a = (Released (fd_users a = 1), a\<lparr>fd_users := fd_users a - 1\<rparr>)"
| "flat_exec ctu (Disk_changed i) a = (Changed 0, a)"
| "flat_exec ctu (Disk_ioctl i us cmd arg) a =
     (if cmd = HDIO_GETGEO then
        let (us, left) = ctu us arg (flat_geometry (length (fd_bytes a)))
        in (Ioctl (if left = 0 then Inr 0 else Inl EFAULT) us, a)
      else (Ioctl (Inl ENOTTY) us, a))"
| "flat_exec ctu (Disk_write i pos segs) a =
     (Done (of_nat (length (concat segs))) (concat segs),
      a\<lparr>fd_bytes := put_bytes (fd_bytes a) (unat pos) (concat segs)\<rparr>)"
| "flat_exec ctu (Disk_read i pos segs) a =
     (Done (of_nat (length (concat segs))) (get_bytes (fd_bytes a) (unat pos) (length (concat segs))), a)"

fun flat_execs ::
  "('u \<Rightarrow> u64 \<Rightarrow> hd_geometry \<Rightarrow> 'u \<times> u64) \<Rightarrow> 'u disk_call list \<Rightarrow> flat_disk list \<Rightarrow>
     'u disk_reply list \<times> flat_disk list" where
  "flat_execs ctu [] as = ([], as)"
| "flat_execs ctu (c # cs) as =
     (let (r, a) = flat_exec ctu c (as ! disk_of c);
          (rs, as) = flat_execs ctu cs (as[disk_of c := a])
      in (r # rs, as))"

text \<open>
  Calls the kernel makes: a disk is closed by those who have it open, by fewer than \<open>2 ^ 16\<close>
  (the count is a \<open>short\<close>), and a request stays within the array.
\<close>

fun flat_legal :: "'u disk_call \<Rightarrow> flat_disk \<Rightarrow> bool" where
  "flat_legal (Disk_open i) a \<longleftrightarrow> fd_users a + 1 < 2 ^ 16"
| "flat_legal (Disk_release i) a \<longleftrightarrow> 0 < fd_users a"
| "flat_legal (Disk_write i pos segs) a \<longleftrightarrow> unat pos + length (concat segs) \<le> length (fd_bytes a)"
| "flat_legal (Disk_read i pos segs) a \<longleftrightarrow> unat pos + length (concat segs) \<le> length (fd_bytes a)"
| "flat_legal c a \<longleftrightarrow> True"

fun disks_legal :: "('u \<Rightarrow> u64 \<Rightarrow> hd_geometry \<Rightarrow> 'u \<times> u64) \<Rightarrow> 'u disk_call list \<Rightarrow> flat_disk list \<Rightarrow> bool" where
  "disks_legal ctu [] as \<longleftrightarrow> True"
| "disks_legal ctu (c # cs) as \<longleftrightarrow>
     disk_of c < length as \<and> flat_legal c (as ! disk_of c) \<and>
     disks_legal ctu cs (as[disk_of c := snd (flat_exec ctu c (as ! disk_of c))])"

section \<open>The disks as documented\<close>

text \<open>
  The disk of the comments: a request at sector \<open>pos\<close> moves the bytes from \<open>512 * pos\<close> on, and the
  geometry is computed from the number of sectors.
\<close>

definition sector_geometry :: "nat \<Rightarrow> hd_geometry" where
  "sector_geometry nsect = \<lparr>heads = 4, sectors = 16, cylinders = of_nat (nsect div 64), geo_start = 4\<rparr>"

fun sector_exec ::
  "('u \<Rightarrow> u64 \<Rightarrow> hd_geometry \<Rightarrow> 'u \<times> u64) \<Rightarrow> 'u disk_call \<Rightarrow> flat_disk \<Rightarrow> 'u disk_reply \<times> flat_disk" where
  "sector_exec ctu (Disk_open i) a = (Opened (fd_users a = 0), a\<lparr>fd_users := fd_users a + 1\<rparr>)"
| "sector_exec ctu (Disk_release i) a = (Released (fd_users a = 1), a\<lparr>fd_users := fd_users a - 1\<rparr>)"
| "sector_exec ctu (Disk_changed i) a = (Changed 0, a)"
| "sector_exec ctu (Disk_ioctl i us cmd arg) a =
     (if cmd = HDIO_GETGEO then
        let (us, left) = ctu us arg (sector_geometry (length (fd_bytes a) div 512))
        in (Ioctl (if left = 0 then Inr 0 else Inl EFAULT) us, a)
      else (Ioctl (Inl ENOTTY) us, a))"
| "sector_exec ctu (Disk_write i pos segs) a =
     (Done (of_nat (length (concat segs))) (concat segs),
      a\<lparr>fd_bytes := put_bytes (fd_bytes a) (512 * unat pos) (concat segs)\<rparr>)"
| "sector_exec ctu (Disk_read i pos segs) a =
     (Done (of_nat (length (concat segs)))
        (get_bytes (fd_bytes a) (512 * unat pos) (length (concat segs))), a)"

fun sector_execs ::
  "('u \<Rightarrow> u64 \<Rightarrow> hd_geometry \<Rightarrow> 'u \<times> u64) \<Rightarrow> 'u disk_call list \<Rightarrow> flat_disk list \<Rightarrow>
     'u disk_reply list \<times> flat_disk list" where
  "sector_execs ctu [] as = ([], as)"
| "sector_execs ctu (c # cs) as =
     (let (r, a) = sector_exec ctu c (as ! disk_of c);
          (rs, as) = sector_execs ctu cs (as[disk_of c := a])
      in (r # rs, as))"

text \<open>
  The calls for which the code is that disk: requests of whole sectors from sector 0 on, at most
  the whole disk, and no question for the geometry.
\<close>

fun sector_legal :: "'u disk_call \<Rightarrow> flat_disk \<Rightarrow> bool" where
  "sector_legal (Disk_open i) a \<longleftrightarrow> fd_users a + 1 < 2 ^ 16"
| "sector_legal (Disk_release i) a \<longleftrightarrow> 0 < fd_users a"
| "sector_legal (Disk_changed i) a \<longleftrightarrow> True"
| "sector_legal (Disk_ioctl i us cmd arg) a \<longleftrightarrow> cmd \<noteq> HDIO_GETGEO"
| "sector_legal (Disk_write i pos segs) a \<longleftrightarrow>
     pos = 0 \<and> 512 dvd length (concat segs) \<and> length (concat segs) \<le> length (fd_bytes a)"
| "sector_legal (Disk_read i pos segs) a \<longleftrightarrow>
     pos = 0 \<and> 512 dvd length (concat segs) \<and> length (concat segs) \<le> length (fd_bytes a)"

fun sectors_legal :: "('u \<Rightarrow> u64 \<Rightarrow> hd_geometry \<Rightarrow> 'u \<times> u64) \<Rightarrow> 'u disk_call list \<Rightarrow> flat_disk list \<Rightarrow> bool" where
  "sectors_legal ctu [] as \<longleftrightarrow> True"
| "sectors_legal ctu (c # cs) as \<longleftrightarrow>
     disk_of c < length as \<and> sector_legal c (as ! disk_of c) \<and>
     sectors_legal ctu cs (as[disk_of c := snd (sector_exec ctu c (as ! disk_of c))])"

lemma sector_exec_flat:
  "sector_legal c a \<Longrightarrow> flat_legal c a \<and> flat_exec ctu c a = sector_exec ctu c a"
  by (cases c) auto

lemma sector_execs_flat:
  "sectors_legal ctu cs as \<Longrightarrow> disks_legal ctu cs as \<and> flat_execs ctu cs as = sector_execs ctu cs as"
proof (induction cs arbitrary: as)
  case (Cons c cs)
  then show ?case using sector_exec_flat [of c "as ! disk_of c" ctu] by (simp add: split_beta)
qed simp

section \<open>Refinement\<close>

definition disk_rep :: "sbull_dev \<Rightarrow> flat_disk \<Rightarrow> bool" where
  "disk_rep dev a \<longleftrightarrow> gd dev \<noteq> None \<and> queue dev \<and> media_change dev = 0 \<and>
     data dev = Live (fd_bytes a) \<and> length (fd_bytes a) = unat (dev_size dev) \<and>
     users dev = of_nat (fd_users a) \<and> fd_users a < 2 ^ 16"

lemma users_zero: "n < 2 ^ 16 \<Longrightarrow> (of_nat n :: u16) = 0 \<longleftrightarrow> n = 0"
  by (auto simp: word_of_nat_eq_0_iff dest: dvd_imp_le)

lemma geometry_flat:
  assumes "length d = unat (dev_size dev)"
  shows "sbull_geometry 512 dev = flat_geometry (length d)"
proof -
  let ?z = "ucast (dev_size dev) :: u64"
  have "drop_bit 6 (?z AND NOT 0x3f) = drop_bit 6 ?z"
  proof (rule bit_word_eqI)
    fix k assume "k < LENGTH(64)"
    have m: "(NOT 0x3f :: u64) = NOT (mask 6)" by (simp add: mask_eq_exp_minus_1)
    show "bit (drop_bit 6 (?z AND NOT 0x3f)) k = bit (drop_bit 6 ?z) k"
      unfolding m bit_drop_bit_eq bit_and_iff bit_not_iff bit_mask_iff o_apply
      by (auto dest: bit_imp_le_length)
  qed
  moreover have "drop_bit 6 ?z = of_nat (unat (dev_size dev) div 64)"
  proof -
    have "unat (drop_bit 6 ?z) = unat (dev_size dev) div 64"
      by (simp only: unat_drop_bit_eq unat_dev_size) (simp add: drop_bit_eq_div)
    then show ?thesis by (metis of_nat_unat ucast_id)
  qed
  ultimately show ?thesis
    using assms by (simp add: sbull_geometry_def flat_geometry_def c_div_def Let_def ucast_of_nat_16)
qed

lemma write_flat:
  assumes "blk_update_ok upd" "disk_rep dev a" "unat pos + length (concat segs) \<le> length (fd_bytes a)"
  shows "queue_rq upd dev \<lparr>rq_pos = pos, rq_write = True, rq_segs = segs\<rparr> =
    Some (BLK_STS_OK, dev\<lparr>data := Live (put_bytes (fd_bytes a) (unat pos) (concat segs))\<rparr>,
      \<lparr>rq_pos = pos, rq_write = True, rq_segs = segs\<rparr>, of_nat (length (concat segs)))"
proof -
  note r = assms(2) [unfolded disk_rep_def]
  have "unat (dev_size dev) < 2 ^ 32" using unsigned_less [of "dev_size dev"] by simp
  then have l: "length (concat segs) < 2 ^ 32" using assms(3) r by linarith
  then have u: "unat (of_nat (length (concat segs)) :: u32) = length (concat segs)"
    by (simp add: unsigned_of_nat take_bit_nat_eq_self)
  have "min (length (concat segs)) (unat (dev_size dev) - unat pos) = length (concat segs)"
    using assms(3) r by simp
  then show ?thesis
    using write_request [of dev "fd_bytes a" "\<lparr>rq_pos = pos, rq_write = True, rq_segs = segs\<rparr>"]
      assms(1,3) r l u by (simp add: queue_rq_def blk_update_ok_def)
qed

lemma read_flat:
  assumes "blk_update_ok upd" "disk_rep dev a" "unat pos + length (concat segs) \<le> length (fd_bytes a)"
  shows "\<exists>rq. queue_rq upd dev \<lparr>rq_pos = pos, rq_write = False, rq_segs = segs\<rparr> =
      Some (BLK_STS_OK, dev, rq, of_nat (length (concat segs))) \<and>
    concat (rq_segs rq) = get_bytes (fd_bytes a) (unat pos) (length (concat segs))"
proof -
  note r = assms(2) [unfolded disk_rep_def]
  have "unat (dev_size dev) < 2 ^ 32" using unsigned_less [of "dev_size dev"] by simp
  then have l: "length (concat segs) < 2 ^ 32" using assms(3) r by linarith
  then have u: "unat (of_nat (length (concat segs)) :: u32) = length (concat segs)"
    by (simp add: unsigned_of_nat take_bit_nat_eq_self)
  let ?rq = "\<lparr>rq_pos = pos, rq_write = False, rq_segs = segs\<rparr>"
  let ?g = "get_bytes (fd_bytes a) (unat pos) (length (concat segs))"
  have m: "min (length (concat segs)) (unat (dev_size dev) - unat pos) = length (concat segs)"
    using assms(3) r by simp
  have g: "length ?g = length (concat segs)" using assms(3) by (simp add: length_get_bytes)
  obtain segs' where s: "do_simple_request dev ?rq 0 =
      Some (0, dev, ?rq\<lparr>rq_segs := segs'\<rparr>, of_nat (length (concat segs)))"
    "concat segs' = put_bytes (concat segs) 0 ?g"
    using read_request [of dev "fd_bytes a" ?rq] assms(3) r l m by auto
  have c: "concat segs' = ?g" using s(2) g by (simp add: put_bytes_def)
  show ?thesis
    using s(1) c g u assms(1) by (intro exI [of _ "?rq\<lparr>rq_segs := segs'\<rparr>"])
      (simp add: queue_rq_def blk_update_ok_def)
qed

text \<open>One legal call.\<close>

lemma dev_exec_flat:
  assumes "blk_update_ok upd" "disk_rep dev a" "flat_legal c a"
  shows "\<exists>dev'. dev_exec upd ctu 512 c dev = Some (fst (flat_exec ctu c a), dev') \<and>
    disk_rep dev' (snd (flat_exec ctu c a))"
proof (cases c)
  case (Disk_open i)
  then show ?thesis
    using assms(2,3) users_zero [of "fd_users a"]
    by (auto simp: sbull_ops_def sbull_open_def disk_rep_def add.commute)
next
  case (Disk_release i)
  have "users dev - 1 = of_nat (fd_users a - 1)" "fd_users a - 1 < 2 ^ 16" "fd_users a - 1 = 0 \<longleftrightarrow> fd_users a = 1"
    using assms(2,3) Disk_release by (auto simp: disk_rep_def)
  then show ?thesis
    using assms(2) Disk_release users_zero [of "fd_users a - 1"]
    by (auto simp: sbull_ops_def sbull_release_def disk_rep_def Let_def)
next
  case (Disk_changed i)
  then show ?thesis using assms(2) by (auto simp: sbull_ops_def sbull_media_changed_def disk_rep_def)
next
  case (Disk_ioctl i us cmd arg)
  then show ?thesis
    using assms(2) geometry_flat [of "fd_bytes a" dev]
    by (auto simp: sbull_ops_def sbull_ioctl_def disk_rep_def split_beta Let_def)
next
  case (Disk_write i pos segs)
  have l: "length (put_bytes (fd_bytes a) (unat pos) (concat segs)) = length (fd_bytes a)"
    using assms(3) Disk_write by (simp add: length_put_bytes)
  show ?thesis
    using assms(2) l write_flat [OF assms(1,2), of pos segs] assms(3) Disk_write
    by (auto simp: sbull_mq_ops_def disk_rep_def)
next
  case (Disk_read i pos segs)
  then show ?thesis
    using assms(2,3) read_flat [OF assms(1,2), of pos segs] by (auto simp: sbull_mq_ops_def disk_rep_def)
qed

lemma disk_execs_flat:
  assumes "blk_update_ok upd" "list_all2 disk_rep devs as" "disks_legal ctu cs as"
  shows "\<exists>devs'. disk_execs upd ctu 512 cs devs = Some (fst (flat_execs ctu cs as), devs') \<and>
    list_all2 disk_rep devs' (snd (flat_execs ctu cs as))"
  using assms(2,3)
proof (induction cs arbitrary: devs as)
  case (Cons c cs)
  let ?i = "disk_of c"
  have i: "?i < length devs" "disk_rep (devs ! ?i) (as ! ?i)"
    using Cons.prems by (auto simp: list_all2_conv_all_nth)
  obtain dev' where d: "dev_exec upd ctu 512 c (devs ! ?i) = Some (fst (flat_exec ctu c (as ! ?i)), dev')"
    "disk_rep dev' (snd (flat_exec ctu c (as ! ?i)))"
    using dev_exec_flat [OF assms(1) i(2), of c ctu] Cons.prems(2) by auto
  have "list_all2 disk_rep (devs[?i := dev']) (as[?i := snd (flat_exec ctu c (as ! ?i))])"
    using Cons.prems(1) d(2) by (rule list_all2_update_cong)
  from Cons.IH [OF this] Cons.prems(2) obtain devs' where
    "disk_execs upd ctu 512 cs (devs[?i := dev']) =
      Some (fst (flat_execs ctu cs (as[?i := snd (flat_exec ctu c (as ! ?i))])), devs')"
    "list_all2 disk_rep devs' (snd (flat_execs ctu cs (as[?i := snd (flat_exec ctu c (as ! ?i))])))"
    by auto
  then show ?case using d(1) i(1) by (simp add: split_beta)
qed simp

section \<open>Sessions from loading on\<close>

lemma setup_devices_rep:
  assumes "\<forall>e\<in>set envs. setup_complete e \<and>
      (\<exists>d. vmalloc_ret e = Some d \<and> length d = unat (word_of_int (ns * hs) :: u32))"
  shows "\<exists>devs. setup_devices ma ns hs envs i = Some devs \<and>
    list_all2 disk_rep devs (map (\<lambda>e. \<lparr>fd_bytes = the (vmalloc_ret e), fd_users = 0\<rparr>) envs)"
  using assms
proof (induction envs arbitrary: i)
  case (Cons e envs)
  then obtain devs where "setup_devices ma ns hs envs (i + 1) = Some devs"
    "list_all2 disk_rep devs (map (\<lambda>e. \<lparr>fd_bytes = the (vmalloc_ret e), fd_users = 0\<rparr>) envs)"
    by (metis list.set_intros(2))
  moreover have "\<exists>dev. setup_device ma ns hs e i = Some dev \<and>
      disk_rep dev \<lparr>fd_bytes = the (vmalloc_ret e), fd_users = 0\<rparr>"
    using Cons.prems
    by (auto simp: setup_device_def setup_complete_def setup_oops_def disk_rep_def Let_def)
  ultimately show ?case by auto
qed simp

text \<open>
  What the code does, in general: loaded with 512-byte sectors and all allocations granted, any
  session of opening, closing, asking for the geometry, reading and writing on any of the disks, in
  any order and with the requests cut into segments in any way, is carried out without an access
  outside an array and without \<open>BUG\<close>, and every answer is that of independent flat arrays, which
  start with the bytes that \<open>vmalloc\<close> returned. The positions are byte offsets here.
\<close>

theorem sbull_session_bytes:
  assumes "blk_update_ok upd" "0 < reg (p_major p) ''sbull''" "p_hardsect_size p = 512"
    and "\<forall>i. setup_complete (env i) \<and>
      (\<exists>d. vmalloc_ret (env i) = Some d \<and> length d = unat (word_of_int (p_nsectors p * 512) :: u32))"
    and "as = map (\<lambda>i. \<lparr>fd_bytes = the (vmalloc_ret (env i)), fd_users = 0\<rparr>) [0..<p_ndevices p]"
    and "disks_legal ctu cs as"
  shows "\<exists>devs tr devs'. sbull_load reg True p env = Some (Inr 0, reg (p_major p) ''sbull'', devs, tr) \<and>
    disk_execs upd ctu (p_hardsect_size p) cs devs = Some (fst (flat_execs ctu cs as), devs') \<and>
    list_all2 disk_rep devs' (snd (flat_execs ctu cs as))"
proof -
  obtain devs where d: "setup_devices (reg (p_major p) ''sbull'') (p_nsectors p) (p_hardsect_size p)
      (map env [0..<p_ndevices p]) 0 = Some devs" "list_all2 disk_rep devs as"
    using setup_devices_rep [of "map env [0..<p_ndevices p]" "p_nsectors p" "p_hardsect_size p"
        "reg (p_major p) ''sbull''" 0] assms(3,4,5)
    by (auto simp: comp_def)
  have "\<exists>tr. sbull_load reg True p env = Some (Inr 0, reg (p_major p) ''sbull'', devs, tr)"
    using d(1) assms(2) by (simp add: sbull_load_def sbull_init_def Let_def)
  then show ?thesis using disk_execs_flat [OF assms(1) d(2) assms(6)] assms(3) by auto
qed

text \<open>
  C4. The disks of the module are the disks of 512-byte sectors that the comments describe, for
  sessions whose requests start at sector 0: loaded with 512-byte sectors and all allocations
  granted, any session of opening, closing, asking whether the medium changed, calling \<open>ioctl\<close> with
  anything but \<open>HDIO_GETGEO\<close>, and reading and writing whole sectors from sector 0 on, on any of the
  disks, in any order and with the requests cut into segments in any way, is carried out without
  an access outside an array and without \<open>BUG\<close>, and every answer is that of independent sector
  disks with use counts, which start with the bytes that \<open>vmalloc\<close> returned. Requests at other
  sectors and the geometry are excluded because there the code is not such a disk: it takes the
  sector number for a byte offset (C35) and the byte count for a number of sectors
  (\<open>sbull_geometry_overstates\<close>).
\<close>

theorem sbull_session_refines:
  assumes "blk_update_ok upd" "0 < reg (p_major p) ''sbull''" "p_hardsect_size p = 512"
    and "\<forall>i. setup_complete (env i) \<and>
      (\<exists>d. vmalloc_ret (env i) = Some d \<and> length d = unat (word_of_int (p_nsectors p * 512) :: u32))"
    and "as = map (\<lambda>i. \<lparr>fd_bytes = the (vmalloc_ret (env i)), fd_users = 0\<rparr>) [0..<p_ndevices p]"
    and "sectors_legal ctu cs as"
  shows "\<exists>devs tr devs'. sbull_load reg True p env = Some (Inr 0, reg (p_major p) ''sbull'', devs, tr) \<and>
    disk_execs upd ctu (p_hardsect_size p) cs devs = Some (fst (sector_execs ctu cs as), devs') \<and>
    list_all2 disk_rep devs' (snd (sector_execs ctu cs as))"
proof -
  have f: "disks_legal ctu cs as" "flat_execs ctu cs as = sector_execs ctu cs as"
    using sector_execs_flat [OF assms(6)] by simp_all
  show ?thesis
    using sbull_session_bytes [where upd = upd and reg = reg and p = p and env = env and as = as
        and ctu = ctu and cs = cs] assms f by simp
qed

text \<open>Two disks of two sectors: a write of one sector to one, read back in two segments of 256 and 768 bytes.\<close>

lemma sbull_session_refines_witness:
  "\<exists>devs tr devs'. sbull_load (\<lambda>m n. 252) True \<lparr>p_major = 0, p_hardsect_size = 512, p_nsectors = 2, p_ndevices = 2\<rparr>
      (\<lambda>i. \<lparr>vmalloc_ret = Some (replicate 1024 5), tag_set_ret = 0, init_queue_ok = True, alloc_disk_ok = True\<rparr>) =
      Some (Inr 0, 252, devs, tr) \<and>
    disk_execs (\<lambda>rq st k. unat k < length (concat (rq_segs rq))) (\<lambda>us arg g. (us, 0)) 512
      [Disk_open 0, Disk_open 1, Disk_open 1, Disk_write 1 0 [replicate 512 7],
       Disk_read 1 0 [replicate 256 0, replicate 768 0], Disk_read 0 0 [replicate 512 0],
       Disk_release 1, Disk_release 1] devs =
      Some ([Opened True, Opened True, Opened False, Done 512 (replicate 512 7),
        Done 1024 (replicate 512 7 @ replicate 512 5), Done 512 (replicate 512 5),
        Released False, Released True :: unit disk_reply], devs')"
proof -
  let ?p = "\<lparr>p_major = 0, p_hardsect_size = 512, p_nsectors = 2, p_ndevices = 2\<rparr>"
  let ?env = "\<lambda>i :: nat. \<lparr>vmalloc_ret = Some (replicate 1024 5), tag_set_ret = 0, init_queue_ok = True,
    alloc_disk_ok = True\<rparr>"
  let ?cs = "[Disk_open 0, Disk_open 1, Disk_open 1, Disk_write 1 0 [replicate 512 7],
       Disk_read 1 0 [replicate 256 0, replicate 768 0], Disk_read 0 0 [replicate 512 0],
       Disk_release 1, Disk_release 1] :: unit disk_call list"
  let ?as = "map (\<lambda>i. \<lparr>fd_bytes = the (vmalloc_ret (?env i)), fd_users = 0\<rparr>) [0..<p_ndevices ?p]"
  let ?ctu = "\<lambda>us :: unit. \<lambda>arg :: u64. \<lambda>g :: hd_geometry. (us, 0 :: u64)"
  let ?upd = "\<lambda>rq :: request. \<lambda>st :: blk_status. \<lambda>k :: u32. unat k < length (concat (rq_segs rq))"
  have u: "[0..<2] = [0, 1 :: nat]" by (simp add: upt_rec)
  have e: "fst (sector_execs ?ctu ?cs ?as) =
      [Opened True, Opened True, Opened False, Done 512 (replicate 512 7),
        Done 1024 (replicate 512 7 @ replicate 512 5), Done 512 (replicate 512 5), Released False, Released True]"
    by (simp add: u get_bytes_def put_bytes_def)
  have l: "sectors_legal ?ctu ?cs ?as" by (simp add: u put_bytes_def)
  have b: "blk_update_ok ?upd" by (simp add: blk_update_ok_def)
  have m: "0 < (\<lambda>m n. 252 :: int) (p_major ?p) ''sbull''" and h: "p_hardsect_size ?p = 512" by simp_all
  have v: "\<forall>i. setup_complete (?env i) \<and> (\<exists>d. vmalloc_ret (?env i) = Some d \<and>
      length d = unat (word_of_int (p_nsectors ?p * 512) :: u32))"
    by (simp add: setup_complete_def setup_oops_def)
  show ?thesis using sbull_session_refines [OF b m h v refl l] unfolding e h by blast
qed

end
