(* ===== verification/Expfs_Conc.thy ===== *)
theory Expfs_Conc
  imports Expfs_Props
begin

text \<open>
  Any number of tasks changing the name space of \<open>expfs\<close> at the same time. Unlinking, removing a
  directory and renaming do all their work under \<open>expfs_lock\<close> and are one step; creating tests
  its guards before it takes the lock and is two. The kernel holds a lock of its own on each
  directory it has a node created in, removed from or moved to, and on a directory it removes, so
  that two calls on one directory do not overlap; calls on different directories do.
\<close>

section \<open>Creating in two steps\<close>

text \<open>What \<open>expfs_do_create\<close> does before it takes the lock: the error it returns, if any.\<close>

definition create_guard :: "bool \<Rightarrow> expfs \<Rightarrow> u16 \<Rightarrow> errno option" where
  "create_guard new_inode_ok s mode =
     (let mode = ucast mode :: u32 in
      if usedBlks s \<ge> MAX_FILE then Some EINVAL
      else if \<not> S_ISDIR mode \<and> \<not> S_ISREG mode \<and> \<not> S_ISLNK mode then Some EINVAL
      else if \<not> new_inode_ok then Some ENOMEM
      else None)"

text \<open>What it does with the lock.\<close>

definition create_section :: "expfs \<Rightarrow> inode \<Rightarrow> dentry \<Rightarrow> u16 \<Rightarrow> (inode \<times> expfs) option" where
  "create_section s dir dentry mode =
     do {
       let mode = (ucast mode :: u32);
       (idx, m) \<leftarrow> getblock (blks s);
       m \<leftarrow> store32 m (a_index idx) (word_of_int idx);
       m \<leftarrow> store32 m (a_mode idx) mode;
       m \<leftarrow> store32 m (a_used idx) 1;
       let usedBlks = usedBlks s + 1;
       m \<leftarrow> (if S_ISDIR mode \<or> S_ISREG mode then store32 m (a_size idx) 0 else Some m);
       let fop = (if S_ISDIR mode then Expfs_dir_fops
                  else if S_ISREG mode then Expfs_fops else No_fops);
       let inode = \<lparr>i_ino = word_of_int idx, i_private = idx, i_fop = fop\<rparr>;
       m \<leftarrow> append_entry m (i_private dir) (d_name dentry) (word_of_int idx);
       Some (inode, \<lparr>blks = m, usedBlks = usedBlks\<rparr>) }"

lemma do_create_split:
  "expfs_do_create ok s dir dentry mode =
     (case create_guard ok s mode of
        Some e \<Rightarrow> Some (Inl e, None, s, [])
      | None \<Rightarrow> do { (inode, s') \<leftarrow> create_section s dir dentry mode;
                   Some (Inr (), Some inode, s', [Acquire, Touch, Release]) })"
  by (simp add: expfs_do_create_def create_guard_def create_section_def Let_def split: bind_split prod.split)

lemma section_same_blocks:
  "create_section (s\<lparr>usedBlks := u\<rparr>) dir dentry mode =
     do { (inode, s') \<leftarrow> create_section s dir dentry mode; Some (inode, s'\<lparr>usedBlks := u + 1\<rparr>) }"
  by (simp add: create_section_def Let_def split: bind_split prod.split)

text \<open>The name can be created in the directory.\<close>

definition room :: "expfs \<Rightarrow> int \<Rightarrow> u8 list \<Rightarrow> bool" where
  "room s p n \<longleftrightarrow> name_ok n \<and>
     (\<exists>es. tree (blks s) p = Some (Dir_node es) \<and> n \<notin> fst ` set es \<and> length es < 4)"

text \<open>
  The section does what creating does, whatever \<open>usedBlks\<close> has become since the guard.
\<close>

lemma section_ok:
  assumes "fs_ok (blks s)" "type_ok mode" "first_free (blks s) = Some idx"
    and "room s (i_private dir) (d_name dentry)"
  shows "\<exists>s'. create_section s dir dentry mode = Some (inode_of (blks s') idx, s') \<and>
    usedBlks s' = usedBlks s + 1 \<and> fs_ok (blks s') \<and>
    tree (blks s') = tree_create (i_private dir) (d_name dentry) idx (new_node mode) (tree (blks s))"
proof -
  obtain es where es: "name_ok (d_name dentry)" "tree (blks s) (i_private dir) = Some (Dir_node es)"
    "d_name dentry \<notin> fst ` set es" "length es < 4"
    using assms(4) by (auto simp: room_def)
  let ?s = "s\<lparr>usedBlks := 0\<rparr>"
  have "fs_ok (blks ?s)" "usedBlks ?s < MAX_FILE" "first_free (blks ?s) = Some idx"
    "tree (blks ?s) (i_private dir) = Some (Dir_node es)"
    using assms es by (simp_all add: MAX_FILE_def)
  from do_create_ok [OF this(1,2) assms(2) this(3,4) es(1,3,4)] obtain s' where s':
    "expfs_do_create True ?s dir dentry mode =
      Some (Inr (), Some (inode_of (blks s') idx), s', [Acquire, Touch, Release])"
    "fs_ok (blks s')"
    "tree (blks s') = tree_create (i_private dir) (d_name dentry) idx (new_node mode) (tree (blks s))"
    by auto
  have "create_section ?s dir dentry mode = Some (inode_of (blks s') idx, s')"
    using s'(1) by (auto simp: do_create_split split: option.splits bind_splits)
  then have "create_section s dir dentry mode =
      Some (inode_of (blks s') idx, s'\<lparr>usedBlks := usedBlks s + 1\<rparr>)"
    using section_same_blocks [of "usedBlks s" ?s dir dentry mode] by simp
  then show ?thesis using s'(2,3) by (intro exI [of _ "s'\<lparr>usedBlks := usedBlks s + 1\<rparr>"]) simp
qed

lemma section_full:
  assumes "first_free (blks s) = None"
  shows "create_section s dir dentry mode = None"
proof -
  have "store32 m (a_index (- 1)) w = None" for m w
    by (simp add: store32_def store_def in_blks_def layout)
  then show ?thesis using assms by (simp add: create_section_def getblock_first_free)
qed

section \<open>The concurrent system\<close>

datatype tree_op =
    Created int "u8 list" int expfs_node | Removed int "u8 list" int | Moved int "u8 list" int "u8 list"

primrec apply_op :: "tree_op \<Rightarrow> expfs_tree \<Rightarrow> expfs_tree" where
  "apply_op (Created p n i node) = tree_create p n i node"
| "apply_op (Removed p n i) = tree_remove p n i"
| "apply_op (Moved p n q n') = tree_move p n q n'"

definition tree_ops :: "tree_op list \<Rightarrow> expfs_tree \<Rightarrow> expfs_tree" where
  "tree_ops ops T = foldl (\<lambda>T op. apply_op op T) T ops"

lemma tree_ops_simps [simp]: "tree_ops [] T = T" "tree_ops (ops @ [op]) T = apply_op op (tree_ops ops T)"
  by (simp_all add: tree_ops_def)

text \<open>
  The file system, the creations that have passed the guard and wait for the lock, and the
  operations done so far.
\<close>

record conc =
  c_fs :: expfs
  c_pend :: "nat \<Rightarrow> (inode \<times> dentry \<times> u16) option"
  c_log :: "tree_op list"

definition conc_start :: "expfs \<Rightarrow> conc" where
  "conc_start s = \<lparr>c_fs = s, c_pend = (\<lambda>i. None), c_log = []\<rparr>"

text \<open>No task is creating in the directory.\<close>

definition unlocked :: "conc \<Rightarrow> int \<Rightarrow> bool" where
  "unlocked s p \<longleftrightarrow> (\<forall>i dir dentry mode. c_pend s i = Some (dir, dentry, mode) \<longrightarrow> i_private dir \<noteq> p)"

definition lists :: "expfs \<Rightarrow> int \<Rightarrow> u8 list \<Rightarrow> int \<Rightarrow> bool" where
  "lists s p n b \<longleftrightarrow> c_string n \<and>
     (\<exists>es. tree (blks s) p = Some (Dir_node es) \<and> map_of es n = Some b)"

inductive conc_step :: "conc \<Rightarrow> conc \<Rightarrow> bool" where
  guard: "c_pend s i = None \<Longrightarrow> create_guard True (c_fs s) mode = None \<Longrightarrow>
    unlocked s (i_private dir) \<Longrightarrow> room (c_fs s) (i_private dir) (d_name dentry) \<Longrightarrow>
    conc_step s (s\<lparr>c_pend := (c_pend s)(i \<mapsto> (dir, dentry, mode))\<rparr>)"
| create: "c_pend s i = Some (dir, dentry, mode) \<Longrightarrow>
    create_section (c_fs s) dir dentry mode = Some (inode, fs) \<Longrightarrow>
    conc_step s \<lparr>c_fs = fs, c_pend = (c_pend s)(i := None), c_log = c_log s @
      [Created (i_private dir) (d_name dentry) (i_private inode) (new_node mode)]\<rparr>"
| unlink: "expfs_unlink ret (c_fs s) dir dentry = Some (r, fs, tr) \<Longrightarrow> d_inode dentry = Some inode \<Longrightarrow>
    unlocked s (i_private dir) \<Longrightarrow> lists (c_fs s) (i_private dir) (d_name dentry) (i_private inode) \<Longrightarrow>
    tree (blks (c_fs s)) (i_private inode) = Some Leaf_node \<Longrightarrow>
    conc_step s (s\<lparr>c_fs := fs, c_log := c_log s @
      [Removed (i_private dir) (d_name dentry) (i_private inode)]\<rparr>)"
| rmdir: "expfs_rmdir ret (c_fs s) dir dentry = Some (r, fs, tr) \<Longrightarrow> d_inode dentry = Some inode \<Longrightarrow>
    unlocked s (i_private dir) \<Longrightarrow> unlocked s (i_private inode) \<Longrightarrow>
    lists (c_fs s) (i_private dir) (d_name dentry) (i_private inode) \<Longrightarrow>
    tree (blks (c_fs s)) (i_private inode) = Some (Dir_node []) \<Longrightarrow>
    conc_step s (s\<lparr>c_fs := fs, c_log := c_log s @
      [Removed (i_private dir) (d_name dentry) (i_private inode)]\<rparr>)"
| rename: "expfs_rename True ret (c_fs s) dir dentry dir' dentry' = Some (r, fs, tr) \<Longrightarrow>
    unlocked s (i_private dir) \<Longrightarrow> unlocked s (i_private dir') \<Longrightarrow>
    lists (c_fs s) (i_private dir) (d_name dentry) b \<Longrightarrow>
    room (c_fs s) (i_private dir') (d_name dentry') \<Longrightarrow>
    conc_step s (s\<lparr>c_fs := fs, c_log := c_log s @
      [Moved (i_private dir) (d_name dentry) (i_private dir') (d_name dentry')]\<rparr>)"

inductive conc_reach :: "conc \<Rightarrow> conc \<Rightarrow> bool" for s where
  refl: "conc_reach s s"
| step: "conc_reach s s' \<Longrightarrow> conc_step s' s'' \<Longrightarrow> conc_reach s s''"

section \<open>The invariant\<close>

definition conc_ok :: "expfs_tree \<Rightarrow> conc \<Rightarrow> bool" where
  "conc_ok T s \<longleftrightarrow> fs_ok (blks (c_fs s)) \<and> tree (blks (c_fs s)) = tree_ops (c_log s) T \<and>
     (\<forall>i dir dentry mode. c_pend s i = Some (dir, dentry, mode) \<longrightarrow>
        type_ok mode \<and> room (c_fs s) (i_private dir) (d_name dentry)) \<and>
     (\<forall>i j dir dentry mode dir' dentry' mode'. c_pend s i = Some (dir, dentry, mode) \<longrightarrow>
        c_pend s j = Some (dir', dentry', mode') \<longrightarrow> i \<noteq> j \<longrightarrow> i_private dir \<noteq> i_private dir')"

lemma conc_okD:
  assumes "conc_ok T s"
  shows "fs_ok (blks (c_fs s))" "tree (blks (c_fs s)) = tree_ops (c_log s) T"
    and "c_pend s i = Some (dir, dentry, mode) \<Longrightarrow>
      type_ok mode \<and> room (c_fs s) (i_private dir) (d_name dentry)"
    and "c_pend s i = Some (dir, dentry, mode) \<Longrightarrow> c_pend s j = Some (dir', dentry', mode') \<Longrightarrow>
      i \<noteq> j \<Longrightarrow> i_private dir \<noteq> i_private dir'"
  using assms unfolding conc_ok_def by blast+

text \<open>
  A step that leaves the directories with pending creations alone keeps the invariant.
\<close>

lemma conc_ok_change:
  assumes "conc_ok T s" "fs_ok (blks fs)" "tree (blks fs) = apply_op op (tree (blks (c_fs s)))"
    and "\<And>i. pend i = c_pend s i \<or> pend i = None"
    and "\<And>i dir dentry mode. pend i = Some (dir, dentry, mode) \<Longrightarrow>
      tree (blks fs) (i_private dir) = tree (blks (c_fs s)) (i_private dir)"
  shows "conc_ok T \<lparr>c_fs = fs, c_pend = pend, c_log = c_log s @ [op]\<rparr>"
proof -
  have p: "c_pend s i = Some x" if "pend i = Some x" for i x using that assms(4) [of i] by auto
  have "type_ok mode \<and> room fs (i_private dir) (d_name dentry)"
    if "pend i = Some (dir, dentry, mode)" for i dir dentry mode
    using conc_okD(3) [OF assms(1) p [OF that]] assms(5) [OF that] by (simp add: room_def)
  moreover have "i_private dir \<noteq> i_private dir'"
    if "pend i = Some (dir, dentry, mode)" "pend j = Some (dir', dentry', mode')" "i \<noteq> j"
    for i j dir dentry mode dir' dentry' mode'
    using conc_okD(4) [OF assms(1) p [OF that(1)] p [OF that(2)] that(3)] .
  ultimately show ?thesis using assms(2,3) conc_okD(2) [OF assms(1)] by (simp add: conc_ok_def)
qed

lemma pend_dir:
  assumes "conc_ok T s" "c_pend s i = Some (dir, dentry, mode)"
  shows "\<exists>es. tree (blks (c_fs s)) (i_private dir) = Some (Dir_node es)"
  using conc_okD(3) [OF assms] by (auto simp: room_def)

lemma guard_type: "create_guard ok s mode = None \<Longrightarrow> type_ok mode"
  by (auto simp: create_guard_def type_ok_def Let_def split: if_splits)

lemma conc_ok_guard:
  assumes "conc_ok T s" "create_guard True (c_fs s) mode = None" "unlocked s (i_private dir)"
    and "room (c_fs s) (i_private dir) (d_name dentry)"
  shows "conc_ok T (s\<lparr>c_pend := (c_pend s)(i \<mapsto> (dir, dentry, mode))\<rparr>)"
  using conc_okD [OF assms(1)] guard_type [OF assms(2)] assms(3,4)
  unfolding conc_ok_def unlocked_def
  by (auto split: if_splits) (metis prod.collapse)+

lemma conc_ok_create:
  assumes "conc_ok T s" "c_pend s i = Some (dir, dentry, mode)"
    and "create_section (c_fs s) dir dentry mode = Some (inode, fs)"
  shows "conc_ok T \<lparr>c_fs = fs, c_pend = (c_pend s)(i := None), c_log = c_log s @
    [Created (i_private dir) (d_name dentry) (i_private inode) (new_node mode)]\<rparr>"
proof -
  note ok = conc_okD [OF assms(1)]
  obtain idx where f: "first_free (blks (c_fs s)) = Some idx"
    using section_full [of "c_fs s" dir dentry mode] assms(3) by fastforce
  from section_ok [OF ok(1) conjunct1 [OF ok(3) [OF assms(2)]] f conjunct2 [OF ok(3) [OF assms(2)]]] assms(3)
  have r: "inode = inode_of (blks fs) idx" "fs_ok (blks fs)"
    "tree (blks fs) = tree_create (i_private dir) (d_name dentry) idx (new_node mode) (tree (blks (c_fs s)))"
    by auto
  have i: "i_private inode = idx" using r(1) by simp
  show ?thesis
  proof (rule conc_ok_change [OF assms(1) r(2)])
    show "tree (blks fs) = apply_op (Created (i_private dir) (d_name dentry) (i_private inode) (new_node mode))
        (tree (blks (c_fs s)))" using r(3) i by simp
    fix j dir' dentry' mode' assume "((c_pend s)(i := None)) j = Some (dir', dentry', mode')"
    then have j: "c_pend s j = Some (dir', dentry', mode')" "i \<noteq> j" by (auto split: if_splits)
    have "i_private dir' \<noteq> i_private dir" using ok(4) [OF assms(2) j] by simp
    moreover have "i_private dir' \<noteq> idx"
      using pend_dir [OF assms(1) j(1)] first_freeD(4) [OF f] by auto
    ultimately show "tree (blks fs) (i_private dir') = tree (blks (c_fs s)) (i_private dir')"
      using r(3) by (simp add: tree_create_def split: option.split expfs_node.split)
  qed auto
qed

text \<open>The handlers that are one step change two nodes at most.\<close>

lemma conc_ok_whole:
  assumes "conc_ok T s" "fs_ok (blks fs)" "tree (blks fs) = apply_op op (tree (blks (c_fs s)))"
    and "\<And>i dir dentry mode. c_pend s i = Some (dir, dentry, mode) \<Longrightarrow>
      apply_op op (tree (blks (c_fs s))) (i_private dir) = tree (blks (c_fs s)) (i_private dir)"
  shows "conc_ok T (s\<lparr>c_fs := fs, c_log := c_log s @ [op]\<rparr>)"
proof -
  have "conc_ok T \<lparr>c_fs = fs, c_pend = c_pend s, c_log = c_log s @ [op]\<rparr>"
    using assms by (intro conc_ok_change [of T s fs op "c_pend s"]) auto
  then show ?thesis by (cases s) simp
qed

lemma conc_ok_removed:
  assumes "conc_ok T s" "fs_ok (blks fs)" "unlocked s p"
    and "tree (blks fs) = tree_remove p n b (tree (blks (c_fs s)))"
    and "tree (blks (c_fs s)) b = Some Leaf_node \<or> unlocked s b"
  shows "conc_ok T (s\<lparr>c_fs := fs, c_log := c_log s @ [Removed p n b]\<rparr>)"
proof (rule conc_ok_whole [OF assms(1,2)])
  show "tree (blks fs) = apply_op (Removed p n b) (tree (blks (c_fs s)))" using assms(4) by simp
  fix i dir dentry mode assume i: "c_pend s i = Some (dir, dentry, mode)"
  have "i_private dir \<noteq> p" using assms(3) i by (auto simp: unlocked_def)
  moreover have "i_private dir \<noteq> b"
    using assms(5) i pend_dir [OF assms(1) i] by (auto simp: unlocked_def)
  ultimately show "apply_op (Removed p n b) (tree (blks (c_fs s))) (i_private dir) =
      tree (blks (c_fs s)) (i_private dir)"
    by (simp add: tree_remove_def split: option.split expfs_node.split)
qed

lemma conc_ok_moved:
  assumes "conc_ok T s" "fs_ok (blks fs)" "unlocked s p" "unlocked s q"
    and "tree (blks fs) = tree_move p n q n' (tree (blks (c_fs s)))"
  shows "conc_ok T (s\<lparr>c_fs := fs, c_log := c_log s @ [Moved p n q n']\<rparr>)"
proof (rule conc_ok_whole [OF assms(1,2)])
  show "tree (blks fs) = apply_op (Moved p n q n') (tree (blks (c_fs s)))" using assms(5) by simp
  fix i dir dentry mode assume i: "c_pend s i = Some (dir, dentry, mode)"
  have "i_private dir \<noteq> p" "i_private dir \<noteq> q" using assms(3,4) i unfolding unlocked_def by blast+
  then show "apply_op (Moved p n q n') (tree (blks (c_fs s))) (i_private dir) =
      tree (blks (c_fs s)) (i_private dir)"
    by (simp add: tree_move_def Let_def split: option.split expfs_node.split)
qed

lemma conc_ok_step:
  assumes "conc_step s s'" "conc_ok T s"
  shows "conc_ok T s'"
  using assms
proof (cases rule: conc_step.cases)
  case (guard i mode dir dentry)
  then show ?thesis using conc_ok_guard [OF assms(2) guard(3,4,5)] by simp
next
  case (create i dir dentry mode inode fs)
  then show ?thesis using conc_ok_create [OF assms(2) create(2,3)] by simp
next
  case (unlink ret dir dentry r fs tr inode)
  obtain es where es: "c_string (d_name dentry)" "tree (blks (c_fs s)) (i_private dir) = Some (Dir_node es)"
    "map_of es (d_name dentry) = Some (i_private inode)"
    using unlink(5) by (auto simp: lists_def)
  from unlink_ok [OF conc_okD(1) [OF assms(2)] es(2,1) unlink(3) es(3) unlink(6), of ret] unlink(2)
  have "fs_ok (blks fs)" "tree (blks fs) = tree_remove (i_private dir) (d_name dentry) (i_private inode)
      (tree (blks (c_fs s)))" by auto
  from conc_ok_removed [OF assms(2) this(1) unlink(4) this(2)] unlink(1,6) show ?thesis by simp
next
  case (rmdir ret dir dentry r fs tr inode)
  obtain es where es: "c_string (d_name dentry)" "tree (blks (c_fs s)) (i_private dir) = Some (Dir_node es)"
    "map_of es (d_name dentry) = Some (i_private inode)"
    using rmdir(6) by (auto simp: lists_def)
  from rmdir_ok [OF conc_okD(1) [OF assms(2)] es(2,1) rmdir(3) es(3) rmdir(7), of ret] rmdir(2)
  have "fs_ok (blks fs)" "tree (blks fs) = tree_remove (i_private dir) (d_name dentry) (i_private inode)
      (tree (blks (c_fs s)))" by auto
  from conc_ok_removed [OF assms(2) this(1) rmdir(4) this(2)] rmdir(1,5) show ?thesis by simp
next
  case (rename ret dir dentry dir' dentry' r fs tr b)
  obtain es es' where es: "c_string (d_name dentry)" "tree (blks (c_fs s)) (i_private dir) = Some (Dir_node es)"
    "map_of es (d_name dentry) = Some b" "tree (blks (c_fs s)) (i_private dir') = Some (Dir_node es')"
    "d_name dentry' \<notin> fst ` set es'" "length es' < 4" "name_ok (d_name dentry')"
    using rename(5,6) by (auto simp: lists_def room_def)
  from rename_ok [OF conc_okD(1) [OF assms(2)] es(2,3,4,5) disjI1 [OF es(6)] es(1,7), of ret] rename(2)
  have "fs_ok (blks fs)" "tree (blks fs) = tree_move (i_private dir) (d_name dentry) (i_private dir')
      (d_name dentry') (tree (blks (c_fs s)))" by auto
  from conc_ok_moved [OF assms(2) this(1) rename(3,4) this(2)] rename(1) show ?thesis by simp
qed

lemma conc_ok_reach:
  assumes "conc_reach (conc_start fs) s" "fs_ok (blks fs)"
  shows "conc_ok (tree (blks fs)) s"
  using assms(1)
proof (induction rule: conc_reach.induct)
  case refl
  show ?case using assms(2) by (simp add: conc_ok_def conc_start_def)
next
  case (step s' s'')
  then show ?case using conc_ok_step by blast
qed

section \<open>Properties\<close>

text \<open>
  C7. However tasks that create, unlink, remove directories and rename in different directories
  interleave, also between the guards of a creation and its work under the lock, the file
  system stays well-formed and is the abstract tree after the operations in the order in which
  the tasks held the lock; and a creation that has passed its guards is carried out, unless
  there is no free block left, and then the array is left.
\<close>

theorem expfs_concurrent_refines:
  assumes "fs_ok (blks fs)" "conc_reach (conc_start fs) s"
  shows "fs_ok (blks (c_fs s)) \<and> tree (blks (c_fs s)) = tree_ops (c_log s) (tree (blks fs)) \<and>
    (\<forall>i dir dentry mode. c_pend s i = Some (dir, dentry, mode) \<longrightarrow>
       (create_section (c_fs s) dir dentry mode = None \<longleftrightarrow> first_free (blks (c_fs s)) = None))"
proof (intro conjI allI impI iffI)
  note ok = conc_okD [OF conc_ok_reach [OF assms(2,1)]]
  show "fs_ok (blks (c_fs s))" "tree (blks (c_fs s)) = tree_ops (c_log s) (tree (blks fs))"
    using ok(1,2) .
  fix i dir dentry mode
  assume i: "c_pend s i = Some (dir, dentry, mode)"
  show "create_section (c_fs s) dir dentry mode = None" if "first_free (blks (c_fs s)) = None"
    using that by (rule section_full)
  show "first_free (blks (c_fs s)) = None" if n: "create_section (c_fs s) dir dentry mode = None"
  proof (rule ccontr)
    assume "first_free (blks (c_fs s)) \<noteq> None"
    then obtain idx where "first_free (blks (c_fs s)) = Some idx" by blast
    from section_ok [OF ok(1) conjunct1 [OF ok(3) [OF i]] this conjunct2 [OF ok(3) [OF i]]] n
    show False by auto
  qed
qed

text \<open>
  A state with a directory \<open>a\<close> in the root, reached by creations only, in which the root is
  otherwise empty; \<open>k\<close> is the value of \<open>usedBlks\<close>.
\<close>

definition two_dirs :: "conc \<Rightarrow> int \<Rightarrow> bool" where
  "two_dirs s k \<longleftrightarrow> fs_ok (blks (c_fs s)) \<and> usedBlks (c_fs s) = k \<and> c_pend s = (\<lambda>i. None) \<and>
     tree (blks (c_fs s)) = [1 \<mapsto> Dir_node [([97], 2)], 2 \<mapsto> Dir_node []]"

definition sub_inode :: inode where
  "sub_inode = \<lparr>i_ino = 2, i_private = 2, i_fop = Expfs_dir_fops\<rparr>"

lemma two_dirs_free:
  assumes "two_dirs s k"
  obtains idx where "first_free (blks (c_fs s)) = Some idx" "idx \<noteq> 1" "idx \<noteq> 2"
proof -
  have "first_free (blks (c_fs s)) \<noteq> None"
    using assms unfolding first_free_tree two_dirs_def
    by (auto simp: find_None_iff MAX_FILE_def intro!: exI [of _ 3])
  then obtain idx where f: "first_free (blks (c_fs s)) = Some idx" by blast
  have "tree (blks (c_fs s)) idx = None" by (rule first_freeD(4) [OF f])
  then have "idx \<noteq> 1" "idx \<noteq> 2" using assms by (auto simp: two_dirs_def)
  then show ?thesis using that f by blast
qed

text \<open>A file is created in the root by a task and removed again.\<close>

lemma two_dirs_cycle:
  assumes "conc_reach s0 s" "two_dirs s k" "k < 50"
  shows "\<exists>s'. conc_reach s0 s' \<and> two_dirs s' (k + 1)"
proof -
  note d = assms(2) [unfolded two_dirs_def]
  obtain idx where f: "first_free (blks (c_fs s)) = Some idx" "idx \<noteq> 1" "idx \<noteq> 2"
    by (rule two_dirs_free [OF assms(2)])
  let ?n = "dentry_of [98] None"
  have rm: "room (c_fs s) (i_private root_inode) (d_name ?n)"
    using d name_ok_char [of 98] by (simp add: room_def)
  let ?s1 = "s\<lparr>c_pend := (c_pend s)(0 \<mapsto> (root_inode, ?n, 0x8000))\<rparr>"
  have "conc_step s ?s1"
    using d assms(3) rm type_bits(1)
    by (intro conc_step.guard) (auto simp: create_guard_def unlocked_def MAX_FILE_def type_ok_def Let_def)
  then have r1: "conc_reach s0 ?s1" by (rule conc_reach.step [OF assms(1)])
  have "\<exists>fs. create_section (c_fs s) root_inode ?n 0x8000 = Some (inode_of (blks fs) idx, fs) \<and>
      usedBlks fs = k + 1 \<and> fs_ok (blks fs) \<and>
      tree (blks fs) = [1 \<mapsto> Dir_node [([97], 2), ([98], idx)], 2 \<mapsto> Dir_node [], idx \<mapsto> Leaf_node]"
    using section_ok [OF _ type_bits(1) f(1) rm] d f(2,3) type_bits(3)
    by (auto simp: tree_create_def fun_upd_twist)
  then obtain fs where fs: "create_section (c_fs s) root_inode ?n 0x8000 = Some (inode_of (blks fs) idx, fs)"
    "usedBlks fs = k + 1" "fs_ok (blks fs)"
    "tree (blks fs) = [1 \<mapsto> Dir_node [([97], 2), ([98], idx)], 2 \<mapsto> Dir_node [], idx \<mapsto> Leaf_node]"
    by blast
  let ?s2 = "\<lparr>c_fs = fs, c_pend = (\<lambda>i. None), c_log = c_log s @ [Created 1 [98] idx Leaf_node]\<rparr>"
  have "conc_step ?s1 ?s2"
    using conc_step.create [of ?s1 0 root_inode ?n "0x8000" "inode_of (blks fs) idx" fs] fs(1) d type_bits(3)
    by (simp add: fun_upd_idem)
  then have r2: "conc_reach s0 ?s2" by (rule conc_reach.step [OF r1])
  let ?e = "dentry_of [98] (Some (inode_of (blks fs) idx))"
  obtain m where m: "expfs_unlink 0 fs root_inode ?e = Some (pass_on 0, fs\<lparr>blks := m\<rparr>, [Acquire, Touch, Release])"
    "fs_ok m" "tree m = tree_remove 1 [98] idx (tree (blks fs))"
    using unlink_ok [OF fs(3), of root_inode "[([97], 2), ([98], idx)]" ?e "inode_of (blks fs) idx" 0]
      fs(4) f(2,3) by (auto simp: c_string_def)
  let ?s3 = "?s2\<lparr>c_fs := fs\<lparr>blks := m\<rparr>, c_log := c_log ?s2 @ [Removed 1 [98] idx]\<rparr>"
  have "conc_step ?s2 ?s3"
    using conc_step.unlink [of 0 ?s2 root_inode ?e _ _ _ "inode_of (blks fs) idx"] m(1) fs(4) f(2,3)
    by (simp add: unlocked_def lists_def c_string_def)
  then have "conc_reach s0 ?s3" by (rule conc_reach.step [OF r2])
  moreover have "two_dirs ?s3 (k + 1)"
    using m(2,3) fs(2,4) f(2,3) by (auto simp: two_dirs_def tree_remove_def fun_eq_iff)
  ultimately show ?thesis by blast
qed

lemma two_dirs_cycles:
  assumes "conc_reach s0 s" "two_dirs s k" "k + int n \<le> 50"
  shows "\<exists>s'. conc_reach s0 s' \<and> two_dirs s' (k + int n)"
  using assms(3)
proof (induction n)
  case 0
  then show ?case using assms(1,2) by auto
next
  case (Suc n)
  then obtain s' where "conc_reach s0 s'" "two_dirs s' (k + int n)" by auto
  from two_dirs_cycle [OF this] Suc.prems show ?case by (simp add: algebra_simps)
qed

text \<open>From mounting, one \<open>mkdir\<close> leads to such a state.\<close>

lemma two_dirs_start:
  assumes "fs_ok (blks fs)" "usedBlks fs = 1" "tree (blks fs) = [1 \<mapsto> Dir_node []]"
    "first_free (blks fs) = Some 2"
  shows "\<exists>s. conc_reach (conc_start fs) s \<and> two_dirs s 2"
proof -
  let ?n = "dentry_of [97] None"
  have rm: "room fs (i_private root_inode) (d_name ?n)"
    using assms(3) name_ok_char [of 97] by (simp add: room_def)
  let ?s1 = "(conc_start fs)\<lparr>c_pend := (\<lambda>i. None)(0 \<mapsto> (root_inode, ?n, 0x4000))\<rparr>"
  have "conc_step (conc_start fs) ?s1"
    using conc_step.guard [of "conc_start fs" 0 "0x4000" root_inode ?n] assms(2) rm type_bits(2)
    by (simp add: conc_start_def create_guard_def unlocked_def MAX_FILE_def type_ok_def Let_def)
  then have r1: "conc_reach (conc_start fs) ?s1" by (rule conc_reach.step [OF conc_reach.refl])
  obtain fs' where fs': "create_section fs root_inode ?n 0x4000 = Some (inode_of (blks fs') 2, fs')"
    "usedBlks fs' = 2" "fs_ok (blks fs')"
    "tree (blks fs') = tree_create 1 [97] 2 (Dir_node []) (tree (blks fs))"
    using section_ok [OF assms(1) type_bits(2) assms(4) rm] assms(2) type_bits(4) by auto
  let ?s2 = "\<lparr>c_fs = fs', c_pend = (\<lambda>i. None), c_log = [Created 1 [97] 2 (Dir_node [])]\<rparr>"
  have "conc_step ?s1 ?s2"
    using conc_step.create [of ?s1 0 root_inode ?n "0x4000" "inode_of (blks fs') 2" fs'] fs'(1) type_bits(4)
    by (simp add: conc_start_def fun_upd_idem)
  then have "conc_reach (conc_start fs) ?s2" by (rule conc_reach.step [OF r1])
  moreover have "two_dirs ?s2 2"
    using fs'(2-4) assms(3) by (auto simp: two_dirs_def tree_create_def fun_eq_iff)
  ultimately show ?thesis by blast
qed

text \<open>Two tasks that have passed the guard, in the root and in \<open>a\<close>, both create.\<close>

lemma both_create:
  assumes "conc_reach s0 s" "two_dirs s k" "k < 50"
  shows "\<exists>s'. conc_reach s0 s' \<and> usedBlks (c_fs s') = k + 2"
proof -
  note d = assms(2) [unfolded two_dirs_def]
  obtain idx where f: "first_free (blks (c_fs s)) = Some idx" "idx \<noteq> 1" "idx \<noteq> 2"
    by (rule two_dirs_free [OF assms(2)])
  let ?n = "dentry_of [98] None"
  have ok: "name_ok [98]" by (rule name_ok_char) simp
  have rm: "room (c_fs s) (i_private root_inode) (d_name ?n)" "room (c_fs s) (i_private sub_inode) (d_name ?n)"
    using d ok by (simp_all add: room_def sub_inode_def)
  have g: "create_guard True (c_fs s) 0x8000 = None"
    using d assms(3) type_bits(1) by (auto simp: create_guard_def MAX_FILE_def type_ok_def Let_def)
  let ?p1 = "(\<lambda>i. None)(0 \<mapsto> (root_inode, ?n, 0x8000 :: u16))"
  let ?p2 = "?p1(1 \<mapsto> (sub_inode, ?n, 0x8000))"
  have "conc_step s (s\<lparr>c_pend := ?p1\<rparr>)"
    using conc_step.guard [of s 0 "0x8000" root_inode ?n] d g rm(1) by (simp add: unlocked_def)
  then have r1: "conc_reach s0 (s\<lparr>c_pend := ?p1\<rparr>)" by (rule conc_reach.step [OF assms(1)])
  have "conc_step (s\<lparr>c_pend := ?p1\<rparr>) (s\<lparr>c_pend := ?p2\<rparr>)"
    using conc_step.guard [of "s\<lparr>c_pend := ?p1\<rparr>" 1 "0x8000" sub_inode ?n] g rm(2)
    by (simp add: unlocked_def sub_inode_def)
  then have r2: "conc_reach s0 (s\<lparr>c_pend := ?p2\<rparr>)" by (rule conc_reach.step [OF r1])
  obtain fs where fs: "create_section (c_fs s) root_inode ?n 0x8000 = Some (inode_of (blks fs) idx, fs)"
    "usedBlks fs = k + 1" "fs_ok (blks fs)"
    "tree (blks fs) = tree_create 1 [98] idx Leaf_node (tree (blks (c_fs s)))"
    using section_ok [OF _ type_bits(1) f(1) rm(1)] d type_bits(3) by auto
  let ?s3 = "\<lparr>c_fs = fs, c_pend = ?p2(0 := None), c_log = c_log s @ [Created 1 [98] idx Leaf_node]\<rparr>"
  have "conc_step (s\<lparr>c_pend := ?p2\<rparr>) ?s3"
    using conc_step.create [of "s\<lparr>c_pend := ?p2\<rparr>" 0 root_inode ?n "0x8000" "inode_of (blks fs) idx" fs]
      fs(1) type_bits(3) by simp
  then have r3: "conc_reach s0 ?s3" by (rule conc_reach.step [OF r2])
  have t: "tree (blks fs) = [1 \<mapsto> Dir_node [([97], 2), ([98], idx)], 2 \<mapsto> Dir_node [], idx \<mapsto> Leaf_node]"
    using fs(4) d f(2,3) by (auto simp: tree_create_def fun_eq_iff)
  have "first_free (blks fs) \<noteq> None"
    unfolding first_free_tree t
    by (cases "idx = 3") (auto simp: find_None_iff MAX_FILE_def intro!: exI [of _ 3] exI [of _ 4])
  then obtain j where j: "first_free (blks fs) = Some j" by blast
  have "room fs (i_private sub_inode) (d_name ?n)"
    using t ok f(3) by (simp add: room_def sub_inode_def)
  from section_ok [OF fs(3) type_bits(1) j this] fs(2) obtain fs' where fs':
    "create_section fs sub_inode ?n 0x8000 = Some (inode_of (blks fs') j, fs')" "usedBlks fs' = k + 2"
    by auto
  from conc_step.create [of ?s3 1 sub_inode ?n "0x8000" "inode_of (blks fs') j" fs'] fs'(1)
  have "\<exists>s4. conc_step ?s3 s4 \<and> c_fs s4 = fs'" by (intro exI conjI) (assumption | simp)+
  then show ?thesis using conc_reach.step [OF r3] fs'(2) by blast
qed

lemma do_create_within_limit:
  assumes "expfs_do_create ok s dir dentry mode = Some (r, i, s', tr)" "usedBlks s \<le> MAX_FILE"
  shows "usedBlks s' \<le> MAX_FILE"
proof (cases "usedBlks s < MAX_FILE")
  case True
  then show ?thesis
    using assms(1) by (auto simp: do_create_split create_section_def Let_def
      split: option.splits bind_splits)
next
  case False
  then show ?thesis using assms by (auto simp: do_create_split create_guard_def Let_def)
qed

text \<open>
  C32. The limit on \<open>usedBlks\<close> is tested before the lock is taken: executed as a whole, a creation
  never takes the count past \<open>MAX_FILE\<close>, but from mounting on a state is reachable in which two
  tasks that both passed the test with one creation left have taken it past the limit.
\<close>

theorem expfs_limit_check_races:
  "usedBlks ` {s'. \<exists>ok s dir dentry mode r i tr. usedBlks s \<le> MAX_FILE \<and>
       expfs_do_create ok s dir dentry mode = Some (r, i, s', tr)} \<subseteq> {..MAX_FILE} \<and>
   (\<exists>root fs s. expfs_fill_super True \<lparr>blks = (\<lambda>x. 0), usedBlks = 0\<rparr> = Some (root, fs) \<and>
      conc_reach (conc_start fs) s \<and> usedBlks (c_fs s) = MAX_FILE + 1)"
proof
  show "usedBlks ` {s'. \<exists>ok s dir dentry mode r i tr. usedBlks s \<le> MAX_FILE \<and>
       expfs_do_create ok s dir dentry mode = Some (r, i, s', tr)} \<subseteq> {..MAX_FILE}"
    using do_create_within_limit by blast
  obtain fs where fs: "expfs_fill_super True \<lparr>blks = (\<lambda>x. 0), usedBlks = 0\<rparr> = Some (inode_of (blks fs) 1, fs)"
    "usedBlks fs = 1" "fs_ok (blks fs)" "tree (blks fs) = [1 \<mapsto> Dir_node []]" "first_free (blks fs) = Some 2"
    using fill_super_ok [of 0] by auto
  obtain s where "conc_reach (conc_start fs) s" "two_dirs s 2"
    using two_dirs_start [OF fs(3,2,4,5)] by blast
  from two_dirs_cycles [OF this, of 47] obtain s1 where "conc_reach (conc_start fs) s1" "two_dirs s1 49"
    by auto
  from both_create [OF this] fs(1) show
    "\<exists>root fs s. expfs_fill_super True \<lparr>blks = (\<lambda>x. 0), usedBlks = 0\<rparr> = Some (root, fs) \<and>
      conc_reach (conc_start fs) s \<and> usedBlks (c_fs s) = MAX_FILE + 1"
    by (auto simp: MAX_FILE_def)
qed

text \<open>An instance of the refinement: a directory is made and 47 files are created and removed.\<close>

lemma expfs_concurrent_refines_witness:
  "\<exists>fs s. conc_reach (conc_start fs) s \<and> usedBlks (c_fs s) = 49 \<and> fs_ok (blks (c_fs s)) \<and>
     tree (blks (c_fs s)) = tree_ops (c_log s) [1 \<mapsto> Dir_node []]"
proof -
  obtain fs :: expfs where fs: "fs_ok (blks fs)" "usedBlks fs = 1" "tree (blks fs) = [1 \<mapsto> Dir_node []]"
    "first_free (blks fs) = Some 2" by (rule sample_mounted)
  obtain s where "conc_reach (conc_start fs) s" "two_dirs s 2"
    using two_dirs_start [OF fs] by blast
  from two_dirs_cycles [OF this, of 47] obtain s1 where s1: "conc_reach (conc_start fs) s1" "two_dirs s1 49"
    by auto
  have "usedBlks (c_fs s1) = 49" using s1(2) by (simp add: two_dirs_def)
  moreover have "fs_ok (blks (c_fs s1)) \<and> tree (blks (c_fs s1)) = tree_ops (c_log s1) [1 \<mapsto> Dir_node []]"
    using expfs_concurrent_refines [OF fs(1) s1(1)] fs(3) by auto
  ultimately show ?thesis using s1(1) by blast
qed

end
