(* ===== verification/Expfs_Linear.thy ===== *)
theory Expfs_Linear
  imports Expfs_Conc Expfs_Vfs_Props
begin

text \<open>
  Any number of tasks making system calls on \<open>expfs\<close> at the same time, from loading and mounting
  on. A call that makes a node tests its guards before it takes \<open>expfs_lock\<close> and is two steps;
  every other call does its work on the blocks under the lock, or, for lookups, under the lock
  the VFS holds on the directory, and is one. The log lists the calls with their replies in
  the order in which they were done.
\<close>

section \<open>Calls that make a node\<close>

text \<open>The directory, the name and the mode handed to \<open>expfs_do_create\<close>.\<close>

fun making :: "fs_call \<Rightarrow> (int \<times> u8 list \<times> u16) option" where
  "making (Fs_create p n mode) = Some (p, n, mode)"
| "making (Fs_mkdir p n mode) = Some (p, n, ucast S_IFDIR OR mode)"
| "making (Fs_symlink p n target) = Some (p, n, ucast S_IFLNK)"
| "making _ = None"

fun_cases makingE: "making c = Some (p, n, mode)"

section \<open>The system\<close>

record calls_sys =
  cs_fs :: expfs
  cs_pend :: "nat \<Rightarrow> fs_call option"
  cs_log :: "(fs_call \<times> fs_reply) list"

definition calls_start :: "expfs \<Rightarrow> calls_sys" where
  "calls_start s = \<lparr>cs_fs = s, cs_pend = (\<lambda>i. None), cs_log = []\<rparr>"

inductive calls_step :: "calls_sys \<Rightarrow> calls_sys \<Rightarrow> bool" where
  whole: "making c = None \<Longrightarrow> exec_call c (cs_fs s) = Some (r, fs) \<Longrightarrow>
    calls_step s (s\<lparr>cs_fs := fs, cs_log := cs_log s @ [(c, r)]\<rparr>)"
| refuse: "cs_pend s i = None \<Longrightarrow> making c = Some (p, n, mode) \<Longrightarrow>
    create_guard True (cs_fs s) mode = Some e \<Longrightarrow>
    calls_step s (s\<lparr>cs_log := cs_log s @ [(c, R_err e)]\<rparr>)"
| guard: "cs_pend s i = None \<Longrightarrow> making c = Some (p, n, mode) \<Longrightarrow>
    create_guard True (cs_fs s) mode = None \<Longrightarrow>
    calls_step s (s\<lparr>cs_pend := (cs_pend s)(i \<mapsto> c)\<rparr>)"
| locked: "cs_pend s i = Some c \<Longrightarrow> making c = Some (p, n, mode) \<Longrightarrow> i_private dir = p \<Longrightarrow>
    create_section (cs_fs s) dir \<lparr>d_name = n, d_inode = None\<rparr> mode = Some (inode, fs) \<Longrightarrow>
    calls_step s \<lparr>cs_fs = fs, cs_pend = (cs_pend s)(i := None), cs_log = cs_log s @ [(c, R_ok)]\<rparr>"

inductive calls_reach :: "calls_sys \<Rightarrow> calls_sys \<Rightarrow> bool" for s where
  refl: "calls_reach s s"
| step: "calls_reach s s' \<Longrightarrow> calls_step s' s'' \<Longrightarrow> calls_reach s s''"

section \<open>The locked part of a legal call is the call\<close>

lemma section_dir: "i_private dir = i_private dir' \<Longrightarrow>
    create_section s dir dentry mode = create_section s dir' dentry mode"
  by (simp add: create_section_def)

lemma guard_legal:
  assumes "implements s a" "fs_legal c a" "making c = Some (p, n, mode)"
  shows "create_guard True s mode = None" "is_dir a p"
proof -
  have "type_ok mode \<and> a_made a < 49 \<and> is_dir a p"
    using assms(2,3) regular_mode directory_mode(1) link_mode(1) by (cases c) auto
  then show "create_guard True s mode = None" "is_dir a p"
    using implementsD(5) [OF assms(1)] by (auto simp: create_guard_def type_ok_def MAX_FILE_def Let_def)
qed

lemma making_exec:
  assumes "implements s a" "fs_legal c a" "making c = Some (p, n, mode)" "i_private dir = p"
  shows "exec_call c s =
    map_option (\<lambda>(inode, s'). (R_ok, s')) (create_section s dir \<lparr>d_name = n, d_inode = None\<rparr> mode)"
proof -
  note g = guard_legal [OF assms(1-3)]
  note d = exec_dir(1) [OF assms(1) g(2)]
  have "create_section s dir \<lparr>d_name = n, d_inode = None\<rparr> mode =
      create_section s (inode_of (blks s) p) \<lparr>d_name = n, d_inode = None\<rparr> mode"
    by (rule section_dir) (simp add: assms(4) inode_of_def)
  then show ?thesis
    using assms(3) g(1) d
    by (cases c) (auto simp: expfs_iops_def expfs_create_def expfs_mkdir_def expfs_symlink_def
        do_create_split split: bind_split)
qed

section \<open>Sessions as logs\<close>

lemma fs_legals_snoc:
  "fs_legals (cs @ [c]) a \<longleftrightarrow> fs_legals cs a \<and> fs_legal c (snd (abs_calls cs a))"
  by (induction cs arbitrary: a) (simp_all add: split_beta Let_def)

lemma abs_calls_snoc:
  "abs_calls (cs @ [c]) a =
     (let (rs, b) = abs_calls cs a; (r, b) = abs_call c b in (rs @ [r], b))"
  by (induction cs arbitrary: a) (simp_all add: split_beta Let_def)

definition log_ok :: "afs \<Rightarrow> calls_sys \<Rightarrow> bool" where
  "log_ok a s \<longleftrightarrow> map snd (cs_log s) = fst (abs_calls (map fst (cs_log s)) a) \<and>
     implements (cs_fs s) (snd (abs_calls (map fst (cs_log s)) a))"

text \<open>A step that logs a call which is legal where it is logged.\<close>

lemma log_ok_call:
  assumes "log_ok a s" "fs_legal c (snd (abs_calls (map fst (cs_log s)) a))"
    and "exec_call c (cs_fs s) = Some (r, fs)"
  shows "log_ok a \<lparr>cs_fs = fs, cs_pend = pend, cs_log = cs_log s @ [(c, r)]\<rparr>"
proof -
  let ?a = "snd (abs_calls (map fst (cs_log s)) a)"
  have "implements (cs_fs s) ?a" using assms(1) by (simp add: log_ok_def)
  from exec_call_ok [OF this assms(2)] assms(3)
  have "r = fst (abs_call c ?a)" "implements fs (snd (abs_call c ?a))" by auto
  then show ?thesis using assms(1) by (simp add: log_ok_def abs_calls_snoc split_beta Let_def)
qed

lemma log_ok_step:
  assumes "calls_step s s'" "log_ok a s" "fs_legals (map fst (cs_log s')) a"
  shows "log_ok a s'"
proof -
  let ?a = "snd (abs_calls (map fst (cs_log s)) a)"
  have i: "implements (cs_fs s) ?a" using assms(2) by (simp add: log_ok_def)
  from assms(1) show ?thesis
  proof (cases rule: calls_step.cases)
    case (whole c r fs)
    then have "fs_legal c ?a" using assms(3) by (simp add: fs_legals_snoc)
    then show ?thesis
      using log_ok_call [OF assms(2) _ whole(3), of "cs_pend s"] whole(1) by (cases s) simp
  next
    case (refuse i c p n mode e)
    then have "fs_legal c ?a" using assms(3) by (simp add: fs_legals_snoc)
    then show ?thesis using guard_legal(1) [OF i _ refuse(3)] refuse(4) by simp
  next
    case (guard i c p n mode)
    then show ?thesis using assms(2) by (simp add: log_ok_def)
  next
    case (locked i c p n mode dir inode fs)
    then have l: "fs_legal c ?a" using assms(3) by (simp add: fs_legals_snoc)
    have "exec_call c (cs_fs s) = Some (R_ok, fs)"
      using making_exec [OF i l locked(3,4)] locked(5) by simp
    from log_ok_call [OF assms(2) l this] show ?thesis using locked(1) by simp
  qed
qed

lemma log_prefix:
  assumes "calls_step s s'" "fs_legals (map fst (cs_log s')) a"
  shows "fs_legals (map fst (cs_log s)) a"
  using assms by (cases rule: calls_step.cases) (simp_all add: fs_legals_snoc)

lemma log_ok_reach:
  assumes "calls_reach (calls_start fs) s" "implements fs a" "fs_legals (map fst (cs_log s)) a"
  shows "log_ok a s"
  using assms(1,3)
proof (induction rule: calls_reach.induct)
  case refl
  then show ?case using assms(2) by (simp add: log_ok_def calls_start_def)
next
  case (step s' s'')
  then show ?case using log_ok_step log_prefix by blast
qed

lemma next_step:
  assumes "log_ok a s" "fs_legal c (snd (abs_calls (map fst (cs_log s)) a))"
    and "making c = None \<or> cs_pend s i = Some c"
  shows "\<exists>s'. calls_step s s' \<and>
    cs_log s' = cs_log s @ [(c, fst (abs_call c (snd (abs_calls (map fst (cs_log s)) a))))]"
proof -
  let ?a = "snd (abs_calls (map fst (cs_log s)) a)"
  have im: "implements (cs_fs s) ?a" using assms(1) by (simp add: log_ok_def)
  obtain fs where fs: "exec_call c (cs_fs s) = Some (fst (abs_call c ?a), fs)"
    using exec_call_ok [OF im assms(2)] by blast
  show ?thesis
  proof (cases "making c")
    case None
    from calls_step.whole [OF this fs] show ?thesis by (intro exI conjI) (assumption | simp)+
  next
    case (Some m)
    obtain p n mode where m: "making c = Some (p, n, mode)" using Some by (cases m) auto
    let ?dir = "inode_of (blks (cs_fs s)) p"
    have d: "i_private ?dir = p" by (simp add: inode_of_def)
    obtain inode where k: "create_section (cs_fs s) ?dir \<lparr>d_name = n, d_inode = None\<rparr> mode = Some (inode, fs)"
      and r: "fst (abs_call c ?a) = R_ok"
      using fs unfolding making_exec [OF im assms(2) m d] by auto
    have "cs_pend s i = Some c" using assms(3) m by simp
    from calls_step.locked [OF this m d k] show ?thesis
      unfolding r by (intro exI conjI) (assumption | simp)+
  qed
qed

section \<open>Property\<close>

text \<open>
  C2. \<open>expfs\<close> is linearisable: however the calls of any number of tasks interleave, also between
  the guards and the locked part of those that make a node, if each call is legal when it is
  done then all replies are those of the abstract file system executing the calls one after
  another in the order of the log, and the blocks implement its state; and any call that is legal
  next can be done, with the abstract reply, at once or, if it makes a node, by the task that
  has passed its guards.
\<close>

theorem expfs_linearizable:
  assumes "expfs_boot = Some fs" "calls_reach (calls_start fs) s" "fs_legals (map fst (cs_log s)) afs0"
  shows "map snd (cs_log s) = fst (abs_calls (map fst (cs_log s)) afs0) \<and>
    implements (cs_fs s) (snd (abs_calls (map fst (cs_log s)) afs0)) \<and>
    (\<forall>c i. fs_legals (map fst (cs_log s) @ [c]) afs0 \<longrightarrow> making c = None \<or> cs_pend s i = Some c \<longrightarrow>
       (\<exists>s' r. calls_step s s' \<and> cs_log s' = cs_log s @ [(c, r)] \<and>
          fst (abs_calls (map fst (cs_log s) @ [c]) afs0) = map snd (cs_log s) @ [r]))"
proof -
  have "implements fs afs0" using boot_implements assms(1) by (metis option.inject)
  then have ok: "log_ok afs0 s" by (rule log_ok_reach [OF assms(2) _ assms(3)])
  have "\<exists>s' r. calls_step s s' \<and> cs_log s' = cs_log s @ [(c, r)] \<and>
      fst (abs_calls (map fst (cs_log s) @ [c]) afs0) = map snd (cs_log s) @ [r]"
    if "fs_legals (map fst (cs_log s) @ [c]) afs0" "making c = None \<or> cs_pend s i = Some c" for c i
    using next_step [OF ok _ that(2)] that(1) ok
    by (auto simp: fs_legals_snoc abs_calls_snoc log_ok_def split_beta Let_def)
  then show ?thesis using ok unfolding log_ok_def by blast
qed

text \<open>
  Two tasks have passed the guards, one to make a file and one to make a directory; the second
  takes the lock first, then a third task lists the root.
\<close>

lemma expfs_linearizable_witness:
  "\<exists>fs s. expfs_boot = Some fs \<and> calls_reach (calls_start fs) s \<and>
     cs_log s = [(Fs_mkdir 1 [98] 0, R_ok), (Fs_list 1, R_names [([98], 2)])] \<and>
     implements (cs_fs s) (abs_new 1 [98] (Dir_node []) afs0)"
proof -
  let ?create = "Fs_create 1 [97] 0x8000"
  let ?mkdir = "Fs_mkdir 1 [98] 0"
  obtain fs where fs: "expfs_boot = Some fs" "implements fs afs0" "fs_legal ?create afs0"
    by (rule sample_create)
  have l: "fs_legals [?mkdir] afs0" "fs_legals [?mkdir, Fs_list 1] afs0"
    by (simp_all add: afs0_def is_dir_def has_room_def name_free_def dir_at_def name_ok_char
        abs_new_def Let_def tree_create_def free_at_2)
  have r: "fst (abs_calls [?mkdir] afs0) = [R_ok]"
    "fst (abs_calls [?mkdir, Fs_list 1] afs0) = [R_ok, R_names [([98], 2)]]"
    "snd (abs_calls [?mkdir, Fs_list 1] afs0) = abs_new 1 [98] (Dir_node []) afs0"
    by (simp_all add: abs_new_def Let_def tree_create_def afs0_def free_at_2 dir_at_def)
  let ?s = "calls_start fs\<lparr>cs_pend := (\<lambda>i. None)(0 \<mapsto> ?create, 1 \<mapsto> ?mkdir)\<rparr>"
  have "making ?create = Some (1, [97], 0x8000)" "making ?mkdir = Some (1, [98], ucast S_IFDIR OR 0)"
    by simp_all
  note g = guard_legal(1) [OF fs(2,3) this(1)] guard_legal(1) [OF fs(2) _ this(2)]
  have "calls_step (calls_start fs) (calls_start fs\<lparr>cs_pend := (\<lambda>i. None)(0 \<mapsto> ?create)\<rparr>)"
    using calls_step.guard [of "calls_start fs" 0 ?create 1 "[97]" "0x8000"] g(1)
    by (simp add: calls_start_def)
  moreover have "calls_step (calls_start fs\<lparr>cs_pend := (\<lambda>i. None)(0 \<mapsto> ?create)\<rparr>) ?s"
    using calls_step.guard [of "calls_start fs\<lparr>cs_pend := (\<lambda>i. None)(0 \<mapsto> ?create)\<rparr>" 1 ?mkdir 1 "[98]"
        "ucast S_IFDIR OR 0"] g(2) l(1)
    by (simp add: calls_start_def)
  ultimately have reach: "calls_reach (calls_start fs) ?s" using calls_reach.intros by blast
  have log: "map fst (cs_log ?s) = []" "cs_pend ?s 1 = Some ?mkdir" by (simp_all add: calls_start_def)
  obtain s1 where s1: "calls_step ?s s1" "cs_log s1 = [(?mkdir, R_ok)]"
    using expfs_linearizable [OF fs(1) reach, THEN conjunct2, THEN conjunct2, rule_format, of ?mkdir 1]
      l(1) r(1) log by (auto simp: calls_start_def)
  have reach1: "calls_reach (calls_start fs) s1" by (rule calls_reach.step [OF reach s1(1)])
  obtain s2 where s2: "calls_step s1 s2"
    "cs_log s2 = [(?mkdir, R_ok), (Fs_list 1, R_names [([98], 2)])]"
    using expfs_linearizable [OF fs(1) reach1, THEN conjunct2, THEN conjunct2, rule_format, of "Fs_list 1"]
      l r(2) s1(2) by auto
  have reach2: "calls_reach (calls_start fs) s2" by (rule calls_reach.step [OF reach1 s2(1)])
  then show ?thesis
    using expfs_linearizable [OF fs(1) reach2] l(2) s2(2) fs(1) r(3) by auto
qed

end
