(* ===== verification/Second_Files.thy ===== *)
theory Second_Files
  imports Second
begin

text \<open>
  The seconds counter behind its operation table: files are opened on the device, read and
  closed while time passes. The abstract specification is a stopwatch that each opening
  restarts. Every session from loading on with at most one file open at a time refines it; a
  second opening sets up a timer that is pending, which is undefined.
\<close>

section \<open>The operation table\<close>

record 'u second_fops =
  sf_read :: "('u \<Rightarrow> u64 \<Rightarrow> u32 \<Rightarrow> 'u \<times> bool) \<Rightarrow> second_dev \<Rightarrow> 'u \<Rightarrow> u64 \<Rightarrow> u64 \<Rightarrow> u64 \<Rightarrow> int result \<times> 'u"
  sf_open :: "second_dev \<Rightarrow> (int \<times> second_dev) option"
  sf_release :: "second_dev \<Rightarrow> int \<times> second_dev"

definition second_table :: "'u second_fops" where
  "second_table = \<lparr>sf_read = second_read, sf_open = second_open, sf_release = second_release\<rparr>"

section \<open>System calls\<close>

text \<open>
  Files are numbered; \<open>Sec_read f us buf n\<close> reads into the user memory \<open>us\<close>. \<open>sw_live\<close> says whether
  the \<open>cdev\<close> was added: \<open>second_init\<close> ignores a failure of \<open>cdev_add\<close>, after which the device
  number leads nowhere.
\<close>

datatype 'u second_call =
  Sec_open nat | Sec_close nat | Sec_read nat 'u u64 u64 | Sec_passes

datatype 'u second_reply = Sec_val int | Sec_err errno | Sec_data int 'u | Sec_tick

record second_world =
  sw_module :: second_module
  sw_live :: bool
  sw_files :: "nat set"

text \<open>
  One call: the reply and the new state; \<open>None\<close> when the handler is undefined, when the module is
  not loaded, for a call on a file that is not open and for opening one that is. A second passes
  as in \<open>second_session\<close>: a pending timer expires and its handler runs.
\<close>

fun second_exec ::
  "('u \<Rightarrow> u64 \<Rightarrow> u32 \<Rightarrow> 'u \<times> bool) \<Rightarrow> 'u second_call \<Rightarrow> second_world \<Rightarrow>
     ('u second_reply \<times> second_world) option" where
  "second_exec put_user (Sec_open f) w =
     (if f \<in> sw_files w then None
      else if \<not> sw_live w then Some (Sec_err ENXIO, w)
      else do { dev \<leftarrow> devp (sw_module w);
                (r, dev) \<leftarrow> sf_open (second_table :: 'u second_fops) dev;
                Some (Sec_val r,
                  w\<lparr>sw_module := (sw_module w)\<lparr>devp := Some dev\<rparr>, sw_files := insert f (sw_files w)\<rparr>) })"
| "second_exec put_user (Sec_close f) w =
     (if f \<notin> sw_files w then None
      else do { dev \<leftarrow> devp (sw_module w);
                let (r, dev) = sf_release (second_table :: 'u second_fops) dev;
                Some (Sec_val r,
                  w\<lparr>sw_module := (sw_module w)\<lparr>devp := Some dev\<rparr>, sw_files := sw_files w - {f}\<rparr>) })"
| "second_exec put_user (Sec_read f us buf n) w =
     (if f \<notin> sw_files w then None
      else do { dev \<leftarrow> devp (sw_module w);
                let (r, us) = sf_read second_table put_user dev us buf n 0;
                Some (case r of Inl e \<Rightarrow> Sec_err e | Inr k \<Rightarrow> Sec_data k us, w) })"
| "second_exec put_user Sec_passes w =
     do { dev \<leftarrow> devp (sw_module w);
          let (_, dev) = second_session [Second_passes] dev;
          Some (Sec_tick, w\<lparr>sw_module := (sw_module w)\<lparr>devp := Some dev\<rparr>\<rparr>) }"

fun second_execs ::
  "('u \<Rightarrow> u64 \<Rightarrow> u32 \<Rightarrow> 'u \<times> bool) \<Rightarrow> 'u second_call list \<Rightarrow> second_world \<Rightarrow>
     ('u second_reply list \<times> second_world) option" where
  "second_execs put_user [] w = Some ([], w)"
| "second_execs put_user (c # cs) w =
     do { (r, w) \<leftarrow> second_exec put_user c w;
          (rs, w) \<leftarrow> second_execs put_user cs w;
          Some (r # rs, w) }"

section \<open>The stopwatch\<close>

text \<open>Whether it can be opened, the file that is open, if any, and the seconds since it was opened.\<close>

record stopwatch =
  watch_live :: bool
  watch_file :: "nat option"
  watch_secs :: nat

definition stopwatch0 :: "bool \<Rightarrow> stopwatch" where
  "stopwatch0 l = \<lparr>watch_live = l, watch_file = None, watch_secs = 0\<rparr>"

fun watch_call ::
  "('u \<Rightarrow> u64 \<Rightarrow> u32 \<Rightarrow> 'u \<times> bool) \<Rightarrow> 'u second_call \<Rightarrow> stopwatch \<Rightarrow> 'u second_reply \<times> stopwatch" where
  "watch_call put_user (Sec_open f) a =
     (if watch_live a then (Sec_val 0, a\<lparr>watch_file := Some f, watch_secs := 0\<rparr>) else (Sec_err ENXIO, a))"
| "watch_call put_user (Sec_close f) a = (Sec_val 0, a\<lparr>watch_file := None\<rparr>)"
| "watch_call put_user (Sec_read f us buf n) a =
     (let (us, failed) = put_user us buf (of_nat (watch_secs a))
      in (if failed then Sec_err EFAULT else Sec_data 4 us, a))"
| "watch_call put_user Sec_passes a =
     (Sec_tick, if watch_file a = None then a else a\<lparr>watch_secs := watch_secs a + 1\<rparr>)"

fun watch_calls ::
  "('u \<Rightarrow> u64 \<Rightarrow> u32 \<Rightarrow> 'u \<times> bool) \<Rightarrow> 'u second_call list \<Rightarrow> stopwatch \<Rightarrow> 'u second_reply list \<times> stopwatch" where
  "watch_calls put_user [] a = ([], a)"
| "watch_calls put_user (c # cs) a =
     (let (r, a) = watch_call put_user c a; (rs, a) = watch_calls put_user cs a in (r # rs, a))"

text \<open>Calls are made on the open file, and a file is opened when none is.\<close>

fun watch_legal :: "'u second_call \<Rightarrow> stopwatch \<Rightarrow> bool" where
  "watch_legal (Sec_open f) a \<longleftrightarrow> watch_file a = None"
| "watch_legal (Sec_close f) a \<longleftrightarrow> watch_file a = Some f"
| "watch_legal (Sec_read f us buf n) a \<longleftrightarrow> watch_file a = Some f"
| "watch_legal Sec_passes a \<longleftrightarrow> True"

fun watch_legals ::
  "('u \<Rightarrow> u64 \<Rightarrow> u32 \<Rightarrow> 'u \<times> bool) \<Rightarrow> 'u second_call list \<Rightarrow> stopwatch \<Rightarrow> bool" where
  "watch_legals put_user [] a \<longleftrightarrow> True"
| "watch_legals put_user (c # cs) a \<longleftrightarrow>
     watch_legal c a \<and> watch_legals put_user cs (snd (watch_call put_user c a))"

section \<open>Refinement\<close>

text \<open>The timer is pending exactly while a file is open; then the counter holds the seconds.\<close>

definition keeps_time :: "second_world \<Rightarrow> stopwatch \<Rightarrow> bool" where
  "keeps_time w a \<longleftrightarrow> sw_files w = set_option (watch_file a) \<and>
     sw_live w = watch_live a \<and> (watch_file a \<noteq> None \<longrightarrow> watch_live a) \<and>
     (\<exists>dev. devp (sw_module w) = Some dev \<and> (s_armed dev \<longleftrightarrow> watch_file a \<noteq> None) \<and>
        (watch_file a \<noteq> None \<longrightarrow> counter dev = of_nat (watch_secs a)))"

lemma second_exec_ok:
  assumes "keeps_time w a" "watch_legal c a"
  shows "\<exists>w'. second_exec put_user c w = Some (fst (watch_call put_user c a), w') \<and>
    keeps_time w' (snd (watch_call put_user c a))"
  using assms
  by (cases c)
    (auto simp: keeps_time_def second_table_def second_open_def second_release_def second_read_def
      second_timer_handler_def handler_rearm_def handler_count_def Let_def split: prod.splits)

lemma second_execs_ok:
  assumes "keeps_time w a" "watch_legals put_user cs a"
  shows "\<exists>w'. second_execs put_user cs w = Some (fst (watch_calls put_user cs a), w') \<and>
    keeps_time w' (snd (watch_calls put_user cs a))"
  using assms
proof (induction cs arbitrary: w a)
  case (Cons c cs)
  obtain w1 where w1: "second_exec put_user c w = Some (fst (watch_call put_user c a), w1)"
    "keeps_time w1 (snd (watch_call put_user c a))"
    using second_exec_ok [OF Cons.prems(1), of c put_user] Cons.prems(2) by auto
  from Cons.IH [OF w1(2)] Cons.prems(2) w1(1) show ?case
    by (auto simp: split_beta simp del: second_exec.simps)
qed simp

text \<open>A second opening meets a pending timer.\<close>

lemma second_open_twice:
  assumes "keeps_time w a" "watch_file a \<noteq> None"
  shows "second_exec put_user (Sec_open f) w = None"
proof -
  obtain dev where "devp (sw_module w) = Some dev" "s_armed dev" "sw_live w"
    using assms by (auto simp: keeps_time_def)
  then show ?thesis by (simp add: second_table_def second_open_def)
qed

text \<open>
  C5. From loading on, every session of opening, reading and closing files while time passes, with
  at most one file open at a time, is that of a stopwatch which each opening restarts: a read
  delivers the seconds since its file was opened, modulo \<open>2^32\<close>, or \<open>EFAULT\<close> when they
  cannot be stored; a device whose \<open>cdev_add\<close> failed cannot be opened; and while a file is open,
  opening another one is undefined.
\<close>

theorem second_files_refine:
  assumes "second_init k m0 = (Inr (), m, tr)" "l \<longleftrightarrow> live {} tr \<noteq> {}"
    and "watch_legals put_user cs (stopwatch0 l)"
  shows "\<exists>w. second_execs put_user cs \<lparr>sw_module = m, sw_live = l, sw_files = {}\<rparr> =
      Some (fst (watch_calls put_user cs (stopwatch0 l)), w) \<and>
    sw_files w = set_option (watch_file (snd (watch_calls put_user cs (stopwatch0 l)))) \<and>
    (watch_file (snd (watch_calls put_user cs (stopwatch0 l))) = None \<or>
       (\<forall>f. second_exec put_user (Sec_open f) w = None))"
proof -
  have "keeps_time \<lparr>sw_module = m, sw_live = l, sw_files = {}\<rparr> (stopwatch0 l)"
    using assms(1)
    by (auto simp: second_init_def Let_def keeps_time_def stopwatch0_def split: if_splits)
  from second_execs_ok [OF this assms(3)] obtain w
    where w: "second_execs put_user cs \<lparr>sw_module = m, sw_live = l, sw_files = {}\<rparr> =
        Some (fst (watch_calls put_user cs (stopwatch0 l)), w)"
      "keeps_time w (snd (watch_calls put_user cs (stopwatch0 l)))"
    by blast
  moreover have "sw_files w = set_option (watch_file (snd (watch_calls put_user cs (stopwatch0 l))))"
    using w(2) by (simp add: keeps_time_def)
  ultimately show ?thesis using w(1) second_open_twice [OF w(2)] by blast
qed

definition sample_second :: "u32 list second_call list" where
  "sample_second =
     [Sec_open 3, Sec_passes, Sec_passes, Sec_read 3 [] 0 4, Sec_close 3, Sec_passes, Sec_open 5,
      Sec_passes, Sec_read 5 [] 0 4]"

lemma second_files_refine_witness:
  "\<exists>m tr w. second_init kenv_fine second_module0 = (Inr (), m, tr) \<and> live {} tr = {0} \<and>
     second_execs (\<lambda>us a v. (v # us, False)) sample_second
       \<lparr>sw_module = m, sw_live = True, sw_files = {}\<rparr> =
       Some ([Sec_val 0, Sec_tick, Sec_tick, Sec_data 4 [2], Sec_val 0, Sec_tick, Sec_val 0,
         Sec_tick, Sec_data 4 [1]], w)"
proof -
  obtain m tr where i: "second_init kenv_fine second_module0 = (Inr (), m, tr)" "live {} tr = {0}"
    by (simp add: second_init_def kenv_fine_def second_module0_def Let_def)
  moreover have "watch_legals (\<lambda>us a v. (v # us, False)) sample_second (stopwatch0 True)"
    "fst (watch_calls (\<lambda>us a v. (v # us, False)) sample_second (stopwatch0 True)) =
       [Sec_val 0, Sec_tick, Sec_tick, Sec_data 4 [2], Sec_val 0, Sec_tick, Sec_val 0, Sec_tick,
        Sec_data 4 [1]]"
    by (simp_all add: stopwatch0_def sample_second_def)
  moreover have "True \<longleftrightarrow> live {} tr \<noteq> {}" using i(2) by simp
  ultimately show ?thesis
    using second_files_refine [of kenv_fine second_module0 m tr True _ sample_second] by metis
qed

end
