(* ===== verification/Spec2Isabelle.thy ===== *)
theory Spec2Isabelle
  imports Globalmem Globalmem_Lock Globalfifo_Sched Expfs_Vfs_Props Expfs_Faults Sbull_Props Sbull_Load
    Second Small_Modules User_Memory_Props User_Monitors User_Second Log_Modules Intrsimulate
    Globalmem_Conc Module_System Globalfifo_Files Sbull_Session Expfs_Conc Expfs_Linear Second_Files
begin

text \<open>
  A model of LKM-practice, a collection of Linux kernel modules in C: character drivers over a
  memory array (\<open>src/globalmem\<close>, \<open>src/globalmem_lock\<close>), a blocking queue
  (\<open>src/globalfifo\<close>), an in-memory file system (\<open>src/expfs\<close>), a RAM disk
  (\<open>src/sbull\<close>), a seconds counter (\<open>src/second\<close>), some small modules, and the user-space
  programs that exercise the drivers. The modules do not call one another; what they have in
  common is the way they use the kernel, and that is where the shared theories and the locales
  are, and the space of device numbers, which they compete for. The programs use the drivers
  through system calls, and are composed with them here.

  \<^bold>\<open>Conventions.\<close> Machine integers keep their width (\<open>HOL-Library.Word\<close>); a signed value is the
  same word read with \<open>sint\<close>. A handler gives \<open>Inl e\<close> for the return value \<open>-e\<close> and \<open>Inr n\<close> for
  a non-negative one; \<open>None\<close> stands for undefined behaviour (an access outside an array or
  through a null pointer, a second \<open>vfree\<close>). Kernel functions are parameters: the copies between
  kernel and user memory, what allocation and registration answer, \<open>memcpy\<close>, \<open>fasync_helper\<close>,
  \<open>put_user\<close>, \<open>new_inode\<close>, \<open>simple_unlink\<close> and so on; where a property needs documented
  behaviour of one of them it is a hypothesis (\<open>copy_in_fills\<close>, \<open>kenv_ok\<close>, \<open>memcpy_contract\<close>,
  \<open>fasync_ok\<close>, \<open>blk_update_ok\<close>, \<open>registry_ok\<close>, \<open>register_blkdev_ok\<close>). Of \<open>memcpy\<close> this is only that it
  copies between disjoint ranges; where \<open>globalfifo_read\<close> makes the ranges overlap nothing is
  assumed. Device numbers are packed into a \<open>dev_t\<close> of 12 and 20 bits, so they wrap.
  Log messages, time stamps and owners are left out, except where logging is all a module does.

  \<^bold>\<open>Theories.\<close>
  \<^item> \<open>Kernel_Prelude\<close>: types, error numbers, the copy functions, byte ranges of arrays, the
    clipping idiom \<open>clip_count\<close>, word lemmas.
  \<^item> \<open>Byte_Device\<close>: the contract \<open>seekable_device\<close> (an array with a cursor) with the session,
    frame and round-trip lemmas; \<open>Byte_Fifo\<close>: the contract \<open>byte_fifo\<close> (a bounded queue);
    \<open>Name_Directory\<close>: the contract \<open>name_directory\<close> (a finite map from names with a capacity).
  \<^item> \<open>Chrdev\<close>: kernel calls of loading and unloading as a list, ledgers of what is held
    (device numbers, memory, live \<open>cdev\<close>s), and the contracts \<open>chrdev_module\<close> and
    \<open>chrdev_clean\<close>. \<open>Locking\<close>: lock traces of handlers, a step relation for any number of
    tasks on one lock, the contract \<open>lock_client\<close> (mutual exclusion, no deadlock), and what a
    leaked lock does.
  \<^item> \<open>Atomicity\<close>: calls as sequences of small steps on shared data, under one lock or not, for
    any number of tasks, the contract \<open>atomic_object\<close> (what runs under the lock is serial and
    someone can always move), and runs on a mutex that may not be initialised, where locking is
    undefined.
  \<^item> \<open>Globalmem\<close>, \<open>Globalmem_Lock\<close>: the two memory drivers, every handler with its guards, the
    operation table, \<open>init\<close> and \<open>exit\<close>. They interpret \<open>seekable_device\<close>, \<open>chrdev_module\<close> or
    \<open>chrdev_clean\<close>, and the locked driver \<open>lock_client\<close>. The two devices of \<open>globalmem\<close> lie in one
    block of bytes, as they are allocated, and a handler gets the bytes from its array on.
    \<open>Globalmem_Conc\<close>: both drivers with the copies made byte by byte; the locked one interprets
    \<open>atomic_object\<close>.
  \<^item> \<open>User_Memory\<close>: the programs \<open>test.c\<close>, \<open>test1.c\<close> and \<open>test2.c\<close> of these two drivers;
    \<open>User_Memory_Props\<close>: the contract \<open>user_device\<close> (a seekable device behind system calls),
    interpreted on both drivers, and the properties.
  \<^item> \<open>Globalfifo\<close>: the queue's handlers, split where they sleep, interpreting \<open>byte_fifo\<close>,
    \<open>lock_client\<close> and \<open>chrdev_clean\<close>; \<open>Globalfifo_Sched\<close>: any number of tasks reading, writing,
    sleeping and being woken or interrupted; \<open>Globalfifo_Files\<close>: the operation table, with
    sessions of system calls on any number of files next to an abstract queue with
    subscribers; \<open>User_Monitors\<close>: the three monitors of
    \<open>src/globalfifo\<close> next to such tasks.
  \<^item> \<open>Expfs_Store\<close>: the block array as flat memory in the layout of the x86-64 ABI, with integers
    and C strings in it; \<open>Expfs\<close>: every operation of the file system on it, the operation tables,
    mounting and loading; \<open>Expfs_Dir\<close>, \<open>Expfs_Entries\<close>: searching, erasing and appending entries
    as list operations, and what an operation leaves alone; \<open>Expfs_Tree\<close>: the abstract file
    system, a map from block numbers to directories and leaves with its well-formedness
    \<open>tree_ok\<close>; \<open>Expfs_Reach\<close>: what lies below a directory; \<open>Expfs_Refine\<close>, \<open>Expfs_Refine2\<close>: the
    operations refine it; \<open>Expfs_Files\<close>: file contents; \<open>Expfs_Sessions\<close>: directories interpret
    \<open>name_directory\<close>, the locking handlers \<open>lock_client\<close>; \<open>Expfs_Props\<close>, \<open>Expfs_Faults\<close>: the
    properties of single operations; \<open>Expfs_Conc\<close>: any number of tasks changing different
    directories at the same time, with creation split into its guards and its locked part.
  \<^item> \<open>Expfs_Vfs\<close>: system calls as the VFS makes them, through the operation tables, next to an
    abstract file system of directories and file contents; \<open>Expfs_Vfs_Refine\<close>: every legal call
    refines the abstract one; \<open>Expfs_Vfs_Props\<close>: the properties of sessions; \<open>Expfs_Linear\<close>:
    the system calls of any number of tasks interleaved, and that they are linearisable.
  \<^item> \<open>Sbull\<close>: requests, open and release, geometry, setting up and removing devices, and that the
    segment loop is one flat transfer; \<open>Sbull_Props\<close>: the properties; \<open>Sbull_Load\<close>: loading and
    unloading, with the major number and the module parameters; \<open>Sbull_Session\<close>: the operation
    tables, with sessions on all disks next to two specifications, the disks of 512-byte sectors
    that the comments describe and the flat arrays that the code makes of them.
  \<^item> \<open>Second\<close>: the counter, a session as time passing, and the timer's handler interleaved with
    \<open>release\<close> and unloading; \<open>Second_Files\<close>: the operation table, with sessions of opening,
    reading and closing files next to a stopwatch; \<open>User_Second\<close>: the program \<open>second_test.c\<close>.
  \<^item> \<open>Small_Modules\<close>: \<open>add_sub\<close>, \<open>test\<close>, \<open>unload\<close>, \<open>kern_thread\<close>, \<open>hack_thread\<close>. \<open>Log_Modules\<close>:
    \<open>hello\<close>, \<open>addrsniffer\<close>, \<open>procfs_rw\<close>. \<open>Intrsimulate\<close>: the driver skeleton of
    \<open>src/intrsimulate\<close>, which does not compile and is read with the evident corrections; it
    interprets \<open>chrdev_clean\<close> and \<open>lock_client\<close>. \<open>Module_System\<close>: the five character-device
    modules loaded and unloaded in one kernel, with the contract \<open>chrdev_user\<close>.

  \<^bold>\<open>What is shown.\<close>
  \<^item> \<open>expfs\<close>: from loading and mounting on, any legal session of system calls succeeds and is what
    the abstract file system does (C1), also when the calls of any number of tasks interleave,
    which have the effect of one after another (C2); the single operations act on the abstract tree as their
    names say and keep it well-formed (C9 to C13); inodes carry the operations of what they stand
    for (C14); tasks that change different directories at the same time are serial, too (C7). The
    limits of the code: mounting again loses all files (C31), the limit on creations is tested
    outside the lock (C32), a read at the end of a file keeps the lock for good (C34), a fifth
    entry runs into the next block (C38), a full disk writes outside the array (C39), rename onto
    an existing name leaves both entries (C40). Further theorems: the
    lock is never waited for in a circle, listing, reads ignore the position, the count of used blocks only grows, writes truncate.
  \<^item> \<open>globalfifo\<close>: from loading on, a session of system calls on any number of files is what a
    bounded queue with subscribers does (C3), and for any interleaving of sleeping tasks the
    device is a FIFO (C8), both as long as every read takes at least half of the queue; a shorter
    read makes \<open>memcpy\<close> copy between overlapping ranges and can corrupt the queue (C36). With a
    \<open>memmove\<close> there the restriction goes (\<open>globalfifo_fifo_with_memmove\<close>). No reader sleeps while
    there is data (C15), poll agrees with non-blocking calls (C25), what \<open>pollmonitor\<close> reports
    (C23), for whatever \<open>memcpy\<close> does; \<open>FIFO_CLEAR\<close> strands writers (C37). Further theorems: what
    the other two monitors report, and that a blocking read may return 0.
  \<^item> \<open>sbull\<close>: from loading on, a session on the disks is what disks of 512-byte sectors with use
    counts do, for requests that start at sector 0 (C4); elsewhere the code takes the sector for
    a byte offset (C35), and the geometry takes bytes for sectors (C24). What it does in general
    is \<open>sbull_session_bytes\<close>. Requests are flat transfers however they are segmented (C16), the
    outcome of loading and unloading for every answer of the kernel (C26). A further theorem: a
    failed load leaks the major number.
  \<^item> \<open>globalmem\<close>, \<open>globalmem_lock\<close>: as loaded, the mutex of the locked driver is not initialised, and
    locking it is undefined; with the initialisation all interleavings are serial and some task
    can always go on (C6), without a mutex reads are torn (C28). The other theorems about the
    locked driver are about single calls, or about its mutex as if it worked
    (\<open>globalmem_lock_no_deadlock\<close>). Session invariant, round trip, isolation of the two devices in
    their block (C18 to C20), when the menu program ends and what it prints (C21, C22), buffer
    overruns of the programs for the locked driver (C33).
  \<^item> \<open>second\<close>: from loading on, a session of opening, reading and closing files is that of a
    stopwatch restarted by each opening (C5); the timer can outlive the module (C27).
  \<^item> The modules together: device nodes lead only to loaded modules (C17), the default major
    numbers clash (C29), a failed load of \<open>globalmem\<close> is for good (C30).

  \<^bold>\<open>Bounds.\<close> No fuel is used: every loop of the drivers is bounded by a list, a count or an index
  and is a structural recursion. Loops that may run forever are \<open>partial_function\<close>s whose value
  is then \<open>None\<close>: the thread function of \<open>kern_thread\<close>, the menu of the memory drivers, waiting
  in \<open>select\<close>. The endless loops of \<open>pollmonitor\<close> and \<open>second_test\<close> are their first \<open>k\<close> rounds,
  for every \<open>k\<close>.

  \<^bold>\<open>Not modelled.\<close> \<open>src/sbull/sbull.h\<close> (macros and a structure for kernel 2.4, which \<open>sbull.c\<close> does
  not include), \<open>src/vmem_disk\<close> (no code), the code that is commented out or compiled out (the
  \<open>ioctl\<close> variants for kernels before 2.6.36, most of the second half of the LDD3 driver in
  \<open>sbull.c\<close>), build files and the Python script that prints a driver template.
\<close>

end
